(* ===== verification/Prelude.thy ===== *)
theory Prelude
  imports Main "HOL-Library.Word"
begin

text \<open>
  The shared ground of the development: C strings and the bounded copies the server makes of
  them (\<open>strncpy\<close>, \<open>snprintf\<close>), the decimal conversions of the C library (\<open>atoi\<close>,
  \<open>atoll\<close>, \<open>%d\<close>, \<open>%lld\<close>), the scan and shift loops over arrays with a fill count, and
  the generic list lemmas the components use.  The collections declared here gather the facts
  that the proofs of a component share.
\<close>

named_theorems cstring_simps \<open>unfolding rules of the C string operations\<close>
named_theorems array_simps \<open>abstraction of counted arrays to lists\<close>

type_synonym addr = nat
type_synonym fd = int

section \<open>C strings\<close>

text \<open>A C string is the list of the bytes before its terminating NUL.\<close>

definition NUL :: char where
  "NUL = CHR 0x00"

definition cstr :: "char list \<Rightarrow> string" where
  "cstr bs = takeWhile (\<lambda>c. c \<noteq> NUL) bs"

text \<open>\<open>s[i]\<close> for an index up to and including the terminator.\<close>

definition char_at :: "string \<Rightarrow> nat \<Rightarrow> char" where
  "char_at s i = (if i < length s then s ! i else NUL)"

text \<open>
  \<open>strncpy(d, s, n - 1); d[n - 1] = 0\<close> on an array of \<open>n\<close> bytes, and the content of an
  array of \<open>n\<close> bytes after \<open>snprintf(d, n, "%s", s)\<close>: both keep the first \<open>n - 1\<close> bytes.
\<close>

definition strncpy_term :: "nat \<Rightarrow> string \<Rightarrow> string" where
  "strncpy_term n s = take (n - 1) s"

definition snprintf_out :: "nat \<Rightarrow> string \<Rightarrow> string" where
  "snprintf_out n s = take (n - 1) s"

text \<open>
  The append idiom \<open>off += snprintf(buf + off, sizeof(buf) - off, "%s", s)\<close>.  \<open>snprintf\<close>
  returns the length it wanted to write, so \<open>off\<close> can pass the end of the buffer; from then on
  \<open>sizeof(buf) - off\<close> wraps around in \<open>size_t\<close> and the next call writes behind the buffer.
\<close>

datatype memory_error = Out_of_bounds

type_synonym sbuf = "string \<times> nat"

definition sn_append :: "nat \<Rightarrow> sbuf \<Rightarrow> string \<Rightarrow> memory_error + sbuf" where
  "sn_append n b s =
     (let (buf, off) = b in
      if off > n then Inl Out_of_bounds
      else Inr (take off buf @ take (n - off - 1) s, off + length s))"

text \<open>A sequence of such appends, and the loop that stops once the offset has reached \<open>stop\<close>.\<close>

fun sn_appends :: "nat \<Rightarrow> sbuf \<Rightarrow> string list \<Rightarrow> memory_error + sbuf" where
  "sn_appends n b [] = Inr b"
| "sn_appends n b (s # ss) = (case sn_append n b s of Inl er \<Rightarrow> Inl er | Inr b' \<Rightarrow> sn_appends n b' ss)"

fun sn_appends_until :: "nat \<Rightarrow> nat \<Rightarrow> sbuf \<Rightarrow> string list \<Rightarrow> memory_error + sbuf" where
  "sn_appends_until n stop b [] = Inr b"
| "sn_appends_until n stop b (s # ss) =
     (case sn_append n b s of
        Inl er \<Rightarrow> Inl er
      | Inr b' \<Rightarrow> if snd b' \<ge> stop then Inr b' else sn_appends_until n stop b' ss)"

section \<open>Decimal conversions\<close>

definition isspace :: "char \<Rightarrow> bool" where
  "isspace c \<longleftrightarrow> (let n = (of_char c :: nat) in n = 32 \<or> (9 \<le> n \<and> n \<le> 13))"

definition isdigit :: "char \<Rightarrow> bool" where
  "isdigit c \<longleftrightarrow> (let n = (of_char c :: nat) in 48 \<le> n \<and> n \<le> 57)"

definition digit_val :: "char \<Rightarrow> nat" where
  "digit_val c = of_char c - 48"

definition digits_val :: "string \<Rightarrow> nat" where
  "digits_val ds = foldl (\<lambda>v c. 10 * v + digit_val c) 0 ds"

text \<open>\<open>strtoll(s, NULL, 10)\<close>: white space, a sign, digits; the value saturates at 64 bits.\<close>

definition clamp64 :: "int \<Rightarrow> int" where
  "clamp64 v = max (- (2 ^ 63)) (min (2 ^ 63 - 1) v)"

definition strtoll :: "string \<Rightarrow> int" where
  "strtoll s =
     (let s1 = dropWhile isspace s;
          neg = (s1 \<noteq> [] \<and> hd s1 = CHR ''-'');
          s2 = (if s1 \<noteq> [] \<and> (hd s1 = CHR ''-'' \<or> hd s1 = CHR ''+'') then tl s1 else s1);
          v = int (digits_val (takeWhile isdigit s2))
      in clamp64 (if neg then - v else v))"

definition atoll :: "string \<Rightarrow> int" where
  "atoll s = strtoll s"

text \<open>\<open>atoi\<close> is \<open>(int) strtol(s, NULL, 10)\<close>: 64 bits wide, then cut to 32.\<close>

definition atoi :: "string \<Rightarrow> int" where
  "atoi s = signed_take_bit 31 (strtoll s)"

fun show_nat :: "nat \<Rightarrow> string" where
  "show_nat n = (if n < 10 then [char_of (48 + n)] else show_nat (n div 10) @ [char_of (48 + n mod 10)])"

declare show_nat.simps [simp del]

definition show_int :: "int \<Rightarrow> string" where
  "show_int i = (if i < 0 then CHR ''-'' # show_nat (nat (- i)) else show_nat (nat i))"

section \<open>Arrays with a fill count\<close>

text \<open>The search loop \<open>for (i = 0; i < n; i++) if (P(a[i])) { idx = i; break; }\<close>.\<close>

function scan :: "('a \<Rightarrow> bool) \<Rightarrow> 'a list \<Rightarrow> nat \<Rightarrow> nat \<Rightarrow> nat option" where
  "scan P a i n = (if i < n then (if P (a ! i) then Some i else scan P a (Suc i) n) else None)"
  by pat_completeness auto
termination by (relation "measure (\<lambda>(P, a, i, n). n - i)") auto

declare scan.simps [simp del]

text \<open>The shift loop \<open>for (i = start; i < stop; i++) a[i] = a[i + 1]\<close>.\<close>

function shift_array :: "'a list \<Rightarrow> nat \<Rightarrow> nat \<Rightarrow> 'a list" where
  "shift_array a i stop = (if i < stop then shift_array (a[i := a ! Suc i]) (Suc i) stop else a)"
  by pat_completeness auto
termination by (relation "measure (\<lambda>(a, i, stop). stop - i)") auto

declare shift_array.simps [simp del]

text \<open>The last \<open>n\<close> elements of a list: what a bounded log keeps.\<close>

definition lastn :: "nat \<Rightarrow> 'a list \<Rightarrow> 'a list" where
  "lastn n xs = drop (length xs - n) xs"

section \<open>Lemmas on strings\<close>

lemma cstr_no_NUL [simp]: "NUL \<notin> set (cstr bs)"
  by (auto simp: cstr_def dest: set_takeWhileD)

lemma cstr_id [simp]: "NUL \<notin> set s \<Longrightarrow> cstr s = s"
  by (induction s) (auto simp: cstr_def)

lemma cstr_append_NUL: "NUL \<notin> set s \<Longrightarrow> cstr (s @ NUL # r) = s"
  by (induction s) (auto simp: cstr_def)

lemma takeWhile_neq [simp]: "x \<notin> set t \<Longrightarrow> takeWhile (\<lambda>c. c \<noteq> x) t = t"
  by (induction t) auto

lemma dropWhile_neq [simp]: "x \<notin> set t \<Longrightarrow> dropWhile (\<lambda>c. c \<noteq> x) t = []"
  by (induction t) auto

lemma dropWhile_True [simp]: "dropWhile (\<lambda>c. True) t = []"
  by (induction t) auto

lemma length_strncpy_term: "length (strncpy_term n s) \<le> n - 1"
  by (simp add: strncpy_term_def)

lemma strncpy_term_id [simp]: "length s < n \<Longrightarrow> strncpy_term n s = s"
  by (simp add: strncpy_term_def)

lemma length_snprintf_out: "length (snprintf_out n s) \<le> n - 1"
  by (simp add: snprintf_out_def)

lemma snprintf_out_id [simp]: "length s < n \<Longrightarrow> snprintf_out n s = s"
  by (simp add: snprintf_out_def)

lemma sn_append_fits:
  assumes "length buf = off" and "off + length s < n"
  shows "sn_append n (buf, off) s = Inr (buf @ s, off + length s)"
  using assms by (simp add: sn_append_def)

lemma sn_append_safe: "off \<le> n \<Longrightarrow> sn_append n (buf, off) s =
    Inr (take off buf @ take (n - off - 1) s, off + length s)"
  by (simp add: sn_append_def)

lemma sn_appends_fits:
  "length buf = off \<Longrightarrow> off + length (concat ss) < n \<Longrightarrow>
     sn_appends n (buf, off) ss = Inr (buf @ concat ss, off + length (concat ss))"
proof (induction ss arbitrary: buf off)
  case (Cons s ss)
  then show ?case using Cons.IH [of "buf @ s" "off + length s"] by (simp add: sn_append_fits)
qed simp

lemma sn_appends_overflow:
  "sn_appends n (buf, off) ss = Inl Out_of_bounds \<longleftrightarrow> ss \<noteq> [] \<and> n < off + length (concat (butlast ss))"
  by (induction ss arbitrary: buf off) (auto simp: sn_append_def)

text \<open>The stopping loop is safe when no entry is longer than what is left behind the stop mark.\<close>

lemma sn_appends_until_safe:
  "stop \<le> n \<Longrightarrow> off < stop \<Longrightarrow> (\<forall>s \<in> set ss. stop + length s \<le> n + 1) \<Longrightarrow>
     \<exists>buf' off'. sn_appends_until n stop (buf, off) ss = Inr (buf', off') \<and> off' \<le> n"
proof (induction ss arbitrary: buf off)
  case (Cons s ss)
  then have "off \<le> n" "off + length s \<le> n" by auto
  with Cons show ?case by (auto simp: sn_append_def)
qed auto

section \<open>Decimal round trip\<close>

lemma isdigit_char_of [simp]: "d < 10 \<Longrightarrow> isdigit (char_of (48 + d :: nat))"
  by (simp add: isdigit_def)

lemma digit_val_char_of [simp]: "d < 10 \<Longrightarrow> digit_val (char_of (48 + d :: nat)) = d"
  by (simp add: digit_val_def)

lemma show_nat_not_Nil [simp]: "show_nat n \<noteq> []"
  by (subst show_nat.simps) simp

lemma show_nat_isdigit: "c \<in> set (show_nat n) \<Longrightarrow> isdigit c"
proof (induction n rule: show_nat.induct)
  case (1 n)
  then show ?case
    by (cases "n < 10") (auto simp: show_nat.simps [of n] simp del: isdigit_char_of
        intro: isdigit_char_of)
qed

lemma digits_val_show_nat: "digits_val (show_nat n) = n"
proof (induction n rule: show_nat.induct)
  case (1 n)
  then show ?case
    by (cases "n < 10") (simp_all add: show_nat.simps [of n] digits_val_def)
qed

lemma isdigit_not_space_sign:
  "isdigit c \<Longrightarrow> \<not> isspace c \<and> c \<noteq> CHR ''-'' \<and> c \<noteq> CHR ''+'' \<and> c \<noteq> CHR '' '' \<and> c \<noteq> NUL \<and> c \<noteq> CHR 0x0A"
  by (auto simp: isdigit_def isspace_def NUL_def Let_def)

lemma hd_show_nat_isdigit: "isdigit (hd (show_nat n))"
  by (rule show_nat_isdigit) (rule list.set_sel(1), simp)

lemma takeWhile_show_nat [simp]: "takeWhile isdigit (show_nat n) = show_nat n"
  using show_nat_isdigit by (simp add: takeWhile_eq_all_conv)

lemma dropWhile_space_show_nat [simp]: "dropWhile isspace (show_nat n) = show_nat n"
  using hd_show_nat_isdigit [of n] isdigit_not_space_sign by (cases "show_nat n") auto

lemma clamp64_id: "- (2 ^ 63) \<le> v \<Longrightarrow> v < 2 ^ 63 \<Longrightarrow> clamp64 v = v"
  by (simp add: clamp64_def)

lemma clamp64_range: "- (2 ^ 63) \<le> clamp64 v \<and> clamp64 v < 2 ^ 63"
  by (auto simp: clamp64_def)

lemma strtoll_show_int:
  assumes "- (2 ^ 63) \<le> i" and "i < 2 ^ 63"
  shows "strtoll (show_int i) = i"
proof (cases "i < 0")
  case True
  have "\<not> isspace (CHR ''-'')" by (simp add: isspace_def)
  with True assms show ?thesis
    by (simp add: strtoll_def show_int_def digits_val_show_nat clamp64_id)
next
  case False
  have "hd (show_nat (nat i)) \<noteq> CHR ''-''" "hd (show_nat (nat i)) \<noteq> CHR ''+''"
    using hd_show_nat_isdigit isdigit_not_space_sign by blast+
  with False assms show ?thesis
    by (simp add: strtoll_def show_int_def digits_val_show_nat clamp64_id)
qed

lemma atoi_range: "- (2 ^ 31) \<le> atoi s \<and> atoi s < 2 ^ 31"
  unfolding atoi_def
  using signed_take_bit_int_greater_eq_minus_exp [of 31 "strtoll s"]
    signed_take_bit_int_less_exp [of 31 "strtoll s"] by blast

lemma atoi_show_int:
  assumes "- (2 ^ 31) \<le> i" and "i < 2 ^ 31"
  shows "atoi (show_int i) = i"
  using assms by (simp add: atoi_def strtoll_show_int signed_take_bit_int_eq_self)

lemma show_int_no_space: "CHR '' '' \<notin> set (show_int i) \<and> CHR 0x0A \<notin> set (show_int i)"
  using show_nat_isdigit isdigit_not_space_sign by (auto simp: show_int_def)

section \<open>Lemmas on scans and shifts\<close>

lemma scan_Some:
  "scan P a i n = Some k \<longleftrightarrow> i \<le> k \<and> k < n \<and> P (a ! k) \<and> (\<forall>j. i \<le> j \<and> j < k \<longrightarrow> \<not> P (a ! j))"
proof (induction P a i n rule: scan.induct)
  case (1 P a i n)
  show ?case
  proof (cases "i < n \<and> \<not> P (a ! i)")
    case True
    with 1 have "scan P a i n = Some k \<longleftrightarrow>
        Suc i \<le> k \<and> k < n \<and> P (a ! k) \<and> (\<forall>j. Suc i \<le> j \<and> j < k \<longrightarrow> \<not> P (a ! j))"
      by (simp add: scan.simps [of P a i n])
    with True show ?thesis by (metis Suc_le_eq le_eq_less_or_eq)
  next
    case False
    then show ?thesis by (auto simp: scan.simps [of P a i n] intro: antisym)
  qed
qed

lemma scan_None: "scan P a i n = None \<longleftrightarrow> (\<forall>j. i \<le> j \<and> j < n \<longrightarrow> \<not> P (a ! j))"
proof (induction P a i n rule: scan.induct)
  case (1 P a i n)
  show ?case
  proof (cases "i < n \<and> \<not> P (a ! i)")
    case True
    with 1 show ?thesis
      by (simp add: scan.simps [of P a i n]) (metis Suc_le_eq le_eq_less_or_eq)
  next
    case False
    then show ?thesis by (auto simp: scan.simps [of P a i n])
  qed
qed

lemma scan_None_set: "n \<le> length a \<Longrightarrow> scan P a 0 n = None \<longleftrightarrow> (\<forall>x \<in> set (take n a). \<not> P x)"
  by (auto simp: scan_None set_conv_nth)

lemma shift_array_length [simp]: "length (shift_array a i stop) = length a"
proof (induction a i stop rule: shift_array.induct)
  case (1 a i stop)
  then show ?case by (subst shift_array.simps) simp
qed

lemma shift_array_nth:
  assumes "stop < length a" and "k < length a"
  shows "shift_array a i stop ! k = (if i \<le> k \<and> k < stop then a ! Suc k else a ! k)"
  using assms
proof (induction a i stop rule: shift_array.induct)
  case (1 a i stop)
  show ?case
  proof (cases "i < stop")
    case True
    with 1 have "shift_array (a[i := a ! Suc i]) (Suc i) stop ! k =
        (if Suc i \<le> k \<and> k < stop then a[i := a ! Suc i] ! Suc k else a[i := a ! Suc i] ! k)"
      by simp
    with True 1(3) show ?thesis
      by (simp add: shift_array.simps [of a i stop]) (auto simp: nth_list_update not_less_eq_eq)
  next
    case False
    then show ?thesis by (auto simp: shift_array.simps [of a i stop])
  qed
qed

text \<open>Removing slot \<open>i\<close> of the first \<open>Suc n\<close> by shifting leaves the others in order.\<close>

lemma take_shift_array:
  assumes "i \<le> n" and "n < length a"
  shows "take n (shift_array a i n) = take i a @ drop (Suc i) (take (Suc n) a)"
  using assms by (intro nth_equalityI) (auto simp: shift_array_nth nth_append min_def)

lemma take_remove_slot [array_simps]:
  assumes "i < n" and "n \<le> length a"
  shows "take (n - 1) ((if i \<noteq> n - 1 then shift_array a i (n - 1) else a)[n - 1 := z]) =
     take i a @ drop (Suc i) (take n a)"
proof (cases "i = n - 1")
  case True
  with assms show ?thesis by simp
next
  case False
  with assms take_shift_array [of i "n - 1" a] show ?thesis by simp
qed

lemma distinct_remove_slot:
  assumes "distinct xs" and "i < length xs"
  shows "take i xs @ drop (Suc i) xs = remove1 (xs ! i) xs"
  using assms
proof (induction xs arbitrary: i)
  case (Cons x xs)
  then show ?case by (cases i) auto
qed simp

section \<open>Lemmas on bounded suffixes\<close>

lemma length_lastn [simp]: "length (lastn n xs) = min n (length xs)"
  by (simp add: lastn_def)

lemma lastn_all [simp]: "length xs \<le> n \<Longrightarrow> lastn n xs = xs"
  by (simp add: lastn_def)

lemma lastn_append_lastn: "lastn n (lastn n xs @ ys) = lastn n (xs @ ys)"
  by (cases "length xs \<le> n") (auto simp: lastn_def add.commute)

lemma lastn_0 [simp]: "lastn 0 xs = []"
  by (simp add: lastn_def)

lemma lastn_Nil_iff [simp]: "lastn n xs = [] \<longleftrightarrow> n = 0 \<or> xs = []"
  by (cases xs) (auto simp: lastn_def)

lemma set_lastn: "set (lastn n xs) \<subseteq> set xs"
  by (simp add: lastn_def set_drop_subset)

lemma sorted_wrt_lastn: "sorted_wrt R xs \<Longrightarrow> sorted_wrt R (lastn n xs)"
  by (simp add: lastn_def sorted_wrt_drop)

lemma map_lastn: "map f (lastn n xs) = lastn n (map f xs)"
  by (simp add: lastn_def drop_map)

section \<open>Arrays of pointers with a fill count\<close>

text \<open>
  The first \<open>n\<close> of \<open>cap\<close> slots hold the addresses of \<open>D\<close>, each once, and none of them is
  \<open>NULL\<close>.
\<close>

definition counted :: "addr option list \<Rightarrow> nat \<Rightarrow> nat \<Rightarrow> addr set \<Rightarrow> bool" where
  "counted l n cap D \<longleftrightarrow>
     length l = cap \<and> n \<le> cap \<and> distinct (take n l) \<and> set (take n l) = Some ` D"

lemma counted_empty: "counted (replicate cap None) 0 cap {}"
  by (simp add: counted_def)

lemma counted_finite: "counted l n cap D \<Longrightarrow> finite D"
  by (metis counted_def List.finite_set finite_imageD inj_Some inj_on_subset subset_UNIV)

lemma counted_card: "counted l n cap D \<Longrightarrow> card D = n"
proof -
  assume c: "counted l n cap D"
  then have "card (Some ` D) = n" by (metis counted_def distinct_card length_take min.absorb2)
  then show ?thesis by (simp add: card_image)
qed

lemma counted_append:
  assumes "counted l n cap D" and "n < cap" and "a \<notin> D"
  shows "counted (l[n := Some a]) (n + 1) cap (insert a D)"
  using assms by (auto simp: counted_def take_Suc_conv_app_nth)

lemma counted_nth: "counted l n cap D \<Longrightarrow> i < n \<Longrightarrow> \<exists>a \<in> D. l ! i = Some a"
  unfolding counted_def by (metis image_iff in_set_conv_nth length_take min.absorb2 nth_take)

lemma counted_mem: "counted l n cap D \<Longrightarrow> a \<in> D \<longleftrightarrow> (\<exists>i < n. l ! i = Some a)"
proof -
  assume c: "counted l n cap D"
  have "a \<in> D \<longleftrightarrow> Some a \<in> set (take n l)" using c by (auto simp: counted_def)
  also have "\<dots> \<longleftrightarrow> (\<exists>i < n. l ! i = Some a)" using c unfolding in_set_conv_nth by (auto simp: counted_def)
  finally show ?thesis .
qed

lemma counted_scan_None:
  "counted l n cap D \<Longrightarrow> scan (\<lambda>q. q = Some a) l 0 n = None \<longleftrightarrow> a \<notin> D"
  by (simp add: counted_mem scan_None)

lemma counted_remove:
  assumes c: "counted l n cap D" and "scan (\<lambda>q. q = Some a) l 0 n = Some i"
  shows "counted ((if i \<noteq> n - 1 then shift_array l i (n - 1) else l)[n - 1 := None]) (n - 1) cap (D - {a})"
proof -
  have i: "i < n" "l ! i = Some a" using assms(2) by (auto simp: scan_Some)
  have n: "n \<le> length l" "distinct (take n l)" "set (take n l) = Some ` D"
    using c by (auto simp: counted_def)
  let ?l = "(if i \<noteq> n - 1 then shift_array l i (n - 1) else l)[n - 1 := None]"
  have "take (n - 1) ?l = take i (take n l) @ drop (Suc i) (take n l)"
    using take_remove_slot [OF i(1) n(1), of None] i by simp
  also have "\<dots> = remove1 (Some a) (take n l)"
    using distinct_remove_slot [OF n(2), of i] i n(1) by simp
  finally have "take (n - 1) ?l = remove1 (Some a) (take n l)" .
  then show ?thesis using c n by (auto simp: counted_def)
qed

end
