(* ===== verification/Threadpool.thy ===== *)
theory Threadpool
  imports Prelude
begin

text \<open>
  The thread pool of \<open>src/threadpool.c\<close>: the queue of ready connections as a linked list of
  \<open>job_t\<close> in a heap, the worker loop as a step machine whose steps are the sections between taking and
  releasing the lock, submission with scale-up, shrinking and shutdown.  The queue refines a list (locale
  \<open>fifo\<close>); no wake-up is lost and every submitted connection is handled, in the order of
  submission.
\<close>

section \<open>First in, first out\<close>

text \<open>What the pool relies on of its queue.\<close>

locale fifo =
  fixes ok :: "'q \<Rightarrow> bool" and items :: "'q \<Rightarrow> 'x list" and room :: "'q \<Rightarrow> 'a \<Rightarrow> bool"
    and enq :: "'a \<Rightarrow> 'x \<Rightarrow> 'q \<Rightarrow> 'q" and deq :: "'q \<Rightarrow> ('a \<times> 'q) option" and item :: "'q \<Rightarrow> 'a \<Rightarrow> 'x"
  assumes enq_ok: "ok q \<Longrightarrow> room q a \<Longrightarrow> ok (enq a x q)"
    and items_enq: "ok q \<Longrightarrow> room q a \<Longrightarrow> items (enq a x q) = items q @ [x]"
    and deq_None: "ok q \<Longrightarrow> deq q = None \<longleftrightarrow> items q = []"
    and deq_ok: "ok q \<Longrightarrow> deq q = Some (a, q') \<Longrightarrow> ok q'"
    and items_deq: "ok q \<Longrightarrow> deq q = Some (a, q') \<Longrightarrow> items q = item q a # items q'"
begin

text \<open>Emptying the queue yields its items in order.\<close>

fun drained :: "nat \<Rightarrow> 'q \<Rightarrow> 'x list" where
  "drained 0 q = []"
| "drained (Suc n) q = (case deq q of None \<Rightarrow> [] | Some (a, q') \<Rightarrow> item q a # drained n q')"

lemma drained_take: "ok q \<Longrightarrow> drained n q = take n (items q)"
proof (induction n arbitrary: q)
  case (Suc n)
  show ?case
  proof (cases "deq q")
    case None
    then show ?thesis using deq_None [OF Suc.prems] by simp
  next
    case (Some aq)
    then obtain a q' where aq: "deq q = Some (a, q')" by (cases aq) simp
    then show ?thesis using Suc.IH [OF deq_ok [OF Suc.prems aq]] items_deq [OF Suc.prems aq] by simp
  qed
qed simp

lemma drained_enqs:
  assumes "ok q" and "room q a"
  shows "drained (Suc (length (items q))) (enq a x q) = items q @ [x]"
  using drained_take [OF enq_ok [OF assms], of "Suc (length (items q))"] items_enq [OF assms, of x] by simp

end

section \<open>The queue\<close>

record job =
  job_conn :: int
  job_next :: "addr option"

text \<open>\<open>threadpool_t\<close>; the thread ids are indices into the list of all threads ever created.\<close>

record threadpool =
  threads :: "nat option list"
  thread_count :: int
  max_threads :: int
  min_threads :: int
  pool_head :: "addr option"
  pool_tail :: "addr option"
  queue_size :: int
  idle_count :: int
  marked_exits :: int
  shrink_idle_sec :: int
  pool_shutdown :: bool

text \<open>The queue is the pool's two pointers and the length, on the heap of jobs.\<close>

type_synonym queue = "(addr \<rightharpoonup> job) \<times> addr option \<times> addr option \<times> int"

definition enqueue :: "addr \<Rightarrow> int \<Rightarrow> queue \<Rightarrow> queue" where
  "enqueue a conn = (\<lambda>(h, hp, tp, n).
     let h1 = h(a \<mapsto> \<lparr>job_conn = conn, job_next = None\<rparr>) in
     case tp of
       None \<Rightarrow> (h1, Some a, Some a, n + 1)
     | Some b \<Rightarrow> (h1(b := map_option (\<lambda>j. j\<lparr>job_next := Some a\<rparr>) (h1 b)), hp, Some a, n + 1))"

text \<open>\<open>None\<close>: \<open>pool->head\<close> is \<open>NULL\<close> (or dangling) and \<open>job->next\<close> is read all the same.\<close>

definition dequeue :: "queue \<Rightarrow> (addr \<times> queue) option" where
  "dequeue = (\<lambda>(h, hp, tp, n).
     case hp of None \<Rightarrow> None | Some a \<Rightarrow>
       (case h a of None \<Rightarrow> None | Some j \<Rightarrow>
          Some (a, h, job_next j, if job_next j = None then None else tp, n - 1)))"

text \<open>The addresses from a pointer along \<open>next\<close>.\<close>

fun chain :: "(addr \<rightharpoonup> job) \<Rightarrow> addr option \<Rightarrow> addr list \<Rightarrow> bool" where
  "chain h p [] \<longleftrightarrow> p = None"
| "chain h p (a # as) \<longleftrightarrow> p = Some a \<and> (case h a of None \<Rightarrow> False | Some j \<Rightarrow> chain h (job_next j) as)"

definition queue_rel :: "queue \<Rightarrow> addr list \<Rightarrow> bool" where
  "queue_rel q as \<longleftrightarrow> (case q of (h, hp, tp, n) \<Rightarrow>
     chain h hp as \<and> distinct as \<and> tp = (if as = [] then None else Some (last as)) \<and> n = int (length as))"

definition queue_ok :: "queue \<Rightarrow> bool" where
  "queue_ok q \<longleftrightarrow> (\<exists>as. queue_rel q as)"

text \<open>The walk along the list, at most \<open>n\<close> jobs.\<close>

fun walk :: "nat \<Rightarrow> (addr \<rightharpoonup> job) \<Rightarrow> addr option \<Rightarrow> addr list" where
  "walk 0 h p = []"
| "walk (Suc n) h p =
     (case p of None \<Rightarrow> [] | Some a \<Rightarrow> (case h a of None \<Rightarrow> [] | Some j \<Rightarrow> a # walk n h (job_next j)))"

definition job_at :: "(addr \<rightharpoonup> job) \<Rightarrow> addr \<Rightarrow> int" where
  "job_at h a = (case h a of None \<Rightarrow> 0 | Some j \<Rightarrow> job_conn j)"

definition queue_addrs :: "queue \<Rightarrow> addr list" where
  "queue_addrs q = (case q of (h, hp, tp, n) \<Rightarrow> walk (nat n) h hp)"

definition queue_items :: "queue \<Rightarrow> int list" where
  "queue_items q = map (job_at (fst q)) (queue_addrs q)"

text \<open>A block \<open>malloc\<close> returns is not one of the queue.\<close>

definition queue_room :: "queue \<Rightarrow> addr \<Rightarrow> bool" where
  "queue_room q a \<longleftrightarrow> fst q a = None"

lemma chain_walk: "chain h p as \<Longrightarrow> walk (length as) h p = as"
  by (induction as arbitrary: p) (auto split: option.splits)

lemma chain_live: "chain h p as \<Longrightarrow> a \<in> set as \<Longrightarrow> h a \<noteq> None"
  by (induction as arbitrary: p) (auto split: option.splits)

lemma chain_cong: "(\<And>a. a \<in> set as \<Longrightarrow> h' a = h a) \<Longrightarrow> chain h p as \<Longrightarrow> chain h' p as"
  by (induction as arbitrary: p) (auto split: option.splits)

lemma queue_rel_addrs: "queue_rel q as \<Longrightarrow> queue_addrs q = as"
  by (cases q) (auto simp: queue_rel_def queue_addrs_def chain_walk)

lemma queue_ok_rel: "queue_ok q \<Longrightarrow> queue_rel q (queue_addrs q)"
  unfolding queue_ok_def by (metis queue_rel_addrs)

lemma chain_snoc:
  assumes "chain h p (as @ [b])" and "distinct (as @ [b])" and "a \<notin> set (as @ [b])"
    and "h' b = map_option (\<lambda>j. j\<lparr>job_next := Some a\<rparr>) (h b)" and "\<exists>j. h' a = Some j \<and> job_next j = None"
    and "\<And>c. c \<in> set as \<Longrightarrow> h' c = h c"
  shows "chain h' p (as @ [b, a])"
  using assms by (induction as arbitrary: p) (auto split: option.splits)

lemma enqueue_rel:
  assumes rel: "queue_rel q as" and fresh: "queue_room q a"
  shows "queue_rel (enqueue a x q) (as @ [a])"
    and "\<And>b. b \<in> set as \<Longrightarrow> job_at (fst (enqueue a x q)) b = job_at (fst q) b"
    and "job_at (fst (enqueue a x q)) a = x"
proof -
  obtain h hp tp n where q: "q = (h, hp, tp, n)" by (cases q)
  have ch: "chain h hp as" and d: "distinct as" and tp: "tp = (if as = [] then None else Some (last as))"
    and n: "n = int (length as)" and a: "h a = None"
    using rel fresh by (auto simp: q queue_rel_def queue_room_def)
  have out: "a \<notin> set as" using chain_live [OF ch, of a] a by blast
  show "queue_rel (enqueue a x q) (as @ [a])"
  proof (cases as rule: rev_cases)
    case Nil
    then show ?thesis using tp n by (simp add: q enqueue_def queue_rel_def)
  next
    case (snoc bs b)
    let ?h1 = "h(a \<mapsto> \<lparr>job_conn = x, job_next = None\<rparr>)"
    let ?h2 = "?h1(b := map_option (\<lambda>j. j\<lparr>job_next := Some a\<rparr>) (?h1 b))"
    have "chain ?h2 hp (bs @ [b, a])"
      using ch d out snoc by (intro chain_snoc [where h = h]) auto
    then show ?thesis using snoc tp n d out by (simp add: q enqueue_def queue_rel_def Let_def)
  qed
  have "tp = Some b \<Longrightarrow> b \<noteq> a" for b using tp out by (auto split: if_splits)
  with out show "\<And>b. b \<in> set as \<Longrightarrow> job_at (fst (enqueue a x q)) b = job_at (fst q) b"
      "job_at (fst (enqueue a x q)) a = x"
    by (auto simp: q enqueue_def job_at_def Let_def split: option.splits)
qed

lemma dequeue_rel:
  assumes "queue_rel q as"
  shows "dequeue q = None \<longleftrightarrow> as = []"
    and "dequeue q = Some (a, q') \<Longrightarrow> fst q' = fst q \<and> (\<exists>bs. as = a # bs \<and> queue_rel q' bs)"
proof -
  obtain h hp tp n where q: "q = (h, hp, tp, n)" by (cases q)
  show "dequeue q = None \<longleftrightarrow> as = []"
    using assms by (cases as) (auto simp: q queue_rel_def dequeue_def split: option.splits)
  show "fst q' = fst q \<and> (\<exists>bs. as = a # bs \<and> queue_rel q' bs)" if deq: "dequeue q = Some (a, q')"
  proof (cases as)
    case Nil
    then show ?thesis using assms deq by (auto simp: q queue_rel_def dequeue_def)
  next
    case (Cons b bs)
    then obtain j where j: "h b = Some j" and hp: "hp = Some b" and ch: "chain h (job_next j) bs"
      using assms by (auto simp: q queue_rel_def split: option.splits)
    have "job_next j = None \<longleftrightarrow> bs = []" using ch by (cases bs) auto
    then have "q' = (h, job_next j, (if bs = [] then None else tp), n - 1)" "b = a"
      using deq j hp by (auto simp: q dequeue_def)
    then show ?thesis using assms ch Cons by (auto simp: q queue_rel_def)
  qed
qed

interpretation job_queue: fifo queue_ok queue_items queue_room enqueue dequeue "\<lambda>q. job_at (fst q)"
proof
  fix q :: queue and a :: addr and x :: int
  assume q: "queue_ok q" and a: "queue_room q a"
  note rel = enqueue_rel [OF queue_ok_rel [OF q] a, where x = x]
  show "queue_ok (enqueue a x q)" using rel(1) by (auto simp: queue_ok_def)
  show "queue_items (enqueue a x q) = queue_items q @ [x]"
    using rel by (simp add: queue_items_def queue_rel_addrs [OF rel(1)])
next
  fix q assume q: "queue_ok q"
  show "dequeue q = None \<longleftrightarrow> queue_items q = []"
    using dequeue_rel(1) [OF queue_ok_rel [OF q]] by (simp add: queue_items_def)
next
  fix q a q' assume q: "queue_ok q" and deq: "dequeue q = Some (a, q')"
  from dequeue_rel(2) [OF queue_ok_rel [OF q] deq] obtain bs where
    h: "fst q' = fst q" and as: "queue_addrs q = a # bs" and rel: "queue_rel q' bs" by blast
  show "queue_ok q'" using rel by (auto simp: queue_ok_def)
  show "queue_items q = job_at (fst q) a # queue_items q'"
    using as h by (simp add: queue_items_def queue_rel_addrs [OF rel])
qed

section \<open>Workers\<close>

text \<open>
  Where a worker stands between two of its critical sections: before taking the lock at the top of
  the loop, in \<open>pthread_cond_wait\<close>, woken from it, in \<open>handle_client\<close> with a job, and before the two
  tests that follow.
\<close>

datatype worker = Top | Waiting | Woken | Handling addr | Checking | Rechecking | Exited

text \<open>
  The pool with its jobs and threads.  \<open>accepted\<close> and \<open>taken\<close> record the connections submitted and
  the connections handed to \<open>handle_client\<close>, in order; the program has no such lists.
\<close>

record pool_run =
  pool :: threadpool
  job_heap :: "addr \<rightharpoonup> job"
  workers :: "worker list"
  accepted :: "int list"
  taken :: "int list"

definition queue_of :: "pool_run \<Rightarrow> queue" where
  "queue_of st = (job_heap st, pool_head (pool st), pool_tail (pool st), queue_size (pool st))"

definition put_queue :: "queue \<Rightarrow> pool_run \<Rightarrow> pool_run" where
  "put_queue = (\<lambda>(h, hp, tp, n) st. st\<lparr>job_heap := h,
     pool := (pool st)\<lparr>pool_head := hp, pool_tail := tp, queue_size := n\<rparr>\<rparr>)"

definition set_worker :: "nat \<Rightarrow> worker \<Rightarrow> pool_run \<Rightarrow> pool_run" where
  "set_worker t w st = st\<lparr>workers := (workers st)[t := w]\<rparr>"

text \<open>The condition of the wait loop.\<close>

definition must_wait :: "threadpool \<Rightarrow> bool" where
  "must_wait p \<longleftrightarrow> queue_size p = 0 \<and> \<not> pool_shutdown p \<and> marked_exits p = 0"

definition surplus :: "threadpool \<Rightarrow> bool" where
  "surplus p \<longleftrightarrow> marked_exits p > 0 \<and> thread_count p > min_threads p"

definition leave_pool :: "threadpool \<Rightarrow> threadpool" where
  "leave_pool p = p\<lparr>marked_exits := marked_exits p - 1, thread_count := thread_count p - 1\<rparr>"

text \<open>From the end of the wait loop to the unlock; \<open>None\<close> is the \<open>NULL\<close> dereference.\<close>

definition proceed :: "nat \<Rightarrow> pool_run \<Rightarrow> pool_run option" where
  "proceed t st =
     (let p = pool st in
      if pool_shutdown p \<and> queue_size p = 0 then Some (set_worker t Exited st)
      else if surplus p \<and> queue_size p = 0 then Some (set_worker t Exited (st\<lparr>pool := leave_pool p\<rparr>))
      else case dequeue (queue_of st) of
        None \<Rightarrow> None
      | Some (a, q) \<Rightarrow> Some (set_worker t (Handling a) (put_queue q (st\<lparr>taken := taken st @ [job_at (job_heap st) a]\<rparr>))))"

definition add_idle :: "int \<Rightarrow> pool_run \<Rightarrow> pool_run" where
  "add_idle k st = st\<lparr>pool := (pool st)\<lparr>idle_count := idle_count (pool st) + k\<rparr>\<rparr>"

text \<open>
  One section of worker \<open>t\<close>.  At the top \<open>idle_count\<close> is incremented and, when the worker does not wait,
  decremented again in the same section.
\<close>

definition worker_section :: "nat \<Rightarrow> pool_run \<Rightarrow> pool_run option" where
  "worker_section t st =
     (case workers st ! t of
        Top \<Rightarrow> if must_wait (pool st) then Some (set_worker t Waiting (add_idle 1 st)) else proceed t st
      | Woken \<Rightarrow> if must_wait (pool st) then Some (set_worker t Waiting st) else proceed t (add_idle (-1) st)
      | Handling a \<Rightarrow> Some (set_worker t Checking (st\<lparr>job_heap := (job_heap st)(a := None)\<rparr>))
      | Checking \<Rightarrow> Some (set_worker t (if surplus (pool st) then Rechecking else Top) st)
      | Rechecking \<Rightarrow>
          Some (if surplus (pool st) then set_worker t Exited (st\<lparr>pool := leave_pool (pool st)\<rparr>) else set_worker t Top st)
      | Waiting \<Rightarrow> Some st
      | Exited \<Rightarrow> Some st)"

definition runnable :: "worker \<Rightarrow> bool" where
  "runnable w \<longleftrightarrow> w \<noteq> Waiting \<and> w \<noteq> Exited"

section \<open>The operations of the main thread\<close>

text \<open>
  \<open>created\<close> is the number of workers \<open>pthread_create\<close> starts before it fails; with fewer than
  \<open>max_threads\<close> the pool is destroyed again and \<open>NULL\<close> returned.
\<close>

definition threadpool_create :: "bool \<Rightarrow> bool \<Rightarrow> nat \<Rightarrow> nat \<Rightarrow> pool_run option" where
  "threadpool_create alloc_pool alloc_threads created n =
     (if \<not> alloc_pool \<or> \<not> alloc_threads \<or> created < n then None
      else Some \<lparr>pool = \<lparr>threads = map Some [0..<n], thread_count = int n, max_threads = int n, min_threads = 2,
                  pool_head = None, pool_tail = None, queue_size = 0, idle_count = 0, marked_exits = 0,
                  shrink_idle_sec = 30, pool_shutdown = False\<rparr>,
             job_heap = Map.empty, workers = replicate n Top, accepted = [], taken = []\<rparr>)"

text \<open>\<open>pthread_cond_signal\<close> wakes the waiting thread \<open>t\<close>, \<open>pthread_cond_broadcast\<close> all of them.\<close>

definition cond_signal :: "nat \<Rightarrow> pool_run \<Rightarrow> pool_run" where
  "cond_signal t st = (if t < length (workers st) \<and> workers st ! t = Waiting then set_worker t Woken st else st)"

definition cond_broadcast :: "pool_run \<Rightarrow> pool_run" where
  "cond_broadcast st = st\<lparr>workers := map (\<lambda>w. if w = Waiting then Woken else w) (workers st)\<rparr>"

text \<open>POSIX: a signal unblocks a waiting thread if there is one.\<close>

definition signal_ok :: "nat \<Rightarrow> pool_run \<Rightarrow> bool" where
  "signal_ok t st \<longleftrightarrow> (Waiting \<in> set (workers st) \<longrightarrow> t < length (workers st) \<and> workers st ! t = Waiting)"

text \<open>The scale-up loop; \<open>cr\<close> tells which calls of \<open>pthread_create\<close> succeed.\<close>

fun spawn_loop :: "(nat \<Rightarrow> bool) \<Rightarrow> nat \<Rightarrow> pool_run \<Rightarrow> pool_run" where
  "spawn_loop cr 0 st = st"
| "spawn_loop cr (Suc k) st =
     (let p = pool st in
      if thread_count p \<ge> max_threads p then st
      else if cr k
      then spawn_loop cr k (st\<lparr>pool := p\<lparr>threads := (threads p)[nat (thread_count p) := Some (length (workers st))],
             thread_count := thread_count p + 1\<rparr>, workers := workers st @ [Top]\<rparr>)
      else spawn_loop cr k st)"

definition scale_up :: "(nat \<Rightarrow> bool) \<Rightarrow> pool_run \<Rightarrow> pool_run" where
  "scale_up cr st =
     (let p = pool st in
      if queue_size p > thread_count p \<and> thread_count p < max_threads p
      then let need = queue_size p - thread_count p; can = max_threads p - thread_count p in
        spawn_loop cr (nat (if need < can then need else can)) st
      else st)"

definition threadpool_submit :: "addr option \<Rightarrow> nat \<Rightarrow> (nat \<Rightarrow> bool) \<Rightarrow> int \<Rightarrow> pool_run \<Rightarrow> int \<times> pool_run" where
  "threadpool_submit block t cr conn st =
     (if pool_shutdown (pool st) then (-1, st)
      else case block of
        None \<Rightarrow> (-1, st)
      | Some a \<Rightarrow>
          (0, scale_up cr (cond_signal t (put_queue (enqueue a conn (queue_of st)) (st\<lparr>accepted := accepted st @ [conn]\<rparr>)))))"

definition threadpool_maybe_shrink :: "pool_run \<Rightarrow> pool_run" where
  "threadpool_maybe_shrink st =
     (let p = pool st in
      if thread_count p \<le> min_threads p \<or> pool_shutdown p then st
      else if queue_size p > 0 then st
      else let excess = thread_count p - min_threads p;
               to_mark = (if excess < idle_count p then excess else idle_count p) in
        if to_mark > 0 then cond_broadcast (st\<lparr>pool := p\<lparr>marked_exits := marked_exits p + to_mark\<rparr>\<rparr>) else st)"

text \<open>
  \<open>threadpool_destroy\<close>: the announcement, the threads it joins (it waits until \<open>pool_joined\<close> holds for the number of threads
  it has read after the announcement) and the jobs it frees.
\<close>

definition destroy_announce :: "pool_run \<Rightarrow> pool_run" where
  "destroy_announce st = cond_broadcast (st\<lparr>pool := (pool st)\<lparr>pool_shutdown := True\<rparr>\<rparr>)"

definition pool_joined :: "int \<Rightarrow> pool_run \<Rightarrow> bool" where
  "pool_joined n st \<longleftrightarrow>
     list_all (\<lambda>x. case x of None \<Rightarrow> True | Some t \<Rightarrow> workers st ! t = Exited) (take (nat n) (threads (pool st)))"

fun free_jobs :: "nat \<Rightarrow> (addr \<rightharpoonup> job) \<Rightarrow> addr option \<Rightarrow> addr \<rightharpoonup> job" where
  "free_jobs 0 h p = h"
| "free_jobs (Suc n) h p =
     (case p of None \<Rightarrow> h | Some a \<Rightarrow> (case h a of None \<Rightarrow> h | Some j \<Rightarrow> free_jobs n (h(a := None)) (job_next j)))"

section \<open>The pool as a transition system\<close>

definition section_step :: "pool_run \<Rightarrow> pool_run \<Rightarrow> bool" where
  "section_step st st' \<longleftrightarrow> (\<exists>t < length (workers st). runnable (workers st ! t) \<and> worker_section t st = Some st')"

inductive pool_step :: "pool_run \<Rightarrow> pool_run \<Rightarrow> bool" where
  section_of_worker: "section_step st st' \<Longrightarrow> pool_step st st'"
| spurious: "t < length (workers st) \<Longrightarrow> workers st ! t = Waiting \<Longrightarrow> pool_step st (set_worker t Woken st)"
| submitted: "(\<And>a. block = Some a \<Longrightarrow> job_heap st a = None) \<Longrightarrow> signal_ok t st \<Longrightarrow>
    pool_step st (snd (threadpool_submit block t cr conn st))"
| shrunk: "pool_step st (threadpool_maybe_shrink st)"
| stopped: "pool_step st (destroy_announce st)"

text \<open>\<open>run_server\<close> creates the pool and then sets its minimum and its idle time from the configuration.\<close>

inductive pool_reachable :: "pool_run \<Rightarrow> bool" where
  created: "threadpool_create True True n n = Some st \<Longrightarrow> 0 < n \<Longrightarrow> 0 < m \<Longrightarrow>
    pool_reachable (st\<lparr>pool := (pool st)\<lparr>min_threads := m, shrink_idle_sec := k\<rparr>\<rparr>)"
| stepped: "pool_reachable st \<Longrightarrow> pool_step st st' \<Longrightarrow> pool_reachable st'"

section \<open>The invariant\<close>

definition cnt :: "(worker \<Rightarrow> bool) \<Rightarrow> worker list \<Rightarrow> int" where
  "cnt P ws = int (length (filter P ws))"

abbreviation waiting :: "worker \<Rightarrow> bool" where "waiting w \<equiv> w = Waiting"
abbreviation awake :: "worker \<Rightarrow> bool" where "awake w \<equiv> w = Top \<or> w = Woken"
abbreviation idle :: "worker \<Rightarrow> bool" where "idle w \<equiv> w = Waiting \<or> w = Woken"
abbreviation live :: "worker \<Rightarrow> bool" where "live w \<equiv> w \<noteq> Exited"

lemma cnt_simps [simp]: "cnt P [] = 0" "cnt P (w # ws) = of_bool (P w) + cnt P ws"
  "cnt P (ws @ vs) = cnt P ws + cnt P vs" "cnt P (map f ws) = cnt (\<lambda>w. P (f w)) ws"
  by (simp_all add: cnt_def filter_map comp_def)

lemma cnt_update [simp]:
  "t < length ws \<Longrightarrow> cnt P (ws[t := w]) = cnt P ws - of_bool (P (ws ! t)) + of_bool (P w)"
  by (induction ws arbitrary: t) (auto split: nat.split)

lemma cnt_nonneg [simp]: "0 \<le> cnt P ws" by (simp add: cnt_def)

lemma cnt_pos: "0 < cnt P ws \<longleftrightarrow> (\<exists>w \<in> set ws. P w)"
  by (simp add: cnt_def filter_empty_conv)

lemma cnt_nth: "t < length ws \<Longrightarrow> P (ws ! t) \<Longrightarrow> 0 < cnt P ws"
  using nth_mem cnt_pos by blast

lemma cnt_replicate [simp]: "cnt P (replicate n w) = of_bool (P w) * int n"
  by (simp add: cnt_def)

lemma cnt_mono: "(\<And>w. P w \<Longrightarrow> Q w) \<Longrightarrow> cnt P ws \<le> cnt Q ws"
  by (induction ws) auto

text \<open>
  The counters of the pool agree with the threads, the size stays between its bounds, and no wake-up
  is lost: while a thread waits, every queued job has an awake thread that will look at the queue.
\<close>

definition crew_inv :: "threadpool \<Rightarrow> worker list \<Rightarrow> bool" where
  "crew_inv p ws \<longleftrightarrow>
     idle_count p = cnt idle ws \<and> 0 \<le> marked_exits p \<and> 0 \<le> queue_size p \<and>
     (pool_shutdown p \<and> queue_size p = 0 \<or> thread_count p = cnt live ws) \<and>
     0 < min_threads p \<and> 0 < max_threads p \<and>
     min (min_threads p) (max_threads p) \<le> thread_count p \<and> thread_count p \<le> max_threads p \<and>
     length (threads p) = nat (max_threads p) \<and>
     (0 < cnt waiting ws \<longrightarrow> \<not> pool_shutdown p \<and> queue_size p \<le> cnt awake ws)"

text \<open>The queue is a list; the jobs being handled are live, not in it and each held by one worker.\<close>

definition holds :: "worker list \<Rightarrow> nat \<Rightarrow> addr \<Rightarrow> bool" where
  "holds ws t a \<longleftrightarrow> t < length ws \<and> ws ! t = Handling a"

definition holders_ok :: "(addr \<rightharpoonup> job) \<Rightarrow> addr list \<Rightarrow> worker list \<Rightarrow> bool" where
  "holders_ok h as ws \<longleftrightarrow> (\<forall>t a. holds ws t a \<longrightarrow> a \<in> dom h \<and> a \<notin> set as \<and> (\<forall>u. holds ws u a \<longrightarrow> u = t))"

definition jobs_inv :: "pool_run \<Rightarrow> bool" where
  "jobs_inv st \<longleftrightarrow> queue_ok (queue_of st) \<and> accepted st = taken st @ queue_items (queue_of st) \<and>
     holders_ok (job_heap st) (queue_addrs (queue_of st)) (workers st)"

definition pool_inv :: "pool_run \<Rightarrow> bool" where
  "pool_inv st \<longleftrightarrow> crew_inv (pool st) (workers st) \<and> jobs_inv st"

subsection \<open>Jobs\<close>

lemma queue_of_simps [simp]:
  "queue_of (set_worker t w st) = queue_of st" "queue_of (put_queue q st) = q" "queue_of (add_idle k st) = queue_of st"
  "queue_of (st\<lparr>taken := l\<rparr>) = queue_of st" "queue_of (st\<lparr>accepted := l\<rparr>) = queue_of st"
  "queue_of (st\<lparr>workers := ws\<rparr>) = queue_of st" "queue_of (st\<lparr>pool := leave_pool (pool st)\<rparr>) = queue_of st"
  by (simp_all add: queue_of_def set_worker_def put_queue_def add_idle_def leave_pool_def split: prod.split)

lemma run_simps [simp]:
  "workers (set_worker t w st) = (workers st)[t := w]" "pool (set_worker t w st) = pool st"
  "job_heap (set_worker t w st) = job_heap st" "taken (set_worker t w st) = taken st" "accepted (set_worker t w st) = accepted st"
  "workers (put_queue q st) = workers st" "taken (put_queue q st) = taken st" "accepted (put_queue q st) = accepted st"
  "job_heap (put_queue q st) = fst q"
  "workers (add_idle k st) = workers st" "taken (add_idle k st) = taken st" "accepted (add_idle k st) = accepted st"
  "job_heap (add_idle k st) = job_heap st"
  by (simp_all add: set_worker_def put_queue_def add_idle_def split: prod.split)

lemma holds_update [simp]: "t < length ws \<Longrightarrow> holds (ws[t := w]) u a \<longleftrightarrow> (if u = t then w = Handling a else holds ws u a)"
  by (auto simp: holds_def)

lemma holds_append: "Handling a \<notin> set vs \<Longrightarrow> holds (ws @ vs) t a \<longleftrightarrow> holds ws t a"
proof -
  assume a: "Handling a \<notin> set vs"
  have "vs ! (t - length ws) \<noteq> Handling a" if "\<not> t < length ws" "t < length ws + length vs"
    using that a nth_mem [of "t - length ws" vs] by (metis add_diff_inverse_nat nat_add_left_cancel_less)
  then show ?thesis by (auto simp: holds_def nth_append)
qed

text \<open>Only the heap, the queue, the two records and who handles what matter.\<close>

lemma jobs_inv_other:
  assumes "jobs_inv st" and "queue_of st' = queue_of st" and "accepted st' = accepted st" and "taken st' = taken st"
    and "\<And>t a. holds (workers st') t a \<Longrightarrow> holds (workers st) t a"
  shows "jobs_inv st'"
proof -
  have "job_heap st' = job_heap st" using assms(2) by (simp add: queue_of_def)
  moreover have "holders_ok (job_heap st) (queue_addrs (queue_of st)) (workers st')"
    using assms(1,5) unfolding jobs_inv_def holders_ok_def by blast
  ultimately show ?thesis using assms by (simp add: jobs_inv_def)
qed

lemma jobs_inv_worker:
  assumes "jobs_inv st" and "t < length (workers st)" and "\<And>a. w \<noteq> Handling a"
  shows "jobs_inv (set_worker t w st)"
proof (rule jobs_inv_other [OF assms(1)])
  fix u a show "holds (workers (set_worker t w st)) u a \<Longrightarrow> holds (workers st) u a"
    using assms(2) assms(3) [of a] by (simp split: if_splits)
qed simp_all

lemma queue_ok_addrs:
  assumes "queue_ok q"
  shows "distinct (queue_addrs q)" and "set (queue_addrs q) \<subseteq> dom (fst q)"
proof -
  obtain h hp tp n where q: "q = (h, hp, tp, n)" by (cases q)
  have rel: "queue_rel q (queue_addrs q)" by (rule queue_ok_rel [OF assms])
  then show "distinct (queue_addrs q)" by (simp add: q queue_rel_def)
  show "set (queue_addrs q) \<subseteq> dom (fst q)" using rel chain_live [of h hp "queue_addrs q"] by (auto simp: q queue_rel_def)
qed

lemma fst_queue_of [simp]: "fst (queue_of st) = job_heap st" by (simp add: queue_of_def)

lemma jobs_inv_take:
  assumes inv: "jobs_inv st" and t: "t < length (workers st)" and deq: "dequeue (queue_of st) = Some (a, q)"
  shows "jobs_inv (set_worker t (Handling a) (put_queue q (st\<lparr>taken := taken st @ [job_at (job_heap st) a]\<rparr>)))"
proof -
  have q: "queue_ok (queue_of st)" and hold: "holders_ok (job_heap st) (queue_addrs (queue_of st)) (workers st)"
    using inv by (simp_all add: jobs_inv_def)
  from dequeue_rel(2) [OF queue_ok_rel [OF q] deq] obtain bs where
    hq: "fst q = job_heap st" and as: "queue_addrs (queue_of st) = a # bs" and rel: "queue_rel q bs" by auto
  have "holders_ok (job_heap st) bs ((workers st)[t := Handling a])"
    using hold queue_ok_addrs [OF q] t unfolding as holders_ok_def by auto
  then show ?thesis
    using inv job_queue.deq_ok [OF q deq] job_queue.items_deq [OF q deq] hq
    by (simp add: jobs_inv_def queue_rel_addrs [OF rel])
qed

text \<open>Freeing a job that is not in the queue.\<close>

lemma queue_rel_free:
  assumes "queue_rel q as" and "a \<notin> set as"
  shows "queue_rel ((fst q)(a := None), snd q) as"
proof -
  obtain h hp tp n where q: "q = (h, hp, tp, n)" by (cases q)
  have "chain h hp as" using assms(1) by (simp add: q queue_rel_def)
  then have "chain (h(a := None)) hp as" by (rule chain_cong [rotated]) (use assms(2) in auto)
  then show ?thesis using assms(1) by (simp add: q queue_rel_def)
qed

lemma jobs_inv_free:
  assumes inv: "jobs_inv st" and t: "t < length (workers st)" "workers st ! t = Handling a"
  shows "jobs_inv (set_worker t Checking (st\<lparr>job_heap := (job_heap st)(a := None)\<rparr>))"
proof -
  let ?q = "queue_of st" and ?h = "(job_heap st)(a := None)"
  let ?q' = "(?h, pool_head (pool st), pool_tail (pool st), queue_size (pool st))"
  have ok: "queue_rel ?q (queue_addrs ?q)" and hold: "holders_ok (job_heap st) (queue_addrs ?q) (workers st)"
    using inv by (simp_all add: jobs_inv_def queue_ok_rel)
  have at: "holds (workers st) t a" using t by (simp add: holds_def)
  then have out: "a \<notin> set (queue_addrs ?q)" using hold by (auto simp: holders_ok_def)
  have rel: "queue_rel ?q' (queue_addrs ?q)" using queue_rel_free [OF ok out] by (simp add: queue_of_def)
  have items: "queue_items ?q' = queue_items ?q"
    unfolding queue_items_def queue_rel_addrs [OF rel] using out by (intro map_cong) (auto simp: job_at_def)
  have "holders_ok ?h (queue_addrs ?q) ((workers st)[t := Checking])"
    using hold at t(1) unfolding holders_ok_def by auto
  moreover have "queue_of (set_worker t Checking (st\<lparr>job_heap := ?h\<rparr>)) = ?q'" by (simp add: queue_of_def)
  moreover have "queue_ok ?q'" using rel by (auto simp: queue_ok_def)
  ultimately show ?thesis using inv items queue_rel_addrs [OF rel] by (simp add: jobs_inv_def)
qed

lemma jobs_inv_submit:
  assumes inv: "jobs_inv st" and fresh: "job_heap st a = None"
  shows "jobs_inv (put_queue (enqueue a x (queue_of st)) (st\<lparr>accepted := accepted st @ [x]\<rparr>))"
proof -
  let ?q = "queue_of st"
  have q: "queue_ok ?q" and hold: "holders_ok (job_heap st) (queue_addrs ?q) (workers st)"
    using inv by (simp_all add: jobs_inv_def)
  have room: "queue_room ?q a" using fresh by (simp add: queue_room_def)
  note rel = enqueue_rel(1) [OF queue_ok_rel [OF q] room, of x]
  have "dom (job_heap st) \<subseteq> dom (fst (enqueue a x ?q))"
    by (auto simp: enqueue_def queue_of_def Let_def split: option.splits)
  then have "holders_ok (fst (enqueue a x ?q)) (queue_addrs ?q @ [a]) (workers st)"
    using hold fresh unfolding holders_ok_def by fastforce
  then show ?thesis
    using inv job_queue.enq_ok [OF q room, of x] job_queue.items_enq [OF q room, of x]
    by (simp add: jobs_inv_def queue_rel_addrs [OF rel])
qed

lemma jobs_inv_broadcast: "jobs_inv st \<Longrightarrow> jobs_inv (cond_broadcast st)"
  by (rule jobs_inv_other) (auto simp: cond_broadcast_def holds_def split: if_splits)

lemma spawn_loop_same [simp]:
  "accepted (spawn_loop cr k st) = accepted st" "taken (spawn_loop cr k st) = taken st" "queue_of (spawn_loop cr k st) = queue_of st"
  by (induction k arbitrary: st) (simp_all add: Let_def queue_of_def)

lemma spawn_loop_workers: "\<exists>n. workers (spawn_loop cr k st) = workers st @ replicate n Top"
proof (induction k arbitrary: st)
  case (Suc k)
  have "\<exists>m. ws @ [Top] @ replicate n Top = ws @ replicate m Top" for n and ws :: "worker list"
    by (rule exI [of _ "Suc n"]) simp
  then show ?case
    using Suc [of st] Suc [of "st\<lparr>pool := (pool st)\<lparr>threads := (threads (pool st))[nat (thread_count (pool st)) := Some (length (workers st))],
             thread_count := thread_count (pool st) + 1\<rparr>, workers := workers st @ [Top]\<rparr>"]
    by (auto simp: Let_def intro: exI [of _ 0])
qed (simp add: exI [of _ 0])

lemma scale_up_spawn: "\<exists>k. scale_up cr st = spawn_loop cr k st"
  unfolding scale_up_def Let_def by (metis spawn_loop.simps(1))

lemma job_at_enqueue: "b \<noteq> a \<Longrightarrow> job_at (fst (enqueue a x q)) b = job_at (fst q) b"
  by (auto simp: enqueue_def job_at_def Let_def split: prod.split option.split)

lemma jobs_inv_spawn: "jobs_inv st \<Longrightarrow> jobs_inv (spawn_loop cr k st)"
proof (rule jobs_inv_other)
  fix t a assume "holds (workers (spawn_loop cr k st)) t a"
  then show "holds (workers st) t a" using spawn_loop_workers [of cr k st] holds_append [of a] by auto
qed simp_all

subsection \<open>The crew\<close>

lemma crew_invD:
  assumes "crew_inv p ws"
  shows "idle_count p = cnt idle ws" "0 \<le> marked_exits p" "0 \<le> queue_size p"
    "pool_shutdown p \<and> queue_size p = 0 \<or> thread_count p = cnt live ws" "0 < min_threads p" "0 < max_threads p"
    "min (min_threads p) (max_threads p) \<le> thread_count p" "thread_count p \<le> max_threads p"
    "length (threads p) = nat (max_threads p)" "0 < cnt waiting ws \<Longrightarrow> \<not> pool_shutdown p"
    "0 < cnt waiting ws \<Longrightarrow> queue_size p \<le> cnt awake ws"
  using assms by (simp_all add: crew_inv_def)

text \<open>A worker that goes from one place to another, neither waiting before nor after.\<close>

lemma crew_inv_move:
  assumes "crew_inv p ws" and "t < length ws" and "ws ! t = v" and "v \<noteq> Exited" "w \<noteq> Exited"
    and "idle v = idle w" "w \<noteq> Waiting" "awake v \<longrightarrow> awake w"
  shows "crew_inv p (ws[t := w])"
  using assms by (auto simp: crew_inv_def)

lemma crew_inv_leave:
  assumes "crew_inv p ws" and "surplus p" and "t < length ws" and "ws ! t \<noteq> Exited" and "ws ! t \<noteq> Waiting"
    and "awake (ws ! t) \<longrightarrow> queue_size p = 0"
  shows "crew_inv (leave_pool p\<lparr>idle_count := idle_count p - of_bool (idle (ws ! t))\<rparr>) (ws[t := Exited])"
  using assms cnt_nth [of t ws awake] by (auto simp: crew_inv_def leave_pool_def surplus_def)

lemma crew_inv_wait:
  assumes "crew_inv p ws" and "must_wait p" and "t < length ws" and "awake (ws ! t)"
  shows "crew_inv (p\<lparr>idle_count := idle_count p + of_bool (ws ! t = Top)\<rparr>) (ws[t := Waiting])"
  using assms cnt_nth [of t ws awake] by (auto simp: crew_inv_def must_wait_def)

lemma crew_inv_stop:
  assumes "crew_inv p ws" and "pool_shutdown p" "queue_size p = 0" and "t < length ws" and "awake (ws ! t)"
  shows "crew_inv (p\<lparr>idle_count := idle_count p - of_bool (ws ! t = Woken)\<rparr>) (ws[t := Exited])"
  using assms by (auto simp: crew_inv_def)

lemma crew_inv_take:
  assumes "crew_inv p ws" and "0 < queue_size p" and "t < length ws" and "awake (ws ! t)"
  shows "crew_inv (p\<lparr>idle_count := idle_count p - of_bool (ws ! t = Woken), pool_head := hp, pool_tail := tp,
           queue_size := queue_size p - 1\<rparr>) (ws[t := Handling a])"
  using assms cnt_nth [of t ws awake] by (auto simp: crew_inv_def)

lemma crew_inv_broadcast:
  assumes "crew_inv p ws"
  shows "crew_inv (p\<lparr>pool_shutdown := b \<or> pool_shutdown p, marked_exits := marked_exits p + of_nat k\<rparr>)
           (map (\<lambda>w. if w = Waiting then Woken else w) ws)"
proof -
  have "cnt (\<lambda>w. (if w = Waiting then Woken else w) = Waiting) ws = 0"
    by (simp add: cnt_def filter_empty_conv)
  moreover have "cnt (\<lambda>w. idle (if w = Waiting then Woken else w)) ws = cnt idle ws"
    by (rule arg_cong [where f = "\<lambda>P. cnt P ws"]) auto
  moreover have "cnt (\<lambda>w. live (if w = Waiting then Woken else w)) ws = cnt live ws"
    by (rule arg_cong [where f = "\<lambda>P. cnt P ws"]) auto
  ultimately show ?thesis using assms by (auto simp: crew_inv_def)
qed

lemma crew_inv_submit:
  assumes "crew_inv p ws" and "\<not> pool_shutdown p" and "Waiting \<in> set ws \<Longrightarrow> t < length ws \<and> ws ! t = Waiting"
  shows "crew_inv (p\<lparr>pool_head := hp, pool_tail := tp, queue_size := queue_size p + 1\<rparr>)
           (if t < length ws \<and> ws ! t = Waiting then ws[t := Woken] else ws)"
  using assms cnt_pos [of waiting ws] by (auto simp: crew_inv_def)

lemma crew_inv_spawn:
  assumes "crew_inv (pool st) (workers st)" and "\<not> pool_shutdown (pool st)"
  shows "crew_inv (pool (spawn_loop cr k st)) (workers (spawn_loop cr k st))"
  using assms
proof (induction k arbitrary: st)
  case (Suc k)
  let ?p = "pool st"
  let ?st = "st\<lparr>pool := ?p\<lparr>threads := (threads ?p)[nat (thread_count ?p) := Some (length (workers st))],
             thread_count := thread_count ?p + 1\<rparr>, workers := workers st @ [Top]\<rparr>"
  have "crew_inv (pool ?st) (workers ?st)" if "thread_count ?p < max_threads ?p"
    using Suc.prems that by (auto simp: crew_inv_def)
  with Suc show ?case by (simp add: Let_def)
qed simp

lemma crew_inv_spurious:
  assumes "crew_inv p ws" and "t < length ws" and "ws ! t = Waiting"
  shows "crew_inv p (ws[t := Woken])"
  using assms cnt_nth [of t ws waiting] by (auto simp: crew_inv_def)

subsection \<open>Preservation\<close>

lemma dequeue_size:
  assumes "dequeue (queue_of st) = Some (a, q)"
  shows "\<exists>hp tp. q = (job_heap st, hp, tp, queue_size (pool st) - 1)"
  using assms by (auto simp: dequeue_def queue_of_def split: option.splits)

lemma queue_size_items: "queue_ok (queue_of st) \<Longrightarrow> queue_size (pool st) = int (length (queue_items (queue_of st)))"
  using queue_ok_rel [of "queue_of st"] by (simp add: queue_items_def queue_rel_def queue_of_def)

lemma dequeue_defined:
  assumes "jobs_inv st"
  shows "dequeue (queue_of st) = None \<longleftrightarrow> queue_size (pool st) = 0"
proof -
  have "queue_ok (queue_of st)" using assms by (simp add: jobs_inv_def)
  then show ?thesis using job_queue.deq_None [of "queue_of st"] queue_size_items [of st] by simp
qed

lemma proceed_inv:
  assumes inv: "pool_inv st" and t: "t < length (workers st)" "awake (workers st ! t)" and go: "\<not> must_wait (pool st)"
    and run: "proceed t (add_idle (- of_bool (workers st ! t = Woken)) st) = Some st'"
  shows "pool_inv st'"
proof -
  let ?p = "pool st" and ?ws = "workers st" and ?k = "- of_bool (workers st ! t = Woken) :: int"
  let ?st = "add_idle ?k st"
  have crew: "crew_inv ?p ?ws" and jobs: "jobs_inv st" using inv by (simp_all add: pool_inv_def)
  have jobs': "jobs_inv ?st" by (rule jobs_inv_other [OF jobs]) simp_all
  have p: "pool ?st = ?p\<lparr>idle_count := idle_count ?p + ?k\<rparr>" by (simp add: add_idle_def)
  consider (stop) "pool_shutdown ?p" "queue_size ?p = 0" "st' = set_worker t Exited ?st"
    | (leave) "surplus ?p" "queue_size ?p = 0" "st' = set_worker t Exited (?st\<lparr>pool := leave_pool (pool ?st)\<rparr>)"
    | (job) a q where "dequeue (queue_of ?st) = Some (a, q)"
        "st' = set_worker t (Handling a) (put_queue q (?st\<lparr>taken := taken ?st @ [job_at (job_heap ?st) a]\<rparr>))"
    using run by (auto simp: proceed_def p surplus_def Let_def split: if_splits option.splits)
  then show ?thesis
  proof cases
    case stop
    have "jobs_inv st'" using jobs_inv_worker [OF jobs', of t Exited] stop t by simp
    then show ?thesis using crew_inv_stop [OF crew stop(1,2) t] stop by (simp add: pool_inv_def p)
  next
    case leave
    have "jobs_inv (?st\<lparr>pool := leave_pool (pool ?st)\<rparr>)" by (rule jobs_inv_other [OF jobs']) simp_all
    then have "jobs_inv st'" using jobs_inv_worker [of "?st\<lparr>pool := leave_pool (pool ?st)\<rparr>" t Exited] leave t by simp
    moreover have "leave_pool ?p\<lparr>idle_count := idle_count ?p - of_bool (idle (?ws ! t))\<rparr> = leave_pool (pool ?st)"
      using t(2) by (auto simp: leave_pool_def p)
    ultimately show ?thesis using crew_inv_leave [OF crew leave(1) t(1)] leave t by (auto simp: pool_inv_def)
  next
    case (job a q)
    then obtain hp tp where q: "q = (job_heap st, hp, tp, queue_size ?p - 1)" using dequeue_size [of ?st] by (auto simp: p)
    have "queue_size ?p \<noteq> 0" using dequeue_defined [OF jobs'] job by (simp add: p)
    then have "0 < queue_size ?p" using crew_invD(3) [OF crew] by simp
    then have "crew_inv (?p\<lparr>idle_count := idle_count ?p - of_bool (?ws ! t = Woken), pool_head := hp, pool_tail := tp,
           queue_size := queue_size ?p - 1\<rparr>) (?ws[t := Handling a])" by (rule crew_inv_take [OF crew _ t])
    moreover have "jobs_inv st'" using jobs_inv_take [OF jobs' _ job(1), of t] job t by simp
    ultimately show ?thesis using job t(2) by (auto simp: pool_inv_def put_queue_def q p)
  qed
qed

lemma section_inv:
  assumes inv: "pool_inv st" and step: "section_step st st'"
  shows "pool_inv st'"
proof -
  obtain t where t: "t < length (workers st)" and r: "runnable (workers st ! t)" and run: "worker_section t st = Some st'"
    using step by (auto simp: section_step_def)
  have crew: "crew_inv (pool st) (workers st)" and jobs: "jobs_inv st" using inv by (simp_all add: pool_inv_def)
  note worker = jobs_inv_worker [OF jobs t]
  show ?thesis
  proof (cases "awake (workers st ! t)")
    case True
    let ?k = "of_bool (workers st ! t = Top) :: int"
    show ?thesis
    proof (cases "must_wait (pool st)")
      case wait: True
      then have st': "st' = set_worker t Waiting (add_idle ?k st)"
        using run True by (auto simp: worker_section_def add_idle_def)
      have "jobs_inv (add_idle ?k st)" by (rule jobs_inv_other [OF jobs]) simp_all
      then have "jobs_inv st'" using jobs_inv_worker [of "add_idle ?k st" t Waiting] t st' by simp
      then show ?thesis using crew_inv_wait [OF crew wait t True] by (simp add: pool_inv_def st' add_idle_def)
    next
      case False
      have "add_idle 0 st = st" by (simp add: add_idle_def)
      then show ?thesis using proceed_inv [OF inv t True False] run True False by (auto simp: worker_section_def)
    qed
  next
    case False
    consider (handling) a where "workers st ! t = Handling a"
      | (check1) "workers st ! t = Checking" | (check2) "workers st ! t = Rechecking"
      using False r by (cases "workers st ! t") (auto simp: runnable_def)
    then show ?thesis
    proof cases
      case (handling a)
      then show ?thesis using run crew_inv_move [OF crew t handling, of Checking] jobs_inv_free [OF jobs t handling]
        by (auto simp: worker_section_def pool_inv_def)
    next
      case check1
      then show ?thesis using run worker crew_inv_move [OF crew t check1] by (auto simp: worker_section_def pool_inv_def)
    next
      case check2
      have "jobs_inv (set_worker t Exited (st\<lparr>pool := leave_pool (pool st)\<rparr>))"
        using t by (intro jobs_inv_worker jobs_inv_other [OF jobs]) simp_all
      moreover have "leave_pool (pool st)\<lparr>idle_count := idle_count (pool st)\<rparr> = leave_pool (pool st)"
        by (simp add: leave_pool_def)
      ultimately show ?thesis
        using run worker crew_inv_move [OF crew t check2, of Top] crew_inv_leave [OF crew _ t] check2
        by (auto simp: worker_section_def pool_inv_def split: if_splits)
    qed
  qed
qed

lemma submit_inv:
  assumes inv: "pool_inv st" and fresh: "\<And>a. block = Some a \<Longrightarrow> job_heap st a = None" and sig: "signal_ok t st"
  shows "pool_inv (snd (threadpool_submit block t cr conn st))"
proof (cases "pool_shutdown (pool st) \<or> block = None")
  case True
  then show ?thesis using inv by (auto simp: threadpool_submit_def)
next
  case False
  then obtain a where a: "block = Some a" and on: "\<not> pool_shutdown (pool st)" by auto
  let ?q = "enqueue a conn (queue_of st)"
  let ?st = "put_queue ?q (st\<lparr>accepted := accepted st @ [conn]\<rparr>)"
  have crew: "crew_inv (pool st) (workers st)" and jobs: "jobs_inv st" using inv by (simp_all add: pool_inv_def)
  obtain h hp tp where q: "?q = (h, hp, tp, queue_size (pool st) + 1)"
    by (cases "pool_tail (pool st)") (auto simp: enqueue_def queue_of_def Let_def)
  have "jobs_inv (cond_signal t ?st)"
    using jobs_inv_submit [OF jobs fresh [OF a], of conn] by (simp add: cond_signal_def jobs_inv_worker)
  moreover have "crew_inv (pool (cond_signal t ?st)) (workers (cond_signal t ?st))"
    using crew_inv_submit [OF crew on, where t = t and hp = hp and tp = tp] sig
    by (auto simp: signal_ok_def cond_signal_def put_queue_def q split: if_splits)
  moreover have "pool_shutdown (pool (cond_signal t ?st)) = pool_shutdown (pool st)"
    by (simp add: cond_signal_def put_queue_def q)
  ultimately have "pool_inv (scale_up cr (cond_signal t ?st))"
    using on by (simp add: pool_inv_def scale_up_def Let_def jobs_inv_spawn crew_inv_spawn)
  then show ?thesis using a on by (simp add: threadpool_submit_def)
qed

lemma broadcast_inv:
  assumes inv: "pool_inv st"
  shows "pool_inv (cond_broadcast (st\<lparr>pool := (pool st)\<lparr>pool_shutdown := b \<or> pool_shutdown (pool st),
           marked_exits := marked_exits (pool st) + of_nat k\<rparr>\<rparr>))"
proof -
  let ?st = "st\<lparr>pool := (pool st)\<lparr>pool_shutdown := b \<or> pool_shutdown (pool st), marked_exits := marked_exits (pool st) + of_nat k\<rparr>\<rparr>"
  have "queue_of ?st = queue_of st" by (simp add: queue_of_def)
  then have "jobs_inv ?st" using inv by (intro jobs_inv_other [of st ?st]) (simp_all add: pool_inv_def)
  then show ?thesis using inv crew_inv_broadcast [of "pool st" "workers st", where b = b and k = k] jobs_inv_broadcast [of ?st]
    by (simp add: pool_inv_def cond_broadcast_def)
qed

lemma shrink_inv: "pool_inv st \<Longrightarrow> pool_inv (threadpool_maybe_shrink st)"
  using broadcast_inv [of st, where b = False and k = "nat (let excess = thread_count (pool st) - min_threads (pool st) in
     if excess < idle_count (pool st) then excess else idle_count (pool st))"]
  by (auto simp: threadpool_maybe_shrink_def Let_def)

lemma announce_inv: "pool_inv st \<Longrightarrow> pool_inv (destroy_announce st)"
  using broadcast_inv [of st, where b = True and k = 0] by (simp add: destroy_announce_def)

lemma pool_step_inv: "pool_step st st' \<Longrightarrow> pool_inv st \<Longrightarrow> pool_inv st'"
proof (induction rule: pool_step.induct)
  case (spurious t st)
  then show ?case by (simp add: pool_inv_def crew_inv_spurious jobs_inv_worker)
qed (simp_all add: section_inv submit_inv shrink_inv announce_inv)

lemma create_inv:
  assumes "threadpool_create True True n n = Some st" and "0 < n" and "0 < m"
  shows "pool_inv (st\<lparr>pool := (pool st)\<lparr>min_threads := m, shrink_idle_sec := k\<rparr>\<rparr>)"
proof -
  have st: "st = \<lparr>pool = \<lparr>threads = map Some [0..<n], thread_count = int n, max_threads = int n, min_threads = 2,
                  pool_head = None, pool_tail = None, queue_size = 0, idle_count = 0, marked_exits = 0,
                  shrink_idle_sec = 30, pool_shutdown = False\<rparr>,
             job_heap = Map.empty, workers = replicate n Top, accepted = [], taken = []\<rparr>"
    using assms(1) by (simp add: threadpool_create_def)
  have "queue_rel (Map.empty, None, None, 0) []" by (simp add: queue_rel_def)
  then have "queue_ok (Map.empty, None, None, 0)" "queue_items (Map.empty, None, None, 0) = []"
    by (auto simp: queue_ok_def queue_items_def queue_rel_addrs)
  moreover have "holders_ok h as (replicate n Top)" for h as by (auto simp: holders_ok_def holds_def)
  ultimately show ?thesis using assms(2,3) by (simp add: st pool_inv_def crew_inv_def jobs_inv_def queue_of_def)
qed

lemma pool_reachable_inv: "pool_reachable st \<Longrightarrow> pool_inv st"
  by (induction rule: pool_reachable.induct) (auto simp: create_inv dest: pool_step_inv)

section \<open>Progress\<close>

primrec rank :: "worker \<Rightarrow> int" where
  "rank Top = 1" | "rank Waiting = 0" | "rank Woken = 1" | "rank (Handling a) = 4" | "rank Checking = 3"
| "rank Rechecking = 2" | "rank Exited = 0"

definition work :: "pool_run \<Rightarrow> nat" where
  "work st = nat (5 * queue_size (pool st) + sum_list (map rank (workers st)))"

lemma sum_rank_update: "t < length ws \<Longrightarrow> sum_list (map rank (ws[t := w])) = sum_list (map rank ws) - rank (ws ! t) + rank w"
  by (induction ws arbitrary: t) (auto split: nat.split)

lemma sum_rank_nth: "t < length ws \<Longrightarrow> rank (ws ! t) \<le> sum_list (map rank ws)"
proof (induction ws arbitrary: t)
  case (Cons w ws)
  have pos: "0 \<le> rank v" for v by (cases v) auto
  then have "0 \<le> sum_list (map rank ws)" by (intro sum_list_nonneg) auto
  with Cons.prems Cons.IH [of "t - 1"] pos [of w] show ?case by (cases t) auto
qed simp

lemma proceed_cases:
  assumes "jobs_inv st" and "proceed t st = Some st'"
  obtains (out) p where "st' = set_worker t Exited (st\<lparr>pool := p\<rparr>)" "queue_size p = queue_size (pool st)"
      "marked_exits p = marked_exits (pool st) \<or> 0 < marked_exits (pool st)" "queue_of st' = queue_of st"
    | (job) a q x where "st' = set_worker t (Handling a) (put_queue q (st\<lparr>taken := x\<rparr>))" "queue_size (pool st) \<noteq> 0"
      "dequeue (queue_of st) = Some (a, q)"
proof -
  have "set_worker t Exited st = set_worker t Exited (st\<lparr>pool := pool st\<rparr>)" by simp
  moreover have "queue_size (leave_pool (pool st)) = queue_size (pool st)" by (simp add: leave_pool_def)
  ultimately show thesis
    using assms(2) out [of "pool st"] out [of "leave_pool (pool st)"] job dequeue_defined [OF assms(1)]
    by (auto simp: proceed_def surplus_def Let_def split: if_splits option.splits)
qed

text \<open>Every section of a worker shortens what is left to do; the submitted connections stay.\<close>

lemma section_work:
  assumes inv: "pool_inv st" and step: "section_step st st'"
  shows "work st' < work st \<and> accepted st' = accepted st \<and> (marked_exits (pool st) = 0 \<longrightarrow> marked_exits (pool st') = 0)"
proof -
  obtain t where t: "t < length (workers st)" and r: "runnable (workers st ! t)" and run: "worker_section t st = Some st'"
    using step by (auto simp: section_step_def)
  have q0: "0 \<le> queue_size (pool st)" and jobs: "jobs_inv st" using inv by (simp_all add: pool_inv_def crew_inv_def)
  note upd = sum_rank_update [OF t] sum_rank_nth [OF t]
  show ?thesis
  proof (cases "awake (workers st ! t) \<and> \<not> must_wait (pool st)")
    case True
    have "add_idle 0 st = st" by (simp add: add_idle_def)
    then have "proceed t (add_idle 0 st) = Some st' \<or> proceed t (add_idle (-1) st) = Some st'"
      using run True by (auto simp: worker_section_def)
    then obtain k where pr: "proceed t (add_idle k st) = Some st'" by blast
    have jobs': "jobs_inv (add_idle k st)" by (rule jobs_inv_other [OF jobs]) simp_all
    have p: "queue_size (pool (add_idle k st)) = queue_size (pool st)" "marked_exits (pool (add_idle k st)) = marked_exits (pool st)"
      by (simp_all add: add_idle_def)
    have one: "rank (workers st ! t) = 1" using True by auto
    show ?thesis using jobs' pr
    proof (cases rule: proceed_cases)
      case (out p')
      then show ?thesis using upd one q0 p by (auto simp: work_def)
    next
      case (job a q x)
      then obtain hp tp where "q = (job_heap st, hp, tp, queue_size (pool st) - 1)" using dequeue_size [of "add_idle k st"] p by auto
      with job show ?thesis using upd one q0 p by (auto simp: work_def put_queue_def)
    qed
  next
    case False
    then show ?thesis using run r upd q0
      by (cases "workers st ! t") (auto simp: worker_section_def runnable_def work_def add_idle_def leave_pool_def surplus_def split: if_splits)
  qed
qed

text \<open>Where a worker reads through the null pointer.\<close>

lemma section_undefined:
  assumes "pool_inv st" and "t < length (workers st)" and "runnable (workers st ! t)"
  shows "worker_section t st = None \<longleftrightarrow> awake (workers st ! t) \<and> \<not> pool_shutdown (pool st) \<and>
     queue_size (pool st) = 0 \<and> 0 < marked_exits (pool st) \<and> thread_count (pool st) \<le> min_threads (pool st)"
proof -
  have jobs: "jobs_inv (add_idle k st)" for k
    using assms(1) by (intro jobs_inv_other [of st "add_idle k st"]) (simp_all add: pool_inv_def)
  have marked: "0 \<le> marked_exits (pool st)" using assms(1) by (simp add: pool_inv_def crew_inv_def)
  have p: "queue_size (pool (add_idle k st)) = queue_size (pool st)" "marked_exits (pool (add_idle k st)) = marked_exits (pool st)"
    "pool_shutdown (pool (add_idle k st)) = pool_shutdown (pool st)" "thread_count (pool (add_idle k st)) = thread_count (pool st)"
    "min_threads (pool (add_idle k st)) = min_threads (pool st)" for k
    by (simp_all add: add_idle_def)
  have "proceed t (add_idle k st) = None \<longleftrightarrow> \<not> pool_shutdown (pool st) \<and> queue_size (pool st) = 0 \<and>
      (marked_exits (pool st) \<le> 0 \<or> thread_count (pool st) \<le> min_threads (pool st))" for k
    using dequeue_defined [OF jobs, of k] by (auto simp: proceed_def p surplus_def Let_def split: option.splits)
  moreover have "add_idle 0 st = st" by (simp add: add_idle_def)
  ultimately have "proceed t st = None \<longleftrightarrow> \<not> pool_shutdown (pool st) \<and> queue_size (pool st) = 0 \<and>
      (marked_exits (pool st) \<le> 0 \<or> thread_count (pool st) \<le> min_threads (pool st))"
    "proceed t (add_idle (- 1) st) = None \<longleftrightarrow> \<not> pool_shutdown (pool st) \<and> queue_size (pool st) = 0 \<and>
      (marked_exits (pool st) \<le> 0 \<or> thread_count (pool st) \<le> min_threads (pool st))"
    by metis+
  then show ?thesis using assms(3) marked
    by (cases "workers st ! t") (auto simp: worker_section_def must_wait_def runnable_def)
qed

text \<open>When nobody can run, nothing is queued.\<close>

lemma quiet_empty:
  assumes inv: "pool_inv st" and quiet: "\<And>t. t < length (workers st) \<Longrightarrow> \<not> runnable (workers st ! t)"
  shows "queue_size (pool st) = 0"
proof (rule ccontr)
  assume q: "queue_size (pool st) \<noteq> 0"
  have crew: "crew_inv (pool st) (workers st)" using inv by (simp add: pool_inv_def)
  have none: "w = Waiting \<or> w = Exited" if "w \<in> set (workers st)" for w
    using that quiet by (auto simp: in_set_conv_nth runnable_def)
  have "0 < cnt live (workers st)" using q crew_invD(4-7) [OF crew] by auto
  then have "0 < cnt waiting (workers st)" using none by (auto simp: cnt_pos)
  then have "queue_size (pool st) \<le> cnt awake (workers st)" by (rule crew_invD(11) [OF crew])
  moreover have "\<not> 0 < cnt awake (workers st)" using none by (auto simp: cnt_pos)
  ultimately show False using q crew_invD(3) [OF crew] by simp
qed

lemma section_runs:
  assumes "pool_inv st" and "(section_step ^^ k) st st'"
  shows "pool_inv st' \<and> k + work st' \<le> work st \<and> accepted st' = accepted st \<and>
     (marked_exits (pool st) = 0 \<longrightarrow> marked_exits (pool st') = 0)"
  using assms(2)
proof (induction k arbitrary: st')
  case (Suc k)
  then obtain s1 where s1: "(section_step ^^ k) st s1" "section_step s1 st'" by auto
  from Suc.IH [OF s1(1)] section_inv [OF _ s1(2)] section_work [OF _ s1(2)] show ?case by auto
qed (use assms(1) in simp)

section \<open>Properties\<close>

text \<open>A run of the pool on given steps.\<close>

definition run_section :: "nat \<Rightarrow> pool_run \<Rightarrow> pool_run" where
  "run_section t st = (if t < length (workers st) \<and> runnable (workers st ! t)
     then (case worker_section t st of None \<Rightarrow> st | Some st' \<Rightarrow> st') else st)"

definition run_submit :: "addr \<Rightarrow> nat \<Rightarrow> int \<Rightarrow> pool_run \<Rightarrow> pool_run" where
  "run_submit a t conn st = (if job_heap st a = None \<and> (Waiting \<in> set (workers st) \<longrightarrow> t < length (workers st) \<and> workers st ! t = Waiting)
     then snd (threadpool_submit (Some a) t (\<lambda>_. True) conn st) else st)"

definition start_pool :: "nat \<Rightarrow> int \<Rightarrow> pool_run" where
  "start_pool n m = (let st = the (threadpool_create True True n n) in st\<lparr>pool := (pool st)\<lparr>min_threads := m, shrink_idle_sec := 30\<rparr>\<rparr>)"

lemma reachable_run:
  "0 < n \<Longrightarrow> 0 < m \<Longrightarrow> pool_reachable (start_pool n m)"
  "pool_reachable st \<Longrightarrow> pool_reachable (run_section t st)"
  "pool_reachable st \<Longrightarrow> pool_reachable (run_submit a t conn st)"
  "pool_reachable st \<Longrightarrow> pool_reachable (threadpool_maybe_shrink st)"
  "pool_reachable st \<Longrightarrow> pool_reachable (destroy_announce st)"
proof -
  show "0 < n \<Longrightarrow> 0 < m \<Longrightarrow> pool_reachable (start_pool n m)"
    unfolding start_pool_def Let_def by (rule created) (simp_all add: threadpool_create_def)
  assume st: "pool_reachable st"
  have "section_step st (run_section t st) \<or> run_section t st = st"
    by (auto simp: run_section_def section_step_def split: option.split)
  with st show "pool_reachable (run_section t st)" using stepped [OF st section_of_worker] by auto
  show "pool_reachable (run_submit a t conn st)"
    using st stepped [OF st submitted [of "Some a" st t]] by (simp add: run_submit_def signal_ok_def)
  show "pool_reachable (threadpool_maybe_shrink st)" "pool_reachable (destroy_announce st)"
    using stepped [OF st] shrunk stopped by blast+
qed

definition busy_pool :: pool_run where
  "busy_pool = run_submit 8 1 102 (run_submit 7 0 101 (run_section 1 (run_section 0 (start_pool 2 1))))"

definition shrinking_pool :: pool_run where
  "shrinking_pool = run_section 0 (threadpool_maybe_shrink (threadpool_maybe_shrink
     (run_section 2 (run_section 1 (run_section 0 (start_pool 3 2))))))"

lemma reachable_samples: "pool_reachable busy_pool" "pool_reachable shrinking_pool"
  by (simp_all add: busy_pool_def shrinking_pool_def reachable_run)

text \<open>C5: In every state the thread pool can reach: the linked list of jobs is well formed and its length is
  \<open>queue_size\<close>, the connections taken so far followed by those queued are exactly the ones
  submitted, in order; \<open>idle_count\<close> and \<open>thread_count\<close> agree with the threads, the pool has between its
  minimum and maximum number of workers, each job is handled by one worker and freed by nobody else; and
  while a worker waits, there are as many awake workers as queued jobs (no lost wake-up).\<close>

theorem pool_invariant:
  assumes "pool_reachable st"
  shows "pool_inv st"
  by (rule pool_reachable_inv [OF assms])

theorem pool_invariant_witness: "pool_inv busy_pool \<and> accepted busy_pool = [101, 102] \<and> queue_size (pool busy_pool) = 2"
proof -
  have "accepted busy_pool = [101, 102] \<and> queue_size (pool busy_pool) = 2" by code_simp
  with pool_invariant [OF reachable_samples(1)] show ?thesis by blast
qed

text \<open>C6: Whatever the scheduler does, once no more connections arrive and no worker is marked for exit, the
  workers need at most \<open>work st\<close> sections, none of them faults, and when no worker can run any
  more every submitted connection has been handled, in the order of submission.\<close>

theorem pool_drains:
  assumes "pool_reachable st" and "marked_exits (pool st) = 0" and "(section_step ^^ k) st st'"
  shows "k \<le> work st \<and> ((\<exists>st''. section_step st' st'') \<or> taken st' = accepted st)"
proof -
  have inv: "pool_inv st'" and k: "k + work st' \<le> work st" and acc: "accepted st' = accepted st"
    and m: "marked_exits (pool st') = 0"
    using section_runs [OF pool_reachable_inv [OF assms(1)] assms(3)] assms(2) by auto
  have "taken st' = accepted st" if none: "\<nexists>st''. section_step st' st''"
  proof -
    have "\<not> runnable (workers st' ! t)" if "t < length (workers st')" for t
    proof
      assume r: "runnable (workers st' ! t)"
      then have "worker_section t st' \<noteq> None" using section_undefined [OF inv that r] m by simp
      then show False using none that r by (auto simp: section_step_def)
    qed
    then have "queue_size (pool st') = 0" by (rule quiet_empty [OF inv])
    moreover have jobs: "jobs_inv st'" using inv by (simp add: pool_inv_def)
    ultimately have "queue_items (queue_of st') = []" using queue_size_items [of st'] by (simp add: jobs_inv_def)
    then show ?thesis using jobs acc by (simp add: jobs_inv_def)
  qed
  then show ?thesis using k by auto
qed

theorem pool_drains_witness: "\<exists>st''. section_step busy_pool st''"
proof -
  have "marked_exits (pool busy_pool) = 0 \<and> taken busy_pool \<noteq> accepted busy_pool" by code_simp
  then show ?thesis using pool_drains [OF reachable_samples(1), of 0 busy_pool] by auto
qed

text \<open>C26: A worker dereferences the null pointer \<open>pool->head\<close> exactly when it leaves the wait loop because of a pending
  exit mark although the queue is empty and the pool has shrunk to its minimum.  The state is
  reachable: two shrink checks in a row mark more workers than may leave, one leaves, the next faults.\<close>

theorem worker_fault_iff:
  assumes "pool_reachable st" and "t < length (workers st)" and "runnable (workers st ! t)"
  shows "worker_section t st = None \<longleftrightarrow> (workers st ! t = Top \<or> workers st ! t = Woken) \<and> \<not> pool_shutdown (pool st) \<and>
     queue_size (pool st) = 0 \<and> 0 < marked_exits (pool st) \<and> thread_count (pool st) \<le> min_threads (pool st)"
  by (rule section_undefined [OF pool_reachable_inv [OF assms(1)] assms(2,3)])

theorem worker_fault_iff_witness: "worker_section 1 shrinking_pool = None"
proof -
  have "1 < length (workers shrinking_pool) \<and> workers shrinking_pool ! 1 = Woken \<and> \<not> pool_shutdown (pool shrinking_pool) \<and>
     queue_size (pool shrinking_pool) = 0 \<and> 0 < marked_exits (pool shrinking_pool) \<and>
     thread_count (pool shrinking_pool) \<le> min_threads (pool shrinking_pool)" by code_simp
  then show ?thesis using worker_fault_iff [OF reachable_samples(2), of 1] by (simp add: runnable_def)
qed

text \<open>\<open>threadpool_destroy\<close> can finish its joins while a worker is still inside \<open>handle_client\<close>: after a shrink the
  next scale-up overwrites the thread id of a live worker, which nobody joins; the pool is then
  freed under it.\<close>

definition stopping_pool :: pool_run where
  "stopping_pool = (let idle3 = run_section 2 (run_section 1 (run_section 0 (start_pool 3 1)));
     shrunk = run_section 2 (run_section 1 (run_section 0 (threadpool_maybe_shrink idle3)));
     grown = run_submit 8 0 102 (run_submit 7 2 101 shrunk) in
     destroy_announce (run_section 3 (run_section 2 grown)))"

definition forgotten_worker :: pool_run where
  "forgotten_worker = run_section 3 (run_section 3 (run_section 3 stopping_pool))"

lemma destroy_misses_worker:
  "pool_reachable forgotten_worker \<and> pool_joined (thread_count (pool stopping_pool)) forgotten_worker \<and>
     workers forgotten_worker ! 2 = Handling 7"
proof -
  have "pool_joined (thread_count (pool stopping_pool)) forgotten_worker \<and> workers forgotten_worker ! 2 = Handling 7" by code_simp
  moreover have "pool_reachable forgotten_worker" unfolding forgotten_worker_def stopping_pool_def Let_def by (simp add: reachable_run)
  ultimately show ?thesis by blast
qed

end
