(* ===== verification/Environment.thy ===== *)
theory Environment
  imports Complex_Main Prelude
begin

text \<open>
  What the program takes from outside while it serves one command: the clocks, the allocator, the
  random source, the hash function of OpenSSL and the outcome of each SQL statement.  They are the
  fields of the record \<open>env\<close>, an argument of every operation that depends on them; a theorem
  that needs one of them to behave states that as a hypothesis, by one of the predicates below.

  SQL is one of the languages the sources are written in: the text of a statement is translated to
  the table operation it denotes, next to the C function that executes it.  What the engine decides
  by itself is a parameter: whether a statement can be prepared, whether its execution fails and
  after how many rows, and the order in which rows come when the statement asks for none.
\<close>

text \<open>The statements of the program, one constructor each.\<close>

datatype sql_stmt =
    Insert_message | Select_history | Select_history_latest | Select_history_before
  | Update_message | Mark_message_deleted
  | Insert_user | Select_password | Select_user
  | Insert_session | Select_session | Delete_session | Delete_expired | Select_user_sessions
  | Insert_room | Delete_room_row | Select_rooms | Search_messages
  | Insert_block | Delete_block | Select_block | Select_blocked | Count_blocks
  | Insert_mute | Delete_mute | Select_mute
  | Insert_ban | Delete_ban | Select_ban
  | Insert_role | Select_role | Delete_role
  | Insert_invite | Delete_invite | Select_invite
  | Insert_receipt | Select_receipt

text \<open>
  \<open>Prepare_fails\<close>: \<open>sqlite3_prepare_v2\<close> is not \<open>SQLITE_OK\<close>.  \<open>Step_fails k\<close>:
  \<open>sqlite3_step\<close> reports an error after \<open>k\<close> rows, and a modification is not made.
  \<open>Completes\<close>: the statement runs to its end.
\<close>

datatype sql_outcome = Prepare_fails | Step_fails nat | Completes

text \<open>The separate database handles, and how opening one of them can end.\<close>

datatype handle = Main_db | Receipt_db | Block_db | Perm_db | Invite_db | Session_db

datatype open_outcome = Open_fails | Schema_fails | Opens

text \<open>A row of \<open>sessions\<close> (its key is the token) and the keys whose order the engine chooses.\<close>

record session_row =
  ses_username :: string
  ses_created_at :: int
  ses_expires_at :: int

record env =
  env_now :: int                              \<comment> \<open>\<open>time(NULL)\<close> and \<open>strftime('%s','now')\<close>\<close>
  env_mono :: "int \<times> int"                    \<comment> \<open>\<open>clock_gettime(CLOCK_MONOTONIC)\<close>: seconds, nanoseconds\<close>
  env_rand :: int                             \<comment> \<open>\<open>rand()\<close>\<close>
  env_round :: "rat \<Rightarrow> rat"                   \<comment> \<open>rounding to the nearest \<open>double\<close>\<close>
  env_alloc_room :: "addr option"             \<comment> \<open>the block \<open>calloc\<close> returns for a room\<close>
  env_alloc_client :: "addr option"           \<comment> \<open>the block \<open>malloc\<close> returns for a client\<close>
  env_alloc_members :: bool
  env_alloc_history :: bool
  env_alloc_rows :: bool
  env_alloc_fds :: bool
  env_alloc_lists :: "bool \<times> bool"           \<comment> \<open>the two arrays of \<open>registry_init\<close>\<close>
  env_mutex_init :: bool
  env_sha256 :: "string \<Rightarrow> 8 word list"        \<comment> \<open>\<open>SHA256\<close>\<close>
  env_rand_bytes :: "nat \<Rightarrow> 8 word list option" \<comment> \<open>the successive results of \<open>RAND_bytes\<close>\<close>
  env_sql :: "sql_stmt \<Rightarrow> sql_outcome"
  env_open :: "handle \<Rightarrow> open_outcome"
  env_scan_names :: "string list \<Rightarrow> string list"
  env_scan_sessions :: "(string \<times> session_row) list \<Rightarrow> (string \<times> session_row) list"
  env_scan_rooms :: "(string \<times> string \<times> int) list \<Rightarrow> (string \<times> string \<times> int) list"

section \<open>Documented behaviour of the outside, as hypotheses\<close>

text \<open>Statement \<open>st\<close> runs to its end.\<close>

definition sql_works :: "env \<Rightarrow> sql_stmt \<Rightarrow> bool" where
  "sql_works e st \<longleftrightarrow> env_sql e st = Completes"

text \<open>\<open>SHA256\<close> returns a digest of 32 bytes; \<open>RAND_bytes\<close> fills the 32 bytes it was asked for.\<close>

definition digest_ok :: "env \<Rightarrow> bool" where
  "digest_ok e \<longleftrightarrow> (\<forall>s. length (env_sha256 e s) = 32)"

definition rand_ok :: "env \<Rightarrow> bool" where
  "rand_ok e \<longleftrightarrow> (\<forall>n bs. env_rand_bytes e n = Some bs \<longrightarrow> length bs = 32)"

text \<open>The rows an executed \<open>SELECT\<close> delivers before it ends or fails.\<close>

definition delivered :: "sql_outcome \<Rightarrow> 'r list \<Rightarrow> 'r list" where
  "delivered oc rows = (case oc of Prepare_fails \<Rightarrow> [] | Step_fails k \<Rightarrow> take k rows | Completes \<Rightarrow> rows)"

text \<open>
  A concrete outside in which everything works, for evaluating the model: the clock stands at 1000,
  every allocation succeeds, rooms and clients are put at the given addresses.
\<close>

definition sample_env :: "addr \<Rightarrow> addr \<Rightarrow> env" where
  "sample_env ra ca = \<lparr>env_now = 1000, env_mono = (50, 0), env_rand = 7, env_round = id,
     env_alloc_room = Some ra, env_alloc_client = Some ca, env_alloc_members = True,
     env_alloc_history = True, env_alloc_rows = True, env_alloc_fds = True,
     env_alloc_lists = (True, True), env_mutex_init = True,
     env_sha256 = (\<lambda>s. replicate 32 (word_of_nat (length s))),
     env_rand_bytes = (\<lambda>n. Some (replicate 32 (word_of_nat n))),
     env_sql = (\<lambda>_. Completes), env_open = (\<lambda>_. Opens), env_scan_names = id,
     env_scan_sessions = id, env_scan_rooms = id\<rparr>"

lemma sample_env_works [simp]: "sql_works (sample_env ra ca) st"
  by (simp add: sql_works_def sample_env_def)

lemma sample_env_now [simp]: "env_now (sample_env ra ca) = 1000"
  by (simp add: sample_env_def)

lemma sample_env_rand [simp]: "rand_ok (sample_env ra ca)"
  by (simp add: rand_ok_def sample_env_def)

lemma delivered_Completes [simp]: "delivered Completes rows = rows"
  by (simp add: delivered_def)

lemma set_delivered: "set (delivered oc rows) \<subseteq> set rows"
  by (auto simp: delivered_def dest: in_set_takeD split: sql_outcome.splits)

lemma length_delivered: "length (delivered oc rows) \<le> length rows"
  by (simp add: delivered_def split: sql_outcome.split)

section \<open>Tables with a primary key\<close>

text \<open>A table is the list of its rows in the order of insertion, each split into key and rest.\<close>

type_synonym ('k, 'v) table = "('k \<times> 'v) list"

definition table_inv :: "('k, 'v) table \<Rightarrow> bool" where
  "table_inv t \<longleftrightarrow> distinct (map fst t)"

text \<open>\<open>INSERT INTO\<close>: \<open>None\<close> is the violation of the primary key.\<close>

definition insert_row :: "'k \<Rightarrow> 'v \<Rightarrow> ('k, 'v) table \<Rightarrow> ('k, 'v) table option" where
  "insert_row k v t = (if map_of t k = None then Some (t @ [(k, v)]) else None)"

definition insert_or_ignore :: "'k \<Rightarrow> 'v \<Rightarrow> ('k, 'v) table \<Rightarrow> ('k, 'v) table" where
  "insert_or_ignore k v t = (if map_of t k = None then t @ [(k, v)] else t)"

definition delete_row :: "'k \<Rightarrow> ('k, 'v) table \<Rightarrow> ('k, 'v) table" where
  "delete_row k t = filter (\<lambda>r. fst r \<noteq> k) t"

definition insert_or_replace :: "'k \<Rightarrow> 'v \<Rightarrow> ('k, 'v) table \<Rightarrow> ('k, 'v) table" where
  "insert_or_replace k v t = delete_row k t @ [(k, v)]"

text \<open>\<open>sqlite3_changes\<close> after a \<open>DELETE\<close> of the rows with key \<open>k\<close>.\<close>

definition rows_deleted :: "'k \<Rightarrow> ('k, 'v) table \<Rightarrow> nat" where
  "rows_deleted k t = length (filter (\<lambda>r. fst r = k) t)"

lemma map_of_insert_row: "insert_row k v t = Some t' \<Longrightarrow> map_of t' = (map_of t)(k \<mapsto> v)"
  by (auto simp: insert_row_def map_add_def fun_eq_iff split: if_splits option.splits)

lemma map_of_insert_or_ignore:
  "map_of (insert_or_ignore k v t) = (if map_of t k = None then (map_of t)(k \<mapsto> v) else map_of t)"
  by (auto simp: insert_or_ignore_def map_add_def fun_eq_iff split: option.splits)

lemma map_of_delete_row [simp]: "map_of (delete_row k t) = (map_of t)(k := None)"
  by (induction t) (auto simp: delete_row_def fun_eq_iff)

lemma map_of_insert_or_replace [simp]: "map_of (insert_or_replace k v t) = (map_of t)(k \<mapsto> v)"
  by (auto simp: insert_or_replace_def map_add_def fun_eq_iff split: option.splits)

lemma rows_deleted_pos [simp]: "0 < rows_deleted k t \<longleftrightarrow> map_of t k \<noteq> None"
  by (induction t) (auto simp: rows_deleted_def)

lemma map_of_eq_None_iff_fst: "map_of t k = None \<longleftrightarrow> k \<notin> fst ` set t"
  by (induction t) auto

lemma table_inv_insert_row: "insert_row k v t = Some t' \<Longrightarrow> table_inv t \<Longrightarrow> table_inv t'"
  by (auto simp: insert_row_def table_inv_def map_of_eq_None_iff_fst split: if_splits)

lemma table_inv_insert_or_ignore: "table_inv t \<Longrightarrow> table_inv (insert_or_ignore k v t)"
  by (auto simp: insert_or_ignore_def table_inv_def map_of_eq_None_iff_fst)

lemma table_inv_delete_row: "table_inv t \<Longrightarrow> table_inv (delete_row k t)"
  by (simp add: table_inv_def delete_row_def distinct_map_filter)

lemma table_inv_insert_or_replace: "table_inv t \<Longrightarrow> table_inv (insert_or_replace k v t)"
  using table_inv_delete_row [of t k]
  by (auto simp: insert_or_replace_def table_inv_def delete_row_def)

lemma table_inv_Nil [simp]: "table_inv []"
  by (simp add: table_inv_def)

lemma table_inv_filter: "table_inv t \<Longrightarrow> table_inv (filter P t)"
  by (simp add: table_inv_def distinct_map_filter)

end
