(* ===== verification/History.thy ===== *)
theory History
  imports Prelude
begin

text \<open>
  The message history of a room (\<open>message_t\<close> and the history fields of \<open>room_t\<close> in
  \<open>include/registry.h\<close>, the circular buffer code of \<open>src/registry.c\<close>).  The four fields
  \<open>history\<close>, \<open>history_count\<close>, \<open>history_start\<close> and \<open>history_capacity\<close> of \<open>room_t\<close> form
  the record \<open>ring\<close> here.  The locale \<open>bounded_log\<close> states what the buffer promises (it holds
  the last \<open>bound\<close> messages, oldest first); it is interpreted both on the operation that adds
  a live message and on the loop that loads stored rows.
\<close>

section \<open>Messages and the circular buffer\<close>

record message =
  msg_id :: int
  msg_sender :: string
  msg_text :: string
  msg_timestamp :: int
  msg_deleted :: bool
  msg_edited_at :: int

record ring =
  slots :: "message list"
  history_count :: nat
  history_start :: nat
  history_capacity :: nat

abbreviation MAX_USERNAME_LEN :: nat where "MAX_USERNAME_LEN \<equiv> 32"
abbreviation MAX_ROOM_NAME_LEN :: nat where "MAX_ROOM_NAME_LEN \<equiv> 32"
abbreviation MAX_TEXT_LEN :: nat where "MAX_TEXT_LEN \<equiv> 400"

definition blank_message :: message where
  "blank_message = \<lparr>msg_id = 0, msg_sender = '''', msg_text = '''', msg_timestamp = 0,
     msg_deleted = False, msg_edited_at = 0\<rparr>"

text \<open>The freshly allocated history of \<open>create_room\<close>: \<open>calloc\<close> of \<open>cap\<close> messages.\<close>

definition ring_new :: "nat \<Rightarrow> ring" where
  "ring_new cap = \<lparr>slots = replicate cap blank_message, history_count = 0, history_start = 0,
     history_capacity = cap\<rparr>"

text \<open>Choice of the slot and the store into it, common to both writers.\<close>

definition ring_put :: "ring \<Rightarrow> message \<Rightarrow> ring" where
  "ring_put r m =
     (let cap = history_capacity r in
      if history_count r < cap
      then r\<lparr>slots := (slots r)[history_count r := m]\<rparr>
      else r\<lparr>slots := (slots r)[history_start r := m],
             history_start := (history_start r + 1) mod cap\<rparr>)"

text \<open>The in-memory half of \<open>room_add_history\<close>.\<close>

definition ring_add :: "ring \<Rightarrow> message \<Rightarrow> ring" where
  "ring_add r m =
     (let cap = history_capacity r in
      if cap \<le> 0 then r
      else let r' = ring_put r m in
        if history_count r < 1000000 then r'\<lparr>history_count := history_count r + 1\<rparr>
        else r'\<lparr>history_count := cap\<rparr>)"

text \<open>One round of the loop that copies stored rows into a new room's buffer.\<close>

definition ring_load :: "ring \<Rightarrow> message \<Rightarrow> ring" where
  "ring_load r m =
     (let cap = history_capacity r in
      if cap \<le> 0 then r
      else let r' = ring_put r m in
        if history_count r < cap then r'\<lparr>history_count := history_count r + 1\<rparr> else r')"

text \<open>The walk from the oldest to the newest message.\<close>

definition ring_stored :: "ring \<Rightarrow> nat" where
  "ring_stored r = (if history_count r < history_capacity r then history_count r
     else history_capacity r)"

definition ring_index :: "ring \<Rightarrow> nat \<Rightarrow> nat" where
  "ring_index r i = (if history_count r < history_capacity r then i
     else (history_start r + i) mod history_capacity r)"

definition ring_walk :: "ring \<Rightarrow> message list" where
  "ring_walk r = map (\<lambda>i. slots r ! ring_index r i) [0..<ring_stored r]"

definition ring_find :: "ring \<Rightarrow> int \<Rightarrow> nat option" where
  "ring_find r mid = scan (\<lambda>m. msg_id m = mid) (ring_walk r) 0 (ring_stored r)"

text \<open>\<open>room_find_message\<close>: the slot of the message, \<open>NULL\<close> for an id that is not positive.\<close>

definition ring_find_message :: "ring \<Rightarrow> int \<Rightarrow> nat option" where
  "ring_find_message r mid =
     (if mid \<le> 0 then None else map_option (ring_index r) (ring_find r mid))"

text \<open>
  The buffer part of \<open>room_edit_message\<close> and \<open>room_delete_message\<close>, with their result codes.  The tests for \<open>NULL\<close> arguments and
  the statements on the database are in \<open>room_edit_message\<close> and \<open>room_delete_message\<close> of theory \<open>Registry\<close>.
\<close>

definition ring_edit :: "int \<Rightarrow> ring \<Rightarrow> int \<Rightarrow> string \<Rightarrow> string \<Rightarrow> int \<times> ring" where
  "ring_edit now r mid requester new_text =
     (case ring_find r mid of
        None \<Rightarrow> (-1, r)
      | Some i \<Rightarrow>
          let idx = ring_index r i; m = slots r ! idx in
          if msg_deleted m then (-2, r)
          else if msg_sender m \<noteq> requester then (-3, r)
          else (0, r\<lparr>slots := (slots r)[idx := m\<lparr>msg_text := strncpy_term MAX_TEXT_LEN new_text,
                 msg_edited_at := now\<rparr>]\<rparr>))"

definition ring_delete :: "ring \<Rightarrow> int \<Rightarrow> string \<Rightarrow> bool \<Rightarrow> int \<times> ring" where
  "ring_delete r mid requester is_admin =
     (case ring_find r mid of
        None \<Rightarrow> (-1, r)
      | Some i \<Rightarrow>
          let idx = ring_index r i; m = slots r ! idx in
          if msg_deleted m then (-2, r)
          else if msg_sender m \<noteq> requester \<and> \<not> is_admin then (-3, r)
          else (0, r\<lparr>slots := (slots r)[idx := m\<lparr>msg_deleted := True,
                 msg_text := strncpy_term MAX_TEXT_LEN ''[deleted]''\<rparr>]\<rparr>))"

section \<open>The invariant of the buffer\<close>

text \<open>
  Before the first wrap the buffer starts at slot 0; afterwards \<open>history_start\<close> names the oldest
  slot.  The counter is cut back to the capacity at one million, so a capacity above that would
  lose the distinction; the invariant excludes it.
\<close>

definition ring_inv :: "ring \<Rightarrow> bool" where
  "ring_inv r \<longleftrightarrow> length (slots r) = history_capacity r \<and> history_capacity r \<le> 1000000 \<and>
     (history_count r < history_capacity r \<longrightarrow> history_start r = 0) \<and>
     (0 < history_capacity r \<longrightarrow> history_start r < history_capacity r) \<and>
     (history_capacity r = 0 \<longrightarrow> history_count r = 0)"

lemma ring_inv_new: "cap \<le> 1000000 \<Longrightarrow> ring_inv (ring_new cap)"
  by (simp add: ring_inv_def ring_new_def)

lemma capacity_new [simp]: "history_capacity (ring_new cap) = cap"
  by (simp add: ring_new_def)

lemma ring_walk_new [simp]: "ring_walk (ring_new cap) = []"
  by (simp add: ring_walk_def ring_new_def ring_stored_def)

lemma length_ring_walk [simp]: "length (ring_walk r) = ring_stored r"
  by (simp add: ring_walk_def)

lemma ring_stored_le: "ring_stored r \<le> history_capacity r"
  by (simp add: ring_stored_def)

lemma nth_ring_walk: "i < ring_stored r \<Longrightarrow> ring_walk r ! i = slots r ! ring_index r i"
  by (simp add: ring_walk_def)

lemma ring_index_less:
  "ring_inv r \<Longrightarrow> i < ring_stored r \<Longrightarrow> ring_index r i < length (slots r)"
  by (auto simp: ring_inv_def ring_stored_def ring_index_def split: if_splits)

lemma mod_add_inj:
  fixes n :: nat
  assumes "(s + i) mod n = (s + j) mod n" and "i < n" and "j < n"
  shows "i = j"
  using assms
proof (induction i j rule: linorder_wlog)
  case (le i j)
  then have "n dvd (s + j) - (s + i)"
    using mod_eq_dvd_iff_nat [of "s + i" "s + j" n] by simp
  with le show ?case by (auto dest: dvd_imp_le)
qed simp

lemma ring_index_inj:
  "i < ring_stored r \<Longrightarrow> j < ring_stored r \<Longrightarrow> ring_index r i = ring_index r j \<Longrightarrow> i = j"
  by (auto simp: ring_stored_def ring_index_def dest: mod_add_inj split: if_splits)

lemma ring_inv_add: "ring_inv r \<Longrightarrow> ring_inv (ring_add r m)"
  by (auto simp: ring_inv_def ring_add_def ring_put_def Let_def)

lemma ring_inv_load: "ring_inv r \<Longrightarrow> ring_inv (ring_load r m)"
  by (auto simp: ring_inv_def ring_load_def ring_put_def Let_def)

lemma capacity_add [simp]: "history_capacity (ring_add r m) = history_capacity r"
  by (simp add: ring_add_def ring_put_def Let_def)

lemma capacity_load [simp]: "history_capacity (ring_load r m) = history_capacity r"
  by (simp add: ring_load_def ring_put_def Let_def)

section \<open>Refinement: the buffer holds the last messages\<close>

text \<open>A store before the first wrap appends; a store after it drops the oldest message.\<close>

lemma walk_put_grow:
  assumes "ring_inv r" and "history_count r < history_capacity r"
  shows "ring_walk ((ring_put r m)\<lparr>history_count := history_count r + 1\<rparr>) = ring_walk r @ [m]"
proof (rule nth_equalityI)
  let ?r = "(ring_put r m)\<lparr>history_count := history_count r + 1\<rparr>"
  show "length (ring_walk ?r) = length (ring_walk r @ [m])"
    using assms by (simp add: ring_stored_def ring_put_def Let_def)
  fix i assume "i < length (ring_walk ?r)"
  with assms show "ring_walk ?r ! i = (ring_walk r @ [m]) ! i"
    by (auto simp: ring_inv_def nth_ring_walk ring_stored_def ring_put_def ring_index_def Let_def
        nth_append nth_list_update split: if_splits)
qed

lemma walk_put_wrap:
  assumes inv: "ring_inv r" and full: "history_capacity r \<le> history_count r"
    and pos: "0 < history_capacity r" and c: "history_capacity r \<le> c"
  shows "ring_walk ((ring_put r m)\<lparr>history_count := c\<rparr>) = tl (ring_walk r) @ [m]"
proof (rule nth_equalityI)
  let ?r = "(ring_put r m)\<lparr>history_count := c\<rparr>" and ?n = "history_capacity r"
    and ?s = "history_start r"
  have st: "ring_stored ?r = ?n" "ring_stored r = ?n"
    using full c by (simp_all add: ring_stored_def ring_put_def Let_def)
  show "length (ring_walk ?r) = length (tl (ring_walk r) @ [m])"
    using st pos by simp
  fix i assume "i < length (ring_walk ?r)"
  then have i: "i < ?n" by (simp add: st)
  have step: "ring_walk ?r ! i = (slots r)[?s := m] ! ((?s + Suc i) mod ?n)"
    using i full c by (simp add: nth_ring_walk st) (simp add: ring_index_def ring_put_def Let_def mod_simps)
  have s: "?s < ?n" "length (slots r) = ?n" using inv pos by (auto simp: ring_inv_def)
  show "ring_walk ?r ! i = (tl (ring_walk r) @ [m]) ! i"
  proof (cases "Suc i < ?n")
    case True
    have "(?s + Suc i) mod ?n \<noteq> ?s"
    proof
      assume "(?s + Suc i) mod ?n = ?s"
      then have "(?s + Suc i) mod ?n = (?s + 0) mod ?n" using s by simp
      from mod_add_inj [OF this True] pos show False by simp
    qed
    then have "ring_walk ?r ! i = slots r ! ((?s + Suc i) mod ?n)"
      using step by simp
    also have "\<dots> = ring_walk r ! Suc i"
      using full True st by (simp add: nth_ring_walk ring_index_def)
    finally show ?thesis using True st by (simp add: nth_append nth_tl)
  next
    case False
    with i have "Suc i = ?n" by simp
    then have "(?s + Suc i) mod ?n = ?s" using s by simp
    with step s \<open>Suc i = ?n\<close> st show ?thesis by (simp add: nth_append)
  qed
qed

lemma lastn_snoc_full:
  "length xs = n \<Longrightarrow> 0 < n \<Longrightarrow> lastn n (xs @ [x]) = tl xs @ [x]"
  by (cases xs) (auto simp: lastn_def)

lemma ring_walk_add:
  assumes "ring_inv r"
  shows "ring_walk (ring_add r m) = lastn (history_capacity r) (ring_walk r @ [m])"
proof -
  consider (none) "history_capacity r = 0"
    | (grow) "history_count r < history_capacity r"
    | (wrap) "0 < history_capacity r" "history_capacity r \<le> history_count r" by linarith
  then show ?thesis
  proof cases
    case none
    then show ?thesis by (simp add: ring_add_def ring_walk_def ring_stored_def)
  next
    case grow
    with assms have "history_count r < 1000000" by (simp add: ring_inv_def)
    with grow walk_put_grow [OF assms grow, of m] show ?thesis
      by (simp add: ring_add_def Let_def ring_stored_def)
  next
    case wrap
    then have "length (ring_walk r) = history_capacity r" by (simp add: ring_stored_def)
    with wrap show ?thesis
      using walk_put_wrap [OF assms wrap(2) wrap(1), of _ m]
      by (auto simp: ring_add_def Let_def lastn_snoc_full)
  qed
qed

lemma ring_walk_load:
  assumes "ring_inv r"
  shows "ring_walk (ring_load r m) = lastn (history_capacity r) (ring_walk r @ [m])"
proof -
  consider (none) "history_capacity r = 0"
    | (grow) "history_count r < history_capacity r"
    | (wrap) "0 < history_capacity r" "history_capacity r \<le> history_count r" by linarith
  then show ?thesis
  proof cases
    case none
    then show ?thesis by (simp add: ring_load_def ring_walk_def ring_stored_def)
  next
    case grow
    with walk_put_grow [OF assms grow, of m] show ?thesis
      by (simp add: ring_load_def Let_def ring_stored_def)
  next
    case wrap
    then have len: "length (ring_walk r) = history_capacity r" by (simp add: ring_stored_def)
    have "(ring_put r m)\<lparr>history_count := history_count r\<rparr> = ring_put r m"
      by (simp add: ring_put_def Let_def)
    with wrap len show ?thesis
      using walk_put_wrap [OF assms wrap(2) wrap(1) wrap(2), of m]
      by (simp add: ring_load_def Let_def lastn_snoc_full)
  qed
qed

section \<open>The interface of a bounded log\<close>

locale bounded_log =
  fixes add :: "'r \<Rightarrow> 'm \<Rightarrow> 'r"
    and contents :: "'r \<Rightarrow> 'm list"
    and bound :: "'r \<Rightarrow> nat"
    and invar :: "'r \<Rightarrow> bool"
  assumes contents_add: "invar r \<Longrightarrow> contents (add r m) = lastn (bound r) (contents r @ [m])"
    and bound_add: "invar r \<Longrightarrow> bound (add r m) = bound r"
    and invar_add: "invar r \<Longrightarrow> invar (add r m)"
    and contents_bound: "invar r \<Longrightarrow> length (contents r) \<le> bound r"
begin

lemma invar_foldl: "invar r \<Longrightarrow> invar (foldl add r ms)"
  by (induction ms arbitrary: r) (simp_all add: invar_add)

lemma bound_foldl: "invar r \<Longrightarrow> bound (foldl add r ms) = bound r"
  by (induction ms arbitrary: r) (simp_all add: invar_add bound_add)

lemma contents_foldl: "invar r \<Longrightarrow> contents (foldl add r ms) = lastn (bound r) (contents r @ ms)"
proof (induction ms arbitrary: r)
  case Nil
  then show ?case by (simp add: contents_bound)
next
  case (Cons m ms)
  then have "contents (foldl add r (m # ms)) =
      lastn (bound r) (lastn (bound r) (contents r @ [m]) @ ms)"
    by (simp add: invar_add bound_add contents_add)
  then show ?case by (simp add: lastn_append_lastn)
qed

lemma contents_suffix: "invar r \<Longrightarrow> bound r \<le> length ms \<Longrightarrow>
    contents (foldl add r ms) = lastn (bound r) ms"
  by (simp add: contents_foldl) (simp add: lastn_def)

end

interpretation live: bounded_log ring_add ring_walk history_capacity ring_inv
  by unfold_locales (simp_all add: ring_walk_add ring_inv_add ring_stored_le)

interpretation loaded: bounded_log ring_load ring_walk history_capacity ring_inv
  by unfold_locales (simp_all add: ring_walk_load ring_inv_load ring_stored_le)

section \<open>Edit and delete\<close>

lemma ring_find_Some:
  assumes "ring_find r mid = Some i"
  shows "i < ring_stored r" and "msg_id (ring_walk r ! i) = mid"
    and "\<And>j. j < i \<Longrightarrow> msg_id (ring_walk r ! j) \<noteq> mid"
  using assms by (auto simp: ring_find_def scan_Some)

lemma ring_find_None: "ring_find r mid = None \<longleftrightarrow> mid \<notin> msg_id ` set (ring_walk r)"
proof -
  have "ring_find r mid = None \<longleftrightarrow> (\<forall>m \<in> set (take (ring_stored r) (ring_walk r)). msg_id m \<noteq> mid)"
    unfolding ring_find_def by (rule scan_None_set) simp
  then show ?thesis by auto
qed

text \<open>Writing the slot behind position \<open>i\<close> of the walk changes that position and no other.\<close>

lemma ring_walk_update:
  assumes "ring_inv r" and "i < ring_stored r"
  shows "ring_walk (r\<lparr>slots := (slots r)[ring_index r i := m]\<rparr>) = (ring_walk r)[i := m]"
proof (rule nth_equalityI)
  let ?r = "r\<lparr>slots := (slots r)[ring_index r i := m]\<rparr>"
  have eq: "ring_stored ?r = ring_stored r" "ring_index ?r = ring_index r"
    by (auto simp: ring_stored_def ring_index_def)
  show "length (ring_walk ?r) = length ((ring_walk r)[i := m])" by (simp add: eq)
  fix j assume "j < length (ring_walk ?r)"
  with eq assms show "ring_walk ?r ! j = (ring_walk r)[i := m] ! j"
    by (auto simp: nth_ring_walk nth_list_update ring_index_less dest: ring_index_inj)
qed

lemma ring_inv_update: "ring_inv r \<Longrightarrow> ring_inv (r\<lparr>slots := (slots r)[k := m]\<rparr>)"
  by (simp add: ring_inv_def)

lemma ring_edit_cases:
  obtains (missing) "ring_find r mid = None" "ring_edit now r mid who new = (-1, r)"
  | (deleted) i where "ring_find r mid = Some i" "msg_deleted (ring_walk r ! i)"
      "ring_edit now r mid who new = (-2, r)"
  | (foreign) i where "ring_find r mid = Some i" "\<not> msg_deleted (ring_walk r ! i)"
      "msg_sender (ring_walk r ! i) \<noteq> who" "ring_edit now r mid who new = (-3, r)"
  | (ok) i where "ring_find r mid = Some i" "\<not> msg_deleted (ring_walk r ! i)"
      "msg_sender (ring_walk r ! i) = who"
      "ring_edit now r mid who new = (0, r\<lparr>slots := (slots r)[ring_index r i :=
         (ring_walk r ! i)\<lparr>msg_text := strncpy_term MAX_TEXT_LEN new, msg_edited_at := now\<rparr>]\<rparr>)"
proof (cases "ring_find r mid")
  case None
  then show thesis by (rule missing) (simp add: ring_edit_def None)
next
  case (Some i)
  then have "slots r ! ring_index r i = ring_walk r ! i"
    by (simp add: nth_ring_walk ring_find_Some(1))
  with Some deleted foreign ok show thesis
    by (simp add: ring_edit_def Let_def) fastforce
qed

lemma ring_delete_cases:
  obtains (missing) "ring_find r mid = None" "ring_delete r mid who adm = (-1, r)"
  | (deleted) i where "ring_find r mid = Some i" "msg_deleted (ring_walk r ! i)"
      "ring_delete r mid who adm = (-2, r)"
  | (foreign) i where "ring_find r mid = Some i" "\<not> msg_deleted (ring_walk r ! i)"
      "msg_sender (ring_walk r ! i) \<noteq> who" "\<not> adm" "ring_delete r mid who adm = (-3, r)"
  | (ok) i where "ring_find r mid = Some i" "\<not> msg_deleted (ring_walk r ! i)"
      "msg_sender (ring_walk r ! i) = who \<or> adm"
      "ring_delete r mid who adm = (0, r\<lparr>slots := (slots r)[ring_index r i :=
         (ring_walk r ! i)\<lparr>msg_deleted := True, msg_text := ''[deleted]''\<rparr>]\<rparr>)"
proof (cases "ring_find r mid")
  case None
  then show thesis by (rule missing) (simp add: ring_delete_def None)
next
  case (Some i)
  then have "slots r ! ring_index r i = ring_walk r ! i"
    by (simp add: nth_ring_walk ring_find_Some(1))
  with Some deleted foreign ok show thesis
    by (simp add: ring_delete_def Let_def) fastforce
qed

lemma ring_inv_edit: "ring_inv r \<Longrightarrow> ring_inv (snd (ring_edit now r mid who new))"
  by (cases rule: ring_edit_cases [of r mid now who new]) (simp_all add: ring_inv_update)

lemma ring_inv_delete: "ring_inv r \<Longrightarrow> ring_inv (snd (ring_delete r mid who adm))"
  by (cases rule: ring_delete_cases [of r mid who adm]) (simp_all add: ring_inv_update)

text \<open>A write that keeps the id of position \<open>i\<close> leaves every search where it was.\<close>

lemma ring_find_update:
  assumes "ring_inv r" and "i < ring_stored r" and "msg_id m = msg_id (ring_walk r ! i)"
  shows "ring_find (r\<lparr>slots := (slots r)[ring_index r i := m]\<rparr>) mid = ring_find r mid"
proof -
  let ?r = "r\<lparr>slots := (slots r)[ring_index r i := m]\<rparr>"
  have walk: "ring_walk ?r = (ring_walk r)[i := m]" using assms(1,2) by (rule ring_walk_update)
  have ids: "msg_id (ring_walk ?r ! j) = msg_id (ring_walk r ! j)" if "j < ring_stored r" for j
    using that assms(2,3) by (simp add: walk nth_list_update)
  have st: "ring_stored ?r = ring_stored r" by (simp add: ring_stored_def)
  show ?thesis
  proof (cases "ring_find r mid")
    case None
    then have "\<forall>j. j < ring_stored r \<longrightarrow> msg_id (ring_walk r ! j) \<noteq> mid"
      by (simp add: ring_find_def scan_None)
    then have "ring_find ?r mid = None" by (simp add: ring_find_def scan_None st ids)
    with None show ?thesis by simp
  next
    case (Some k)
    then have "ring_find ?r mid = Some k"
      unfolding ring_find_def scan_Some st using ids by auto
    with Some show ?thesis by simp
  qed
qed

section \<open>Properties of the room history\<close>

text \<open>
  A capacity above one million: as long as the counter has not reached the million the messages lie in
  order from slot 0; the next message after that makes the counter jump to the capacity.
\<close>

definition grown :: "nat \<Rightarrow> message list \<Rightarrow> ring \<Rightarrow> bool" where
  "grown cap xs r \<longleftrightarrow> length xs \<le> cap \<and> slots r = xs @ replicate (cap - length xs) blank_message \<and>
     history_count r = length xs \<and> history_start r = 0 \<and> history_capacity r = cap"

lemma grown_new: "grown cap [] (ring_new cap)"
  by (simp add: grown_def ring_new_def)

lemma grown_put:
  assumes "grown cap xs r" and "length xs < cap"
  shows "ring_put r m = r\<lparr>slots := (xs @ [m]) @ replicate (cap - Suc (length xs)) blank_message\<rparr>"
proof -
  have "replicate (cap - length xs) blank_message = blank_message # replicate (cap - Suc (length xs)) blank_message"
    using assms(2) by (simp flip: replicate_Suc add: Suc_diff_Suc)
  with assms show ?thesis by (simp add: grown_def ring_put_def Let_def)
qed

lemma grown_load: "grown cap xs r \<Longrightarrow> length xs + length ms \<le> cap \<Longrightarrow> grown cap (xs @ ms) (foldl ring_load r ms)"
proof (induction ms arbitrary: xs r)
  case (Cons m ms)
  have "grown cap (xs @ [m]) (ring_load r m)"
    using Cons.prems grown_put [OF Cons.prems(1), of m] by (simp add: ring_load_def grown_def Let_def)
  from Cons.IH [OF this] Cons.prems show ?case by simp
qed simp

lemma grown_add: "grown cap xs r \<Longrightarrow> length xs + length ms \<le> cap \<Longrightarrow> length xs + length ms \<le> 1000000 \<Longrightarrow>
    grown cap (xs @ ms) (foldl ring_add r ms)"
proof (induction ms arbitrary: xs r)
  case (Cons m ms)
  have "grown cap (xs @ [m]) (ring_add r m)"
    using Cons.prems grown_put [OF Cons.prems(1), of m] by (simp add: ring_add_def grown_def Let_def)
  from Cons.IH [OF this] Cons.prems show ?case by simp
qed simp

lemma grown_jump:
  assumes "grown cap xs r" and "length xs = 1000000" and "1000000 < cap"
  shows "ring_walk (ring_add r m) = xs @ [m] @ replicate (cap - 1000001) blank_message"
proof -
  let ?xs = "xs @ [m] @ replicate (cap - 1000001) blank_message"
  have r: "ring_add r m = r\<lparr>slots := ?xs, history_count := cap\<rparr>"
    using assms grown_put [OF assms(1), of m] by (simp add: ring_add_def grown_def Let_def)
  have "ring_walk (ring_add r m) = map (\<lambda>i. ?xs ! i) [0..<cap]"
    unfolding ring_walk_def using assms by (intro map_cong) (simp_all add: r ring_stored_def ring_index_def grown_def)
  also have "\<dots> = ?xs" using map_nth [of ?xs] assms(2,3) by simp
  finally show ?thesis .
qed

text \<open>C8: A room's in-memory history, filled from the stored rows and then by live messages, holds
  exactly the last \<open>history_capacity\<close> of all these messages, oldest first, however often the
  circular buffer has wrapped around, provided the configured \<open>history_size\<close> is at most one million or no more
  than a million messages have come.  With a larger \<open>history_size\<close>, which the configuration accepts, the message after the
  millionth sets the counter to the capacity, and the history shows all slots that were never
  written as (blank) messages.\<close>

theorem history_keeps_last:
  shows "(cap \<le> 1000000 \<or> length rows + length ms \<le> 1000000 \<longrightarrow>
       ring_walk (foldl ring_add (foldl ring_load (ring_new cap) rows) ms) = lastn cap (rows @ ms)) \<and>
     (1000000 < cap \<and> length rows + length ms = 1000000 \<longrightarrow>
       ring_walk (foldl ring_add (foldl ring_load (ring_new cap) rows) (ms @ [m])) =
         rows @ ms @ [m] @ replicate (cap - 1000001) blank_message)"
proof (intro conjI impI, goal_cases)
  case 1
  show ?case
  proof (cases "cap \<le> 1000000")
    case True
    have cap: "history_capacity (foldl ring_load (ring_new cap) rows) = cap"
      using loaded.bound_foldl [OF ring_inv_new [OF True]] by simp
    have "ring_walk (foldl ring_load (ring_new cap) rows) = lastn cap rows"
      using loaded.contents_foldl [OF ring_inv_new [OF True]] by simp
    with cap show ?thesis
      using live.contents_foldl [OF loaded.invar_foldl [OF ring_inv_new [OF True]], of rows ms]
      by (simp add: lastn_append_lastn)
  next
    case False
    then have len: "length rows + length ms \<le> 1000000" "length (rows @ ms) \<le> cap" using 1 by simp_all
    then have g: "grown cap (rows @ ms) (foldl ring_add (foldl ring_load (ring_new cap) rows) ms)" (is "grown _ _ ?r")
      using grown_add [OF grown_load [OF grown_new]] by simp
    have "ring_walk ?r = map (\<lambda>i. (rows @ ms) ! i) [0..<length (rows @ ms)]"
      unfolding ring_walk_def using g
      by (intro map_cong) (auto simp: grown_def ring_stored_def ring_index_def nth_append)
    also have "\<dots> = rows @ ms" by (rule map_nth)
    finally show ?thesis using len by (simp add: lastn_def)
  qed
next
  case 2
  then have "grown cap (rows @ ms) (foldl ring_add (foldl ring_load (ring_new cap) rows) ms)"
    using grown_add [OF grown_load [OF grown_new]] by simp
  from grown_jump [OF this] 2 show ?case by simp
qed

definition sample_message :: "int \<Rightarrow> string \<Rightarrow> string \<Rightarrow> message" where
  "sample_message i who t = \<lparr>msg_id = i, msg_sender = who, msg_text = t, msg_timestamp = 900,
     msg_deleted = False, msg_edited_at = 0\<rparr>"

theorem history_keeps_last_witness:
  "map msg_id (ring_walk (foldl ring_add (foldl ring_load (ring_new 2) [sample_message 1 ''a'' ''x''])
     [sample_message 2 ''b'' ''y'', sample_message 3 ''a'' ''z''])) = [2, 3] \<and>
   last (ring_walk (foldl ring_add (ring_new 1000002) (replicate 1000000 (sample_message 1 ''a'' ''x'') @ [sample_message 2 ''b'' ''y'']))) =
     blank_message"
proof -
  note small = history_keeps_last [where cap = 2 and rows = "[sample_message 1 ''a'' ''x'']"
    and ms = "[sample_message 2 ''b'' ''y'', sample_message 3 ''a'' ''z'']", THEN conjunct1]
  note large = history_keeps_last [where cap = 1000002 and rows = "[]" and ms = "replicate 1000000 (sample_message 1 ''a'' ''x'')"
    and m = "sample_message 2 ''b'' ''y''", THEN conjunct2]
  have "replicate (1000002 - 1000001) blank_message = [blank_message]" by simp
  then have "ring_walk (foldl ring_add (ring_new 1000002) (replicate 1000000 (sample_message 1 ''a'' ''x'') @ [sample_message 2 ''b'' ''y''])) =
      replicate 1000000 (sample_message 1 ''a'' ''x'') @ [sample_message 2 ''b'' ''y'', blank_message]"
    using large unfolding foldl.simps length_replicate by simp
  then show ?thesis using small by (simp add: sample_message_def lastn_def)
qed

text \<open>C13: Editing touches only the author's own live message: \<open>room_edit_message\<close> answers -1 exactly when
  no stored message has the id, -2 when the message is deleted, -3 when somebody else wrote it, and
  otherwise 0 after replacing the text (cut to 399 bytes) and the edit time of that one message; in
  every other case the history is unchanged.\<close>

theorem ring_edit_spec:
  assumes "ring_inv r"
  shows "case ring_find r mid of
       None \<Rightarrow> mid \<notin> msg_id ` set (ring_walk r) \<and> ring_edit now r mid who new = (-1, r)
     | Some i \<Rightarrow>
         let m = ring_walk r ! i; (rc, r') = ring_edit now r mid who new in
         i < length (ring_walk r) \<and> msg_id m = mid \<and>
         rc = (if msg_deleted m then -2 else if msg_sender m \<noteq> who then -3 else 0) \<and>
         ring_walk r' = (if rc = 0
            then (ring_walk r)[i := m\<lparr>msg_text := take 399 new, msg_edited_at := now\<rparr>] else ring_walk r)"
proof (cases rule: ring_edit_cases [of r mid now who new])
  case missing
  then show ?thesis using ring_find_None [of r mid] by simp
next
  case (ok i)
  then show ?thesis
    using ring_find_Some [OF ok(1)] ring_walk_update [OF assms] by (simp add: strncpy_term_def)
qed (use ring_find_Some in \<open>simp_all add: Let_def\<close>)

theorem ring_edit_spec_witness:
  "let r = ring_add (ring_new 2) (sample_message 5 ''ann'' ''hi'') in
   ring_inv r \<and> fst (ring_edit 77 r 5 ''bob'' ''no'') = -3 \<and>
   map msg_text (ring_walk (snd (ring_edit 77 r 5 ''ann'' ''ok''))) = [''ok'']"
proof -
  let ?r = "ring_add (ring_new 2) (sample_message 5 ''ann'' ''hi'')"
  have inv: "ring_inv ?r" by (simp add: ring_inv_add ring_inv_new)
  have walk: "ring_walk ?r = [sample_message 5 ''ann'' ''hi'']"
    by (simp add: ring_walk_add ring_inv_new)
  have "ring_find ?r 5 \<noteq> None" by (simp add: ring_find_None walk) (simp add: sample_message_def)
  then obtain i where find: "ring_find ?r 5 = Some i" by auto
  then have "i = 0" using ring_find_Some(1) [OF find] walk length_ring_walk [of ?r] by simp
  with find inv ring_edit_spec [OF inv, of 5 77 "''bob''" "''no''"] ring_edit_spec [OF inv, of 5 77 "''ann''" "''ok''"]
  show ?thesis by (simp add: walk Let_def split: prod.splits) (simp add: sample_message_def)
qed

text \<open>C14: Deleting is final: after a successful delete (by the author or a room admin) the message shows
  the text "[deleted]", every later edit or delete of that id by anybody answers -2 and changes
  nothing, and no other message is touched.\<close>

theorem ring_delete_final:
  assumes "ring_inv r" and "ring_delete r mid who adm = (0, r')"
  shows "\<exists>i. ring_find r mid = Some i \<and> (msg_sender (ring_walk r ! i) = who \<or> adm) \<and>
     ring_walk r' = (ring_walk r)[i := (ring_walk r ! i)\<lparr>msg_deleted := True, msg_text := ''[deleted]''\<rparr>] \<and>
     (\<forall>now who' new adm'. ring_edit now r' mid who' new = (-2, r') \<and> ring_delete r' mid who' adm' = (-2, r'))"
  using assms(2)
proof (cases rule: ring_delete_cases [of r mid who adm])
  case (ok i)
  let ?m = "(ring_walk r ! i)\<lparr>msg_deleted := True, msg_text := ''[deleted]''\<rparr>"
  have r': "r' = r\<lparr>slots := (slots r)[ring_index r i := ?m]\<rparr>" using ok(4) assms(2) by simp
  have i: "i < ring_stored r" using ring_find_Some(1) [OF ok(1)] .
  have find: "ring_find r' mid = Some i" using ring_find_update [OF assms(1) i, of ?m] ok(1) r' by simp
  have walk: "ring_walk r' = (ring_walk r)[i := ?m]" using ring_walk_update [OF assms(1) i] r' by simp
  have "slots r' ! ring_index r' i = ?m"
    using ring_find_Some(1) [OF find] walk i nth_ring_walk [of i r'] by simp
  then have "ring_edit now r' mid who' new = (-2, r')" "ring_delete r' mid who' adm' = (-2, r')"
    for now who' new adm' by (simp_all add: ring_edit_def ring_delete_def find Let_def)
  with ok walk show ?thesis by blast
qed auto

theorem ring_delete_final_witness:
  "let r = ring_add (ring_new 2) (sample_message 5 ''ann'' ''hi'');
       r' = snd (ring_delete r 5 ''adm'' True) in
   fst (ring_delete r 5 ''adm'' True) = 0 \<and> ring_edit 9 r' 5 ''ann'' ''x'' = (-2, r')"
proof -
  let ?r = "ring_add (ring_new 2) (sample_message 5 ''ann'' ''hi'')"
  have inv: "ring_inv ?r" by (simp add: ring_inv_add ring_inv_new)
  have ok: "fst (ring_delete ?r 5 ''adm'' True) = 0"
    by (simp add: ring_delete_def ring_find_def ring_walk_def ring_stored_def ring_index_def ring_add_def
        ring_new_def ring_put_def sample_message_def scan.simps Let_def)
  then have "ring_delete ?r 5 ''adm'' True = (0, snd (ring_delete ?r 5 ''adm'' True))"
    by (simp add: prod_eq_iff)
  from ring_delete_final [OF inv this] ok show ?thesis by (auto simp: Let_def)
qed

end
