(* ===== verification/Db.thy ===== *)
theory Db
  imports Environment History
begin

text \<open>
  The SQLite layer (\<open>src/db.c\<close>, \<open>include/db.h\<close>): the tables \<open>messages\<close>, \<open>users\<close>,
  \<open>sessions\<close> and \<open>rooms\<close> of its schema and every operation on them, with the statement each
  executes.  A handle that is \<open>NULL\<close> is \<open>db_handle = False\<close>.  The results are the C result
  codes.  The tables that the other modules keep in the same file are further fields of the record
  \<open>store\<close>; their operations are in the theory \<open>Moderation\<close>.
\<close>

section \<open>Rows and tables\<close>

text \<open>A row of \<open>messages\<close>; \<open>db_message_t\<close> is a row without its room.\<close>

record msg_row =
  row_id :: int
  row_room :: string
  row_sender :: string
  row_text :: string
  row_timestamp :: int
  row_edited_at :: int
  row_deleted :: bool

datatype room_role = ROLE_MEMBER | ROLE_MODERATOR | ROLE_ADMIN | ROLE_OWNER

record store =
  db_handle :: bool
  msgs :: "msg_row list"
  msg_seq :: int
  users :: "(string, string) table"
  sessions :: "(string, session_row) table"
  rooms_tab :: "(string, string \<times> int) table"
  receipt_handle :: bool
  receipts :: "(int \<times> string, int) table"
  block_handle :: bool
  blocks :: "(string \<times> string, int) table"
  mutes :: "(string \<times> string, string \<times> int) table"
  bans :: "(string \<times> string, string \<times> int) table"
  perm_handle :: bool
  roles :: "(string \<times> string, room_role) table"
  invite_handle :: bool
  invites :: "(string \<times> string, string \<times> int) table"
  session_handle :: bool

abbreviation SESSION_EXPIRE_SEC :: int where "SESSION_EXPIRE_SEC \<equiv> 86400"

section \<open>Digests and tokens\<close>

definition hex_digit :: "nat \<Rightarrow> char" where
  "hex_digit d = (if d < 10 then char_of (48 + d) else char_of (87 + d))"

text \<open>The loops \<open>snprintf(out + i * 2, 3, "%02x", b[i])\<close>.\<close>

definition hex2 :: "8 word \<Rightarrow> string" where
  "hex2 b = [hex_digit (unat b div 16), hex_digit (unat b mod 16)]"

definition hex_bytes :: "8 word list \<Rightarrow> string" where
  "hex_bytes bs = concat (map hex2 bs)"

definition sha256_hex :: "env \<Rightarrow> string \<Rightarrow> string" where
  "sha256_hex e input = take 64 (hex_bytes (env_sha256 e input))"

text \<open>
  \<open>db_generate_token(out, out_size)\<close>, the \<open>n\<close>-th request to the random source; \<open>None\<close> is
  the result -1.
\<close>

definition db_generate_token :: "env \<Rightarrow> nat \<Rightarrow> nat \<Rightarrow> string option" where
  "db_generate_token e n out_size =
     (if out_size < 65 then None
      else case env_rand_bytes e n of
        None \<Rightarrow> None
      | Some bs \<Rightarrow> Some (take 64 (hex_bytes bs)))"

section \<open>Messages\<close>

definition db_save_message :: "env \<Rightarrow> store \<Rightarrow> string \<Rightarrow> string \<Rightarrow> string \<Rightarrow> int \<times> store" where
  "db_save_message e db rm sender t =
     (if \<not> db_handle db then (-1, db)
      else case env_sql e Insert_message of
        Prepare_fails \<Rightarrow> (-1, db)
      | Step_fails _ \<Rightarrow> (-1, db)
      | Completes \<Rightarrow>
          if msg_seq db \<ge> 2 ^ 63 - 1 then (-1, db)
          else let mid = msg_seq db + 1 in
            (mid, db\<lparr>msg_seq := mid,
               msgs := msgs db @ [\<lparr>row_id = mid, row_room = rm, row_sender = sender, row_text = t,
                 row_timestamp = env_now e, row_edited_at = 0, row_deleted = False\<rparr>]\<rparr>))"

text \<open>The copy of a result row into a \<open>db_message_t\<close>.\<close>

definition fetch_row :: "msg_row \<Rightarrow> msg_row" where
  "fetch_row r = r\<lparr>row_sender := strncpy_term 32 (row_sender r), row_text := strncpy_term 400 (row_text r)\<rparr>"

text \<open>\<open>WHERE room = ? ORDER BY id DESC LIMIT ?\<close>, with or without \<open>AND id < ?\<close>.\<close>

definition ids_desc :: "msg_row list \<Rightarrow> msg_row list" where
  "ids_desc rs = rev (sort_key row_id rs)"

definition select_latest :: "store \<Rightarrow> string \<Rightarrow> nat \<Rightarrow> msg_row list" where
  "select_latest db rm n = take n (ids_desc (filter (\<lambda>r. row_room r = rm) (msgs db)))"

definition select_before :: "store \<Rightarrow> string \<Rightarrow> int \<Rightarrow> nat \<Rightarrow> msg_row list" where
  "select_before db rm before_id n =
     take n (ids_desc (filter (\<lambda>r. row_room r = rm \<and> row_id r < before_id) (msgs db)))"

definition db_load_history :: "env \<Rightarrow> store \<Rightarrow> string \<Rightarrow> int \<Rightarrow> msg_row list" where
  "db_load_history e db rm limit =
     (if \<not> db_handle db \<or> limit \<le> 0 then []
      else map fetch_row (take (nat limit)
        (delivered (env_sql e Select_history) (sort_key row_id (select_latest db rm (nat limit))))))"

text \<open>
  \<open>db_load_history_before\<close>: the rows in ascending order and the next cursor.  The loop fills
  \<open>tmp\<close>, keeps the smallest id, then reverses; an early return leaves the cursor as it was.
\<close>

fun smallest_loop :: "nat \<Rightarrow> int \<Rightarrow> msg_row list \<Rightarrow> int" where
  "smallest_loop count smallest [] = smallest"
| "smallest_loop count smallest (r # rs) =
     smallest_loop (Suc count) (if count = 0 \<or> row_id r < smallest then row_id r else smallest) rs"

definition db_load_history_before ::
  "env \<Rightarrow> store \<Rightarrow> string \<Rightarrow> int \<Rightarrow> int \<Rightarrow> int \<Rightarrow> msg_row list \<times> int" where
  "db_load_history_before e db rm before_id limit next_cursor =
     (if \<not> db_handle db \<or> limit \<le> 0 then ([], next_cursor)
      else
        let st = (if before_id \<le> 0 then Select_history_latest else Select_history_before);
            rows = (if before_id \<le> 0 then select_latest db rm (nat limit)
                    else select_before db rm before_id (nat limit)) in
        if env_sql e st = Prepare_fails then ([], next_cursor)
        else
          let cut = (if limit > 256 then 256 else limit);
              tmp = map fetch_row (take (nat cut) (delivered (env_sql e st) rows));
              smallest = smallest_loop 0 0 tmp in
          (rev tmp, if length tmp > 0 then smallest else 0))"

definition db_edit_message :: "env \<Rightarrow> store \<Rightarrow> int \<Rightarrow> string \<Rightarrow> int \<times> store" where
  "db_edit_message e db mid new_text =
     (if \<not> db_handle db \<or> mid \<le> 0 then (-1, db)
      else if env_sql e Update_message \<noteq> Completes then (-1, db)
      else
        (if \<exists>r \<in> set (msgs db). row_id r = mid \<and> \<not> row_deleted r then 0 else -1,
         db\<lparr>msgs := map (\<lambda>r. if row_id r = mid \<and> \<not> row_deleted r
              then r\<lparr>row_text := new_text, row_edited_at := env_now e\<rparr> else r) (msgs db)\<rparr>))"

definition db_delete_message :: "env \<Rightarrow> store \<Rightarrow> int \<Rightarrow> int \<times> store" where
  "db_delete_message e db mid =
     (if \<not> db_handle db \<or> mid \<le> 0 then (-1, db)
      else if env_sql e Mark_message_deleted \<noteq> Completes then (-1, db)
      else
        (if \<exists>r \<in> set (msgs db). row_id r = mid \<and> \<not> row_deleted r then 0 else -1,
         db\<lparr>msgs := map (\<lambda>r. if row_id r = mid \<and> \<not> row_deleted r
              then r\<lparr>row_deleted := True, row_text := ''[deleted]''\<rparr> else r) (msgs db)\<rparr>))"

section \<open>Users\<close>

definition db_register_user :: "env \<Rightarrow> store \<Rightarrow> string \<Rightarrow> string \<Rightarrow> int \<times> store" where
  "db_register_user e db username password =
     (if \<not> db_handle db then (-2, db)
      else case env_sql e Insert_user of
        Prepare_fails \<Rightarrow> (-2, db)
      | Step_fails _ \<Rightarrow> (-2, db)
      | Completes \<Rightarrow>
          (case insert_row username (sha256_hex e password) (users db) of
             None \<Rightarrow> (-1, db)
           | Some t \<Rightarrow> (0, db\<lparr>users := t\<rparr>)))"

definition db_verify_user :: "env \<Rightarrow> store \<Rightarrow> string \<Rightarrow> string \<Rightarrow> int" where
  "db_verify_user e db username password =
     (if \<not> db_handle db then -3
      else if env_sql e Select_password = Prepare_fails then -3
      else case delivered (env_sql e Select_password)
          (case map_of (users db) username of None \<Rightarrow> [] | Some h \<Rightarrow> [h]) of
        [] \<Rightarrow> -1
      | stored_hash # _ \<Rightarrow> if stored_hash = sha256_hex e password then 0 else -2)"

definition db_user_exists :: "env \<Rightarrow> store \<Rightarrow> string \<Rightarrow> bool" where
  "db_user_exists e db username \<longleftrightarrow>
     db_handle db \<and> env_sql e Select_user \<noteq> Prepare_fails \<and>
     delivered (env_sql e Select_user)
       (case map_of (users db) username of None \<Rightarrow> [] | Some h \<Rightarrow> [h]) \<noteq> []"

section \<open>Sessions\<close>

text \<open>
  \<open>db_create_session\<close> calls itself again when the token is already a key, so it ends only if the
  random source eventually gives a new token: \<open>None\<close> below is the run that never returns.  The
  argument \<open>n\<close> counts the requests to the random source; \<open>Some (None, db)\<close> is the result -1.
\<close>

partial_function (option) db_create_session ::
  "env \<Rightarrow> store \<Rightarrow> nat \<Rightarrow> string \<Rightarrow> nat \<Rightarrow> (string option \<times> store) option" where
  "db_create_session e db n username out_size =
     (if \<not> db_handle db \<or> out_size < 65 then Some (None, db)
      else case db_generate_token e n 65 of
        None \<Rightarrow> Some (None, db)
      | Some tok \<Rightarrow>
          (case env_sql e Insert_session of
             Prepare_fails \<Rightarrow> Some (None, db)
           | Step_fails _ \<Rightarrow> Some (None, db)
           | Completes \<Rightarrow>
               (case insert_row tok \<lparr>ses_username = username, ses_created_at = env_now e,
                    ses_expires_at = env_now e + SESSION_EXPIRE_SEC\<rparr> (sessions db) of
                  None \<Rightarrow> db_create_session e db (Suc n) username out_size
                | Some t \<Rightarrow> Some (Some (strncpy_term out_size tok), db\<lparr>sessions := t\<rparr>))))"

declare db_create_session.simps [code]

definition db_delete_session :: "env \<Rightarrow> store \<Rightarrow> string \<Rightarrow> int \<times> store" where
  "db_delete_session e db tok =
     (if \<not> db_handle db then (-1, db)
      else if env_sql e Delete_session \<noteq> Completes then (-1, db)
      else (0, db\<lparr>sessions := delete_row tok (sessions db)\<rparr>))"

text \<open>\<open>db_validate_session\<close>: result code, \<open>username_out\<close> (when written) and the database.\<close>

definition db_validate_session ::
  "env \<Rightarrow> store \<Rightarrow> string \<Rightarrow> nat \<Rightarrow> int \<times> string option \<times> store" where
  "db_validate_session e db tok username_size =
     (if \<not> db_handle db then (-3, None, db)
      else if length tok = 0 then (-1, None, db)
      else if env_sql e Select_session = Prepare_fails then (-3, None, db)
      else case delivered (env_sql e Select_session)
          (case map_of (sessions db) tok of None \<Rightarrow> [] | Some r \<Rightarrow> [r]) of
        [] \<Rightarrow> (-1, None, db)
      | r # _ \<Rightarrow>
          if ses_expires_at r < env_now e then (-2, None, snd (db_delete_session e db tok))
          else (0, Some (strncpy_term username_size (ses_username r)), db))"

definition db_cleanup_expired_sessions :: "env \<Rightarrow> store \<Rightarrow> int \<times> store" where
  "db_cleanup_expired_sessions e db =
     (if \<not> db_handle db then (-1, db)
      else if env_sql e Delete_expired \<noteq> Completes then (-1, db)
      else (int (length (filter (\<lambda>r. ses_expires_at (snd r) < env_now e) (sessions db))),
            db\<lparr>sessions := filter (\<lambda>r. \<not> ses_expires_at (snd r) < env_now e) (sessions db)\<rparr>))"

section \<open>Room rows\<close>

definition db_create_room :: "env \<Rightarrow> store \<Rightarrow> string \<Rightarrow> string \<Rightarrow> int \<times> store" where
  "db_create_room e db rm owner =
     (if \<not> db_handle db then (-1, db)
      else if env_sql e Insert_room \<noteq> Completes then (-1, db)
      else case insert_row rm (owner, env_now e) (rooms_tab db) of
        None \<Rightarrow> (-1, db)
      | Some t \<Rightarrow> (0, db\<lparr>rooms_tab := t\<rparr>))"

definition db_delete_room :: "env \<Rightarrow> store \<Rightarrow> string \<Rightarrow> int \<times> store" where
  "db_delete_room e db rm =
     (if \<not> db_handle db then (-1, db)
      else if env_sql e Delete_room_row \<noteq> Completes then (-1, db)
      else (0, db\<lparr>rooms_tab := delete_row rm (rooms_tab db)\<rparr>))"

definition db_load_rooms :: "env \<Rightarrow> store \<Rightarrow> int \<Rightarrow> string list" where
  "db_load_rooms e db max_rooms =
     (if \<not> db_handle db \<or> max_rooms \<le> 0 then []
      else map (strncpy_term 32) (take (nat max_rooms)
        (delivered (env_sql e Select_rooms)
          (take (nat max_rooms) (map fst (sort_key (snd \<circ> snd) (env_scan_rooms e (rooms_tab db))))))))"

text \<open>
  \<open>LIKE\<close>: \<open>%\<close> stands for any characters, \<open>_\<close> for one, letters match in either case.  The query is put into the
  pattern as it is, so that its own wildcards count.
\<close>

definition fold_case :: "char \<Rightarrow> char" where
  "fold_case c = (let n = (of_char c :: nat) in if 65 \<le> n \<and> n \<le> 90 then char_of (n + 32) else c)"

fun sql_like :: "string \<Rightarrow> string \<Rightarrow> bool" where
  "sql_like [] s \<longleftrightarrow> s = []"
| "sql_like (p # ps) [] \<longleftrightarrow> p = CHR ''%'' \<and> sql_like ps []"
| "sql_like (p # ps) (c # cs) \<longleftrightarrow>
     (if p = CHR ''%'' then sql_like ps (c # cs) \<or> sql_like (p # ps) cs
      else (p = CHR ''_'' \<or> fold_case p = fold_case c) \<and> sql_like ps cs)"

definition db_search_messages :: "env \<Rightarrow> store \<Rightarrow> string \<Rightarrow> string \<Rightarrow> int \<Rightarrow> msg_row list" where
  "db_search_messages e db rm query limit =
     (if \<not> db_handle db \<or> limit \<le> 0 \<or> env_sql e Search_messages = Prepare_fails then []
      else
        let pattern = snprintf_out 512 (CHR ''%'' # query @ [CHR ''%'']) in
        map fetch_row (take (nat limit) (delivered (env_sql e Search_messages)
          (take (nat limit) (ids_desc (filter (\<lambda>r. row_room r = rm \<and> sql_like pattern (row_text r) \<and> \<not> row_deleted r) (msgs db)))))))"

text \<open>Opening and closing; a handle that could not be opened stays set.\<close>

definition db_open :: "env \<Rightarrow> store \<Rightarrow> int \<times> store" where
  "db_open e db = (if env_open e Main_db = Opens then 0 else -1, db\<lparr>db_handle := True\<rparr>)"

definition db_close :: "store \<Rightarrow> store" where
  "db_close db = db\<lparr>db_handle := False\<rparr>"

section \<open>The invariant of the tables\<close>

text \<open>
  Message ids are positive, strictly increasing in the order of insertion and not above the sequence
  counter of \<open>AUTOINCREMENT\<close>; the other tables respect their primary keys.
\<close>

definition store_inv :: "store \<Rightarrow> bool" where
  "store_inv db \<longleftrightarrow>
     sorted_wrt (<) (map row_id (msgs db)) \<and> (\<forall>r \<in> set (msgs db). 0 < row_id r \<and> row_id r \<le> msg_seq db) \<and>
     0 \<le> msg_seq db \<and> table_inv (users db) \<and> table_inv (sessions db) \<and> table_inv (rooms_tab db) \<and>
     table_inv (receipts db) \<and> table_inv (blocks db) \<and> table_inv (mutes db) \<and> table_inv (bans db) \<and>
     table_inv (roles db) \<and> table_inv (invites db)"

definition empty_store :: store where
  "empty_store = \<lparr>db_handle = True, msgs = [], msg_seq = 0, users = [], sessions = [], rooms_tab = [],
     receipt_handle = True, receipts = [], block_handle = True, blocks = [], mutes = [], bans = [],
     perm_handle = True, roles = [], invite_handle = True, invites = [], session_handle = True\<rparr>"

lemma store_inv_empty: "store_inv empty_store"
  by (simp add: store_inv_def empty_store_def)

lemma store_inv_save: "store_inv db \<Longrightarrow> store_inv (snd (db_save_message e db rm sender t))"
  by (fastforce simp: store_inv_def db_save_message_def Let_def sorted_wrt_append
      split: sql_outcome.split)

lemma store_inv_map_msgs:
  assumes "\<And>r. row_id (f r) = row_id r" and "store_inv db"
  shows "store_inv (db\<lparr>msgs := map f (msgs db)\<rparr>)"
  using assms by (auto simp: store_inv_def comp_def)

lemma store_inv_edit: "store_inv db \<Longrightarrow> store_inv (snd (db_edit_message e db mid t))"
  by (simp add: db_edit_message_def store_inv_map_msgs)

lemma store_inv_delete: "store_inv db \<Longrightarrow> store_inv (snd (db_delete_message e db mid))"
  by (simp add: db_delete_message_def store_inv_map_msgs)

lemma store_inv_users: "store_inv db \<Longrightarrow> table_inv t \<Longrightarrow> store_inv (db\<lparr>users := t\<rparr>)"
  by (simp add: store_inv_def)

lemma store_inv_sessions: "store_inv db \<Longrightarrow> table_inv t \<Longrightarrow> store_inv (db\<lparr>sessions := t\<rparr>)"
  by (simp add: store_inv_def)

lemma store_inv_rooms_tab: "store_inv db \<Longrightarrow> table_inv t \<Longrightarrow> store_inv (db\<lparr>rooms_tab := t\<rparr>)"
  by (simp add: store_inv_def)

lemma store_inv_tables:
  assumes "store_inv db"
  shows "table_inv (users db)" and "table_inv (sessions db)" and "table_inv (rooms_tab db)"
    and "table_inv (receipts db)" and "table_inv (blocks db)" and "table_inv (mutes db)"
    and "table_inv (bans db)" and "table_inv (roles db)" and "table_inv (invites db)"
  using assms by (simp_all add: store_inv_def)

lemma store_inv_register: "store_inv db \<Longrightarrow> store_inv (snd (db_register_user e db u pw))"
  by (auto simp: db_register_user_def store_inv_tables
      intro!: store_inv_users intro: table_inv_insert_row split: sql_outcome.split option.split)

lemma store_inv_delete_session: "store_inv db \<Longrightarrow> store_inv (snd (db_delete_session e db tok))"
  by (auto simp: db_delete_session_def store_inv_tables intro!: store_inv_sessions table_inv_delete_row)

lemma store_inv_validate: "store_inv db \<Longrightarrow> store_inv (snd (snd (db_validate_session e db tok n)))"
  by (auto simp: db_validate_session_def store_inv_delete_session split: list.split option.split)

lemma store_inv_cleanup: "store_inv db \<Longrightarrow> store_inv (snd (db_cleanup_expired_sessions e db))"
  by (auto simp: db_cleanup_expired_sessions_def store_inv_tables
      intro!: store_inv_sessions table_inv_filter)

lemma store_inv_create_room: "store_inv db \<Longrightarrow> store_inv (snd (db_create_room e db rm u))"
  by (auto simp: db_create_room_def store_inv_tables
      intro!: store_inv_rooms_tab intro: table_inv_insert_row split: option.split)

lemma store_inv_delete_room: "store_inv db \<Longrightarrow> store_inv (snd (db_delete_room e db rm))"
  by (auto simp: db_delete_room_def store_inv_tables intro!: store_inv_rooms_tab table_inv_delete_row)

section \<open>Paging through the history\<close>

text \<open>The messages of a room that a cursor still has before it; a cursor that is not positive has all.\<close>

definition before_cursor :: "store \<Rightarrow> string \<Rightarrow> int \<Rightarrow> msg_row list" where
  "before_cursor db rm c = filter (\<lambda>r. row_room r = rm \<and> (c \<le> 0 \<or> row_id r < c)) (msgs db)"

text \<open>A reader that follows the cursors until a page is empty, as the clients of \<open>HISTORY\<close> do.\<close>

fun read_pages :: "env \<Rightarrow> store \<Rightarrow> string \<Rightarrow> int \<Rightarrow> nat \<Rightarrow> int \<Rightarrow> msg_row list option" where
  "read_pages e db rm limit 0 c = None"
| "read_pages e db rm limit (Suc fuel) c =
     (case db_load_history_before e db rm c limit 0 of
        (rows, next_c) \<Rightarrow>
          if rows = [] then Some []
          else map_option (\<lambda>older. older @ rows) (read_pages e db rm limit fuel next_c))"

lemma sorted_before_cursor:
  "store_inv db \<Longrightarrow> sorted_wrt (<) (map row_id (before_cursor db rm c))"
  by (auto simp: store_inv_def before_cursor_def sorted_wrt_map intro: sorted_wrt_filter)

lemma sort_key_row_id:
  "sorted_wrt (<) (map row_id rs) \<Longrightarrow> sort_key row_id rs = rs"
  by (intro sort_key_id_if_sorted) (simp add: strict_sorted_iff)

lemma select_cursor:
  assumes "store_inv db"
  shows "(if c \<le> 0 then select_latest db rm n else select_before db rm c n) =
     rev (lastn n (before_cursor db rm c))"
  using sort_key_row_id [OF sorted_before_cursor [OF assms, of rm c]]
  by (auto simp: select_latest_def select_before_def ids_desc_def before_cursor_def lastn_def take_rev)

lemma smallest_loop_desc:
  "sorted_wrt (>) (map row_id rs) \<Longrightarrow> (\<forall>r \<in> set rs. count = 0 \<or> row_id r < s) \<Longrightarrow>
     smallest_loop count s rs = (if rs = [] then s else row_id (last rs))"
  by (induction count s rs rule: smallest_loop.induct) auto

lemma row_id_fetch [simp]: "row_id (fetch_row r) = row_id r"
  by (simp add: fetch_row_def)

text \<open>One page: the newest messages before the cursor in ascending order, and its first id.\<close>

lemma load_page:
  assumes inv: "store_inv db" and open_db: "db_handle db" and limit: "0 < limit" "limit \<le> 256"
    and engine: "sql_works e Select_history_latest" "sql_works e Select_history_before"
  shows "db_load_history_before e db rm c limit d =
     (let page = lastn (nat limit) (before_cursor db rm c) in
      (map fetch_row page, if page = [] then 0 else row_id (hd page)))"
proof -
  let ?page = "lastn (nat limit) (before_cursor db rm c)"
    and ?st = "if c \<le> 0 then Select_history_latest else Select_history_before"
  have eng: "env_sql e ?st = Completes" using engine by (simp add: sql_works_def)
  have "sorted_wrt (<) (map row_id ?page)"
    using sorted_before_cursor [OF inv] by (simp add: map_lastn sorted_wrt_lastn)
  then have "sorted_wrt (>) (map row_id (map fetch_row (rev ?page)))"
    by (simp add: sorted_wrt_rev comp_def flip: rev_map)
  from smallest_loop_desc [OF this, of 0 0]
  have small: "?page \<noteq> [] \<Longrightarrow> smallest_loop 0 0 (map fetch_row (rev ?page)) = row_id (hd ?page)"
    by (simp add: last_map last_rev)
  have rows: "take (nat limit) (rev ?page) = rev ?page" by simp
  show ?thesis
    unfolding db_load_history_before_def Let_def eng select_cursor [OF inv]
    using open_db limit small rows by (auto simp: rev_map)
qed

lemma filter_before_first:
  fixes f :: "'a \<Rightarrow> int"
  assumes "sorted_wrt (<) (map f xs)" and "0 < n" and "xs \<noteq> []"
  shows "filter (\<lambda>x. f x < f (hd (lastn n xs))) xs = take (length xs - n) xs"
proof -
  let ?k = "length xs - n"
  have split: "xs = take ?k xs @ lastn n xs" by (simp add: lastn_def)
  have "sorted_wrt (<) (map f (take ?k xs) @ map f (lastn n xs))"
    using assms(1) split by (metis map_append)
  then have srt: "\<forall>x \<in> set (take ?k xs). \<forall>y \<in> set (lastn n xs). f x < f y"
    and tail: "sorted_wrt (<) (map f (lastn n xs))"
    by (auto simp: sorted_wrt_append)
  obtain y ys where y: "lastn n xs = y # ys" using assms by (cases "lastn n xs") auto
  from srt have low: "filter (\<lambda>x. f x < f y) (take ?k xs) = take ?k xs" by (simp add: y)
  have high: "filter (\<lambda>x. f x < f y) (y # ys) = []"
    using tail by (auto simp: y filter_empty_conv dest: less_asym)
  have "filter (\<lambda>x. f x < f y) xs = filter (\<lambda>x. f x < f y) (take ?k xs @ y # ys)"
    using split y by simp
  then show ?thesis using low high y by simp
qed

lemma before_next_cursor:
  assumes "store_inv db" and "0 < n" and "before_cursor db rm c \<noteq> []"
  shows "before_cursor db rm (row_id (hd (lastn n (before_cursor db rm c)))) =
     take (length (before_cursor db rm c) - n) (before_cursor db rm c)"
proof -
  let ?b = "before_cursor db rm c"
  let ?h = "hd (lastn n ?b)"
  have "?h \<in> set ?b"
    using assms hd_in_set [of "lastn n ?b"] set_lastn [of n ?b] by auto
  then have h: "0 < row_id ?h" "c \<le> 0 \<or> row_id ?h < c"
    using assms(1) by (auto simp: store_inv_def before_cursor_def)
  then have "before_cursor db rm (row_id ?h) = filter (\<lambda>r. row_id r < row_id ?h) ?b"
    by (auto simp: before_cursor_def intro!: filter_cong)
  with filter_before_first [OF sorted_before_cursor [OF assms(1)] assms(2, 3)] show ?thesis by simp
qed

lemma read_pages_complete:
  assumes "store_inv db" and "db_handle db" and "0 < limit" and "limit \<le> 256"
    and "sql_works e Select_history_latest" and "sql_works e Select_history_before"
  shows "length (before_cursor db rm c) < fuel \<Longrightarrow>
     read_pages e db rm limit fuel c = Some (map fetch_row (before_cursor db rm c))"
proof (induction fuel arbitrary: c)
  case (Suc fuel)
  let ?b = "before_cursor db rm c" and ?n = "nat limit"
  note page = load_page [OF assms, of rm c 0]
  show ?case
  proof (cases "?b = []")
    case True
    then show ?thesis by (simp add: page Let_def)
  next
    case False
    let ?next = "row_id (hd (lastn ?n ?b))"
    have older: "before_cursor db rm ?next = take (length ?b - ?n) ?b"
      using before_next_cursor [OF assms(1) _ False] assms(3) by simp
    with Suc.prems assms(3) False have "length (before_cursor db rm ?next) < fuel"
      by (cases ?b) auto
    from Suc.IH [OF this] have "read_pages e db rm limit (Suc fuel) c =
        Some (map fetch_row (take (length ?b - ?n) ?b) @ map fetch_row (lastn ?n ?b))"
      using False assms(3) older by (simp add: page Let_def)
    then show ?thesis by (simp add: lastn_def flip: map_append)
  qed
qed simp

text \<open>C11: A client that reads a room's stored history with \<open>HISTORY\<close>, page after page, each time from
  the cursor the server returned, gets every stored message of the room exactly once and in order,
  after at most one page per message and a last empty one, for every page size up to 256.\<close>

theorem history_paging_complete:
  assumes "store_inv db" and "db_handle db" and "0 < limit" and "limit \<le> 256"
    and "sql_works e Select_history_latest" and "sql_works e Select_history_before"
  shows "read_pages e db rm limit (Suc (length (msgs db))) 0 =
     Some (map fetch_row (filter (\<lambda>r. row_room r = rm) (msgs db)))"
  using read_pages_complete [OF assms, of rm 0 "Suc (length (msgs db))"]
  by (simp add: before_cursor_def less_Suc_eq_le)

definition sample_store :: store where
  "sample_store = empty_store\<lparr>msg_seq := 3, msgs :=
     [\<lparr>row_id = 1, row_room = ''lobby'', row_sender = ''ann'', row_text = ''hi'', row_timestamp = 900,
        row_edited_at = 0, row_deleted = False\<rparr>,
      \<lparr>row_id = 2, row_room = ''den'', row_sender = ''bob'', row_text = ''yo'', row_timestamp = 901,
        row_edited_at = 0, row_deleted = False\<rparr>,
      \<lparr>row_id = 3, row_room = ''lobby'', row_sender = ''bob'', row_text = ''bye'', row_timestamp = 902,
        row_edited_at = 0, row_deleted = False\<rparr>]\<rparr>"

lemma sample_store_inv: "store_inv sample_store" "db_handle sample_store"
  by (simp_all add: sample_store_def store_inv_def empty_store_def)

theorem history_paging_complete_witness:
  "map_option (map row_id) (read_pages (sample_env 1 2) sample_store ''lobby'' 1 4 0) = Some [1, 3]"
  using history_paging_complete [OF sample_store_inv, of 1 "sample_env 1 2" "''lobby''"]
  by (simp add: sample_store_def empty_store_def fetch_row_def eval_nat_numeral)

section \<open>Passwords\<close>

text \<open>C21: A registration that succeeds makes exactly the passwords with the same SHA-256 digest log in:
  afterwards a login of that user gives 0 for them and -2 (wrong password) for every other one, every
  other user's logins are unchanged, and a second registration of the name is refused with -1.\<close>

theorem register_verify:
  assumes "db_register_user e db u pw = (0, db')"
    and "sql_works e' Select_password" and "sql_works e' Insert_user"
  shows "map_of (users db) u = None \<and>
     (\<forall>v pw'. db_verify_user e' db' v pw' =
        (if v = u then (if sha256_hex e pw = sha256_hex e' pw' then 0 else -2)
         else db_verify_user e' db v pw')) \<and>
     (\<forall>pw''. fst (db_register_user e' db' u pw'') = -1)"
  using assms
  by (auto simp: db_register_user_def db_verify_user_def sql_works_def insert_row_def map_add_def
      split: if_splits sql_outcome.splits option.splits)

theorem register_verify_witness:
  "let r = db_register_user (sample_env 1 2) sample_store ''ann'' ''secret'' in
   fst r = 0 \<and> db_verify_user (sample_env 1 2) (snd r) ''ann'' ''secret'' = 0 \<and>
   db_verify_user (sample_env 1 2) (snd r) ''bob'' ''x'' = db_verify_user (sample_env 1 2) sample_store ''bob'' ''x''"
proof -
  let ?r = "db_register_user (sample_env 1 2) sample_store ''ann'' ''secret''"
  have ok: "fst ?r = 0"
    by (simp add: db_register_user_def sample_store_def empty_store_def sample_env_def insert_row_def)
  then have "?r = (0, snd ?r)" by (simp add: prod_eq_iff)
  from register_verify [OF this, of "sample_env 1 2"] ok show ?thesis by (simp add: Let_def)
qed

section \<open>Sessions: creation ends, and a token is good for a day\<close>

text \<open>The token of the \<open>n\<close>-th request is of no use when it is already a key of the table.\<close>

definition token_taken :: "env \<Rightarrow> store \<Rightarrow> nat \<Rightarrow> bool" where
  "token_taken e db n \<longleftrightarrow>
     (case db_generate_token e n 65 of None \<Rightarrow> False | Some tok \<Rightarrow> map_of (sessions db) tok \<noteq> None)"

lemma create_session_skip:
  assumes "token_taken e db n" and "sql_works e Insert_session" and "db_handle db" and "65 \<le> size_out"
  shows "db_create_session e db n u size_out = db_create_session e db (Suc n) u size_out"
  using assms
  by (subst db_create_session.simps)
    (auto simp: token_taken_def sql_works_def insert_row_def split: option.splits)

lemma create_session_first_free:
  assumes "\<And>k. n \<le> k \<Longrightarrow> k < m \<Longrightarrow> token_taken e db k" and "n \<le> m"
    and "sql_works e Insert_session" and "db_handle db" and "65 \<le> size_out"
  shows "db_create_session e db n u size_out = db_create_session e db m u size_out"
  using assms(2,1)
proof (induction rule: inc_induct)
  case (step k)
  then show ?case using create_session_skip [OF _ assms(3-5), of k u] by auto
qed simp

definition session_of :: "env \<Rightarrow> string \<Rightarrow> session_row" where
  "session_of e u = \<lparr>ses_username = u, ses_created_at = env_now e,
     ses_expires_at = env_now e + SESSION_EXPIRE_SEC\<rparr>"

lemma create_session_here:
  assumes "\<not> token_taken e db m"
  shows "\<exists>r. db_create_session e db m u size_out = Some r"
  using assms
  by (subst db_create_session.simps)
    (auto simp: token_taken_def insert_row_def split: option.splits sql_outcome.splits)

text \<open>Whatever it returns is a failure without effect or a new session under a fresh token.\<close>

definition session_made :: "env \<Rightarrow> store \<Rightarrow> string \<Rightarrow> nat \<Rightarrow> string option \<times> store \<Rightarrow> bool" where
  "session_made e db u size_out r \<longleftrightarrow> r = (None, db) \<or>
    (\<exists>m key. db_generate_token e m 65 = Some key \<and> map_of (sessions db) key = None \<and>
       db_handle db \<and> 65 \<le> size_out \<and>
       r = (Some (strncpy_term size_out key), db\<lparr>sessions := sessions db @ [(key, session_of e u)]\<rparr>))"

lemma session_made_intros:
  "session_made e db u size_out (None, db)"
  "db_generate_token e m 65 = Some key \<Longrightarrow> map_of (sessions db) key = None \<Longrightarrow> db_handle db \<Longrightarrow>
     \<not> size_out < 65 \<Longrightarrow>
     session_made e db u size_out
       (Some (strncpy_term size_out key), db\<lparr>sessions := sessions db @ [(key, session_of e u)]\<rparr>)"
  by (auto simp: session_made_def)

lemma create_session_result:
  "db_create_session e db n u size_out = Some r \<Longrightarrow> session_made e db u size_out r"
  by (rule db_create_session.raw_induct [where P = "\<lambda>e db n u k r. session_made e db u k r"])
    (auto simp: insert_row_def session_made_intros simp flip: session_of_def
      split: if_splits option.splits sql_outcome.splits)

lemma store_inv_create_session:
  assumes "store_inv db" and "db_create_session e db n u size_out = Some r"
  shows "store_inv (snd r)"
proof -
  have "table_inv (sessions db @ [(key, x)])" if "map_of (sessions db) key = None" for key x
    using assms(1) that table_inv_insert_row [of key x "sessions db"]
    by (simp add: insert_row_def store_inv_tables)
  then have "store_inv (db\<lparr>sessions := sessions db @ [(key, x)]\<rparr>)"
    if "map_of (sessions db) key = None" for key x
    using assms(1) that by (blast intro: store_inv_sessions)
  with assms create_session_result [OF assms(2)] show ?thesis by (auto simp: session_made_def)
qed

lemma length_hex_bytes [simp]: "length (hex_bytes bs) = 2 * length bs"
  by (induction bs) (simp_all add: hex_bytes_def hex2_def)

lemma length_generated_token:
  assumes "rand_ok e" and "db_generate_token e n k = Some tok"
  shows "length tok = 64"
  using assms by (auto simp: db_generate_token_def rand_ok_def split: if_splits option.splits)

text \<open>C22: \<open>db_create_session\<close>, which calls itself again on a token collision, returns whenever the
  random source sooner or later yields a token that is not in the table (or fails).\<close>

theorem create_session_terminates:
  assumes "n \<le> m" and "\<not> token_taken e db m" and "sql_works e Insert_session" and "db_handle db"
    and "65 \<le> size_out"
  shows "\<exists>r. db_create_session e db n u size_out = Some r"
proof -
  define k where "k = (LEAST k. n \<le> k \<and> \<not> token_taken e db k)"
  have k: "n \<le> k \<and> \<not> token_taken e db k"
    unfolding k_def by (rule LeastI [of _ m]) (simp add: assms(1,2))
  moreover have "token_taken e db j" if "n \<le> j" "j < k" for j
    using not_less_Least [of j "\<lambda>k. n \<le> k \<and> \<not> token_taken e db k"] that by (auto simp: k_def)
  ultimately show ?thesis
    using create_session_first_free [OF _ _ assms(3-5), of n k u] create_session_here [of e db k u size_out]
    by auto
qed

theorem create_session_terminates_witness:
  "\<exists>r. db_create_session (sample_env 1 2) sample_store 0 ''ann'' 65 = Some r"
  using create_session_terminates [of 0 5 "sample_env 1 2" sample_store 65 "''ann''"]
  by (simp add: token_taken_def sample_store_def empty_store_def split: option.split)

text \<open>C17: A token that \<open>db_create_session\<close> handed out is 64 characters long and new, and names exactly
  its user for exactly a day: a validation up to 86400 seconds later succeeds with the user's name
  and changes nothing, a later one answers "expired" and removes the session; before the session was
  made the same token was not valid.\<close>

theorem session_token_lifetime:
  assumes made: "db_create_session e db n u 65 = Some (Some tok, db')" and "rand_ok e"
    and "length u < 32" and "sql_works e' Select_session" and "sql_works e' Delete_session"
  shows "length tok = 64 \<and> fst (db_validate_session e' db tok 32) = -1 \<and>
     db_validate_session e' db' tok 32 =
       (if env_now e' \<le> env_now e + SESSION_EXPIRE_SEC then (0, Some u, db')
        else (-2, None, db'\<lparr>sessions := delete_row tok (sessions db')\<rparr>))"
proof -
  from create_session_result [OF made] obtain m key where
    key: "db_generate_token e m 65 = Some key" "map_of (sessions db) key = None" "db_handle db"
    and r: "tok = strncpy_term 65 key" "db' = db\<lparr>sessions := sessions db @ [(key, session_of e u)]\<rparr>"
    by (auto simp: session_made_def)
  have len: "length key = 64" using length_generated_token [OF assms(2) key(1)] .
  then have "key \<noteq> []" by auto
  with len key r assms(3-5) show ?thesis
    by (auto simp: db_validate_session_def db_delete_session_def sql_works_def session_of_def map_add_def)
qed

theorem session_token_lifetime_witness:
  "let r = the (db_create_session (sample_env 1 2) sample_store 0 ''ann'' 65); tok = the (fst r) in
   fst (db_validate_session ((sample_env 1 2)\<lparr>env_now := 87400\<rparr>) (snd r) tok 32) = 0 \<and>
   fst (db_validate_session ((sample_env 1 2)\<lparr>env_now := 87401\<rparr>) (snd r) tok 32) = -2"
proof -
  let ?r = "the (db_create_session (sample_env 1 2) sample_store 0 ''ann'' 65)"
  have "\<exists>tok db'. db_create_session (sample_env 1 2) sample_store 0 ''ann'' 65 = Some (Some tok, db')"
    by (subst db_create_session.simps)
      (simp add: sample_store_def empty_store_def sample_env_def db_generate_token_def insert_row_def)
  then have some: "db_create_session (sample_env 1 2) sample_store 0 ''ann'' 65 =
      Some (Some (the (fst ?r)), snd ?r)"
    by auto
  have w: "sql_works ((sample_env 1 2)\<lparr>env_now := t\<rparr>) st" for t st
    by (simp add: sql_works_def sample_env_def)
  show ?thesis
    using session_token_lifetime [OF some sample_env_rand _ w w, of 87400]
      session_token_lifetime [OF some sample_env_rand _ w w, of 87401]
    by (simp add: Let_def)
qed

end
