(* ===== verification/Protocol.thy ===== *)
theory Protocol
  imports Prelude
begin

text \<open>
  The line protocol: command types and keywords of \<open>include/protocol.h\<close>, the tokenizer
  \<open>strtok\<close> as \<open>src/protocol.c\<close> uses it, the two parsers (\<open>pre_parse_srijal_commands\<close> of
  \<open>src/client_handler.c\<close> and \<open>parse_incoming_command_server\<close>), their composition at the head of
  \<open>process_line\<close>, and the reply formatters.  \<open>render_cmd\<close> is the reference grammar of a command
  line; the lemmas show that both parsers invert it and what the bounded reply buffers keep.
\<close>

section \<open>Commands\<close>

datatype cmd_type =
    TYPE_REGISTER | TYPE_LOGIN | TYPE_RECONNECT | TYPE_CREATE | TYPE_JOIN | TYPE_MSG | TYPE_PM
  | TYPE_WHO | TYPE_ROOMS | TYPE_LEAVE | TYPE_KICK | TYPE_PROMOTE | TYPE_STATUS | TYPE_EDIT
  | TYPE_DELETE | TYPE_HISTORY | TYPE_LOGOUT | TYPE_LOGOUT_ALL | TYPE_SESSIONS
  | TYPE_REVOKE_SESSION | TYPE_READ | TYPE_TYPING | TYPE_STOP_TYPING | TYPE_BLOCK | TYPE_UNBLOCK
  | TYPE_MUTE | TYPE_UNMUTE | TYPE_BAN | TYPE_DEMOTE | TYPE_CREATE_PRIVATE | TYPE_INVITE
  | TYPE_ACCEPT | TYPE_DECLINE | TYPE_INVALID

record cmd =
  ctype :: cmd_type
  arg1 :: "string option"
  arg2 :: "string option"
  arg3 :: "string option"

fun keyword :: "cmd_type \<Rightarrow> string" where
  "keyword TYPE_REGISTER = ''REGISTER''"
| "keyword TYPE_LOGIN = ''LOGIN''"
| "keyword TYPE_RECONNECT = ''RECONNECT''"
| "keyword TYPE_CREATE = ''CREATE''"
| "keyword TYPE_JOIN = ''JOIN''"
| "keyword TYPE_MSG = ''MSG''"
| "keyword TYPE_PM = ''PM''"
| "keyword TYPE_WHO = ''WHO''"
| "keyword TYPE_ROOMS = ''ROOMS''"
| "keyword TYPE_LEAVE = ''LEAVE''"
| "keyword TYPE_KICK = ''KICK''"
| "keyword TYPE_PROMOTE = ''PROMOTE''"
| "keyword TYPE_STATUS = ''STATUS''"
| "keyword TYPE_EDIT = ''EDIT''"
| "keyword TYPE_DELETE = ''DELETE''"
| "keyword TYPE_HISTORY = ''HISTORY''"
| "keyword TYPE_LOGOUT = ''LOGOUT''"
| "keyword TYPE_LOGOUT_ALL = ''LOGOUT_ALL''"
| "keyword TYPE_SESSIONS = ''SESSIONS''"
| "keyword TYPE_REVOKE_SESSION = ''REVOKE_SESSION''"
| "keyword TYPE_READ = ''READ''"
| "keyword TYPE_TYPING = ''TYPING''"
| "keyword TYPE_STOP_TYPING = ''STOP_TYPING''"
| "keyword TYPE_BLOCK = ''BLOCK''"
| "keyword TYPE_UNBLOCK = ''UNBLOCK''"
| "keyword TYPE_MUTE = ''MUTE''"
| "keyword TYPE_UNMUTE = ''UNMUTE''"
| "keyword TYPE_BAN = ''BAN''"
| "keyword TYPE_DEMOTE = ''DEMOTE''"
| "keyword TYPE_CREATE_PRIVATE = ''CREATE_PRIVATE''"
| "keyword TYPE_INVITE = ''INVITE''"
| "keyword TYPE_ACCEPT = ''ACCEPT''"
| "keyword TYPE_DECLINE = ''DECLINE''"
| "keyword TYPE_INVALID = ''INVALID''"

abbreviation SP :: char where "SP \<equiv> CHR '' ''"
abbreviation NL :: char where "NL \<equiv> CHR 0x0A"
abbreviation CR :: char where "CR \<equiv> CHR 0x0D"

section \<open>The tokenizer and the parser of protocol.c\<close>

text \<open>
  \<open>strtok(s, delim)\<close>: skip delimiters, cut the token at the next delimiter, remember the rest
  behind it.  The rest is the state the next call \<open>strtok(NULL, ...)\<close> continues from.
\<close>

definition strtok :: "char list \<Rightarrow> string \<Rightarrow> string option \<times> string" where
  "strtok delim s =
     (let s' = dropWhile (\<lambda>c. c \<in> set delim) s in
      if s' = [] then (None, [])
      else (Some (takeWhile (\<lambda>c. c \<notin> set delim) s'), drop 1 (dropWhile (\<lambda>c. c \<notin> set delim) s')))"

definition parse_tok1 :: "cmd_type \<Rightarrow> string \<Rightarrow> cmd" where
  "parse_tok1 ty r = (let (a1, _) = strtok [SP] r in
     \<lparr>ctype = ty, arg1 = a1, arg2 = None, arg3 = None\<rparr>)"

definition parse_tok2 :: "cmd_type \<Rightarrow> string \<Rightarrow> cmd" where
  "parse_tok2 ty r = (let (a1, r1) = strtok [SP] r; (a2, _) = strtok [SP] r1 in
     \<lparr>ctype = ty, arg1 = a1, arg2 = a2, arg3 = None\<rparr>)"

definition parse_tok3 :: "cmd_type \<Rightarrow> string \<Rightarrow> cmd" where
  "parse_tok3 ty r = (let (a1, r1) = strtok [SP] r; (a2, r2) = strtok [SP] r1;
      (a3, _) = strtok [SP] r2 in
     \<lparr>ctype = ty, arg1 = a1, arg2 = a2, arg3 = a3\<rparr>)"

definition parse_text :: "cmd_type \<Rightarrow> string \<Rightarrow> cmd" where
  "parse_text ty r = (let (a1, _) = strtok [] r in
     \<lparr>ctype = ty, arg1 = a1, arg2 = None, arg3 = None\<rparr>)"

definition parse_tok_text :: "cmd_type \<Rightarrow> string \<Rightarrow> cmd" where
  "parse_tok_text ty r = (let (a1, r1) = strtok [SP] r; (a2, _) = strtok [] r1 in
     \<lparr>ctype = ty, arg1 = a1, arg2 = a2, arg3 = None\<rparr>)"

definition invalid_cmd :: cmd where
  "invalid_cmd = \<lparr>ctype = TYPE_INVALID, arg1 = None, arg2 = None, arg3 = None\<rparr>"

definition parse_incoming_command_server :: "string \<Rightarrow> cmd" where
  "parse_incoming_command_server line =
     (let (command, r) = strtok [SP] line in
      case command of
        None \<Rightarrow> invalid_cmd
      | Some c \<Rightarrow>
          if c = ''WHO'' then parse_tok2 TYPE_WHO r
          else if c = ''ROOMS'' then parse_tok2 TYPE_ROOMS r
          else if c = ''RECONNECT'' then parse_tok1 TYPE_RECONNECT r
          else if c = ''REGISTER'' then parse_tok2 TYPE_REGISTER r
          else if c = ''LOGIN'' then parse_tok2 TYPE_LOGIN r
          else if c = ''CREATE'' then parse_tok1 TYPE_CREATE r
          else if c = ''JOIN'' then parse_tok1 TYPE_JOIN r
          else if c = ''LEAVE'' then parse_tok1 TYPE_LEAVE r
          else if c = ''KICK'' then parse_tok1 TYPE_KICK r
          else if c = ''PROMOTE'' then parse_tok1 TYPE_PROMOTE r
          else if c = ''STATUS'' then parse_tok1 TYPE_STATUS r
          else if c = ''EDIT'' then parse_tok_text TYPE_EDIT r
          else if c = ''DELETE'' then parse_tok1 TYPE_DELETE r
          else if c = ''HISTORY'' then parse_tok3 TYPE_HISTORY r
          else if c = ''MSG'' then parse_text TYPE_MSG r
          else if c = ''PM'' then parse_tok_text TYPE_PM r
          else invalid_cmd)"

section \<open>The pre-parser of client\_handler.c\<close>

text \<open>\<open>strncmp(line, kw, n) == 0\<close> and the character behind the keyword is one of \<open>ends\<close>.\<close>

definition starts_cmd :: "string \<Rightarrow> char list \<Rightarrow> string \<Rightarrow> bool" where
  "starts_cmd kw ends line \<longleftrightarrow>
     take (length kw) line = kw \<and> char_at line (length kw) \<in> set ends"

definition cut_space :: "string \<Rightarrow> string \<times> string option" where
  "cut_space s = (takeWhile (\<lambda>c. c \<noteq> SP) s,
     (case dropWhile (\<lambda>c. c \<noteq> SP) s of [] \<Rightarrow> None | _ # r \<Rightarrow> Some r))"

text \<open>The macro \<open>PARSE_ARGS\<close>.\<close>

definition parse_args :: "cmd_type \<Rightarrow> string \<Rightarrow> cmd" where
  "parse_args ty rest =
     (let r = dropWhile (\<lambda>c. c = SP) rest in
      if char_at r 0 \<in> {NUL, NL, CR}
      then \<lparr>ctype = ty, arg1 = None, arg2 = None, arg3 = None\<rparr>
      else (case cut_space r of
          (a1, None) \<Rightarrow> \<lparr>ctype = ty, arg1 = Some a1, arg2 = None, arg3 = None\<rparr>
        | (a1, Some r2) \<Rightarrow>
            (let (a2, a3) = cut_space r2 in
             \<lparr>ctype = ty, arg1 = Some a1, arg2 = Some a2, arg3 = a3\<rparr>)))"

definition bare :: "cmd_type \<Rightarrow> string option \<Rightarrow> cmd" where
  "bare ty a = \<lparr>ctype = ty, arg1 = a, arg2 = None, arg3 = None\<rparr>"

abbreviation ends0 :: "char list" where "ends0 \<equiv> [NUL, NL, CR]"
abbreviation ends1 :: "char list" where "ends1 \<equiv> [SP, NUL, NL, CR]"

definition pre_parse_srijal_commands :: "string \<Rightarrow> cmd" where
  "pre_parse_srijal_commands line =
     (if starts_cmd ''LOGOUT_ALL'' ends0 line then bare TYPE_LOGOUT_ALL None
      else if starts_cmd ''STOP_TYPING'' ends0 line then bare TYPE_STOP_TYPING None
      else if starts_cmd ''REVOKE_SESSION'' ends1 line then parse_args TYPE_REVOKE_SESSION (drop 14 line)
      else if starts_cmd ''REVOKE SESSION'' ends1 line then parse_args TYPE_REVOKE_SESSION (drop 14 line)
      else if starts_cmd ''CREATE_PRIVATE'' ends1 line then parse_args TYPE_CREATE_PRIVATE (drop 14 line)
      else if starts_cmd ''SESSIONS'' ends0 line then bare TYPE_SESSIONS None
      else if starts_cmd ''UNBLOCK'' ends1 line then parse_args TYPE_UNBLOCK (drop 7 line)
      else if starts_cmd ''UNMUTE'' ends1 line then parse_args TYPE_UNMUTE (drop 6 line)
      else if starts_cmd ''BLOCK'' ends1 line then parse_args TYPE_BLOCK (drop 5 line)
      else if starts_cmd ''MUTE'' ends1 line then parse_args TYPE_MUTE (drop 4 line)
      else if starts_cmd ''BAN'' ends1 line then parse_args TYPE_BAN (drop 3 line)
      else if starts_cmd ''LOGOUT'' ends1 line then parse_args TYPE_LOGOUT (drop 6 line)
      else if starts_cmd ''TYPING'' ends0 line then bare TYPE_TYPING None
      else if starts_cmd ''READ'' ends1 line then parse_args TYPE_READ (drop 4 line)
      else if starts_cmd ''DECLINE'' ends1 line then parse_args TYPE_DECLINE (drop 7 line)
      else if starts_cmd ''DEMOTE'' ends1 line then parse_args TYPE_DEMOTE (drop 6 line)
      else if starts_cmd ''INVITE'' ends1 line then parse_args TYPE_INVITE (drop 6 line)
      else if starts_cmd ''ACCEPT'' ends1 line then parse_args TYPE_ACCEPT (drop 6 line)
      else if starts_cmd ''HEALTH'' ends0 line then bare TYPE_INVALID (Some ''HEALTH'')
      else if starts_cmd ''READY'' ends0 line then bare TYPE_INVALID (Some ''READY'')
      else invalid_cmd)"

text \<open>The head of \<open>process_line\<close>: the second parser runs whenever the first says \<open>TYPE_INVALID\<close>.\<close>

definition parse_line :: "string \<Rightarrow> cmd" where
  "parse_line line =
     (let command = pre_parse_srijal_commands line in
      if ctype command = TYPE_INVALID then parse_incoming_command_server line else command)"

section \<open>Reply formatters\<close>

abbreviation MAX_LINE_LEN :: nat where "MAX_LINE_LEN \<equiv> 512"

definition format_ok_reply :: "nat \<Rightarrow> string \<Rightarrow> string" where
  "format_ok_reply n st = snprintf_out n (''OK '' @ st @ [NL])"

definition format_ok_session :: "nat \<Rightarrow> string \<Rightarrow> string \<Rightarrow> string" where
  "format_ok_session n st token =
     (if token \<noteq> '''' then snprintf_out n (''OK '' @ st @ '' '' @ token @ [NL])
      else snprintf_out n (''OK '' @ st @ [NL]))"

definition format_err_reply :: "nat \<Rightarrow> string \<Rightarrow> string" where
  "format_err_reply n err_code = snprintf_out n (''ERR '' @ err_code @ [NL])"

definition format_notice :: "nat \<Rightarrow> string \<Rightarrow> string \<Rightarrow> string \<Rightarrow> string" where
  "format_notice n user action room =
     snprintf_out n (''NOTICE '' @ user @ '' '' @ action @ '' '' @ room @ [NL])"

definition format_msg_reply :: "nat \<Rightarrow> string \<Rightarrow> string \<Rightarrow> string" where
  "format_msg_reply n who t = snprintf_out n (''MSG '' @ who @ '' '' @ t @ [NL])"

definition format_pm_reply :: "nat \<Rightarrow> string \<Rightarrow> string \<Rightarrow> string" where
  "format_pm_reply n who t = snprintf_out n (''PM_FROM '' @ who @ '' '' @ t @ [NL])"

definition format_msg_reply_id :: "nat \<Rightarrow> int \<Rightarrow> string \<Rightarrow> string \<Rightarrow> string" where
  "format_msg_reply_id n mid who t =
     snprintf_out n (''MSG '' @ show_int mid @ '' '' @ who @ '' '' @ t @ [NL])"

definition format_history_reply :: "nat \<Rightarrow> string \<Rightarrow> int \<Rightarrow> int \<Rightarrow> string" where
  "format_history_reply n room cursor count =
     snprintf_out n (''HISTORY_REPLY '' @ room @ '' '' @ show_int cursor @ '' '' @ show_int count @ [NL])"

definition format_edited_reply :: "nat \<Rightarrow> int \<Rightarrow> string \<Rightarrow> string" where
  "format_edited_reply n mid t = snprintf_out n (''MESSAGE_EDITED '' @ show_int mid @ '' '' @ t @ [NL])"

definition format_deleted_reply :: "nat \<Rightarrow> int \<Rightarrow> string" where
  "format_deleted_reply n mid = snprintf_out n (''MESSAGE_DELETED '' @ show_int mid @ [NL])"

lemmas format_defs = format_ok_reply_def format_ok_session_def format_err_reply_def
  format_notice_def format_msg_reply_def format_pm_reply_def format_msg_reply_id_def
  format_history_reply_def format_edited_reply_def format_deleted_reply_def

section \<open>The reference grammar\<close>

definition sp_opt :: "string option \<Rightarrow> string" where
  "sp_opt a = (case a of None \<Rightarrow> '''' | Some t \<Rightarrow> SP # t)"

definition render_cmd :: "cmd \<Rightarrow> string" where
  "render_cmd c = keyword (ctype c) @ sp_opt (arg1 c) @ sp_opt (arg2 c) @ sp_opt (arg3 c)"

definition token :: "string \<Rightarrow> bool" where
  "token t \<longleftrightarrow> t \<noteq> [] \<and> SP \<notin> set t \<and> NUL \<notin> set t \<and> NL \<notin> set t \<and> CR \<notin> set t"

definition opt_token :: "string option \<Rightarrow> bool" where
  "opt_token a \<longleftrightarrow> (case a of None \<Rightarrow> True | Some t \<Rightarrow> token t)"

definition opt_text :: "string option \<Rightarrow> bool" where
  "opt_text a \<longleftrightarrow> a \<noteq> Some ''''"

text \<open>Which arguments each command takes.\<close>

definition wf_cmd :: "cmd \<Rightarrow> bool" where
  "wf_cmd c \<longleftrightarrow>
     (case ctype c of
        TYPE_INVALID \<Rightarrow> False
      | TYPE_LOGOUT_ALL \<Rightarrow> arg1 c = None \<and> arg2 c = None \<and> arg3 c = None
      | TYPE_STOP_TYPING \<Rightarrow> arg1 c = None \<and> arg2 c = None \<and> arg3 c = None
      | TYPE_SESSIONS \<Rightarrow> arg1 c = None \<and> arg2 c = None \<and> arg3 c = None
      | TYPE_TYPING \<Rightarrow> arg1 c = None \<and> arg2 c = None \<and> arg3 c = None
      | TYPE_MSG \<Rightarrow> opt_text (arg1 c) \<and> arg2 c = None \<and> arg3 c = None
      | TYPE_PM \<Rightarrow> opt_token (arg1 c) \<and> opt_text (arg2 c) \<and> (arg1 c = None \<longrightarrow> arg2 c = None) \<and> arg3 c = None
      | TYPE_EDIT \<Rightarrow> opt_token (arg1 c) \<and> opt_text (arg2 c) \<and> (arg1 c = None \<longrightarrow> arg2 c = None) \<and> arg3 c = None
      | TYPE_HISTORY \<Rightarrow> opt_token (arg1 c) \<and> opt_token (arg2 c) \<and> opt_token (arg3 c) \<and>
          (arg1 c = None \<longrightarrow> arg2 c = None) \<and> (arg2 c = None \<longrightarrow> arg3 c = None)
      | ty \<Rightarrow> opt_token (arg1 c) \<and> opt_token (arg2 c) \<and> (arg1 c = None \<longrightarrow> arg2 c = None) \<and>
          arg3 c = None \<and>
          (arg2 c \<noteq> None \<longrightarrow> ty \<notin> {TYPE_RECONNECT, TYPE_CREATE, TYPE_JOIN, TYPE_LEAVE, TYPE_KICK,
             TYPE_PROMOTE, TYPE_STATUS, TYPE_DELETE}))"

section \<open>The parsers invert the grammar\<close>

lemma strtok_token [simp]:
  "token t \<Longrightarrow> strtok [SP] t = (Some t, [])"
  by (cases t) (auto simp: strtok_def token_def)

lemma strtok_token_SP [simp]:
  assumes "token t"
  shows "strtok [SP] (t @ SP # r) = (Some t, r)"
proof -
  from assms obtain c cs where "t = c # cs" "c \<noteq> SP" by (cases t) (auto simp: token_def)
  moreover have "takeWhile (\<lambda>c. c \<noteq> SP) (t @ SP # r) = t" "dropWhile (\<lambda>c. c \<noteq> SP) (t @ SP # r) = SP # r"
    using assms by (auto simp: token_def takeWhile_append dropWhile_append)
  ultimately show ?thesis by (auto simp: strtok_def)
qed

lemma strtok_skip [simp]: "strtok [SP] (SP # s) = strtok [SP] s"
  by (simp add: strtok_def)

lemma strtok_Nil [simp]: "strtok d [] = (None, [])"
  by (simp add: strtok_def)

lemma strtok_rest [simp]: "s \<noteq> [] \<Longrightarrow> strtok [] s = (Some s, [])"
  by (simp add: strtok_def)

lemma token_keyword: "token (keyword ty)"
  by (cases ty) (simp_all add: token_def NUL_def)

lemma cut_space_token [simp]: "SP \<notin> set t \<Longrightarrow> cut_space t = (t, None)"
  by (simp add: cut_space_def)

lemma cut_space_token_SP [simp]: "SP \<notin> set t \<Longrightarrow> cut_space (t @ SP # r) = (t, Some r)"
  by (auto simp: cut_space_def takeWhile_append dropWhile_append)

lemma parse_args_none [simp]: "parse_args ty [] = bare ty None"
  by (simp add: parse_args_def char_at_def bare_def)

lemma token_head: "token t \<Longrightarrow> char_at (t @ r) 0 \<notin> {SP, NUL, NL, CR}"
  by (cases t) (auto simp: token_def char_at_def)

lemma token_dropWhile [simp]: "token t \<Longrightarrow> dropWhile (\<lambda>c. c = SP) (t @ r) = t @ r"
  by (cases t) (auto simp: token_def)

lemma parse_args_one [simp]: "token t \<Longrightarrow> parse_args ty (SP # t) = bare ty (Some t)"
  using token_head [of t "[]"] token_dropWhile [of t "[]"]
  by (simp add: parse_args_def bare_def token_def)

lemma parse_args_two [simp]: "token t \<Longrightarrow> token u \<Longrightarrow> parse_args ty (SP # t @ SP # u) =
    \<lparr>ctype = ty, arg1 = Some t, arg2 = Some u, arg3 = None\<rparr>"
  using token_head [of t "SP # u"] token_dropWhile [of t "SP # u"]
  by (simp add: parse_args_def token_def)

text \<open>A command of the second parser is never taken by the first.\<close>

definition pre_parsed :: "cmd_type \<Rightarrow> bool" where
  "pre_parsed ty \<longleftrightarrow> ty \<in> {TYPE_LOGOUT, TYPE_LOGOUT_ALL, TYPE_SESSIONS, TYPE_REVOKE_SESSION, TYPE_READ,
     TYPE_TYPING, TYPE_STOP_TYPING, TYPE_BLOCK, TYPE_UNBLOCK, TYPE_MUTE, TYPE_UNMUTE, TYPE_BAN,
     TYPE_DEMOTE, TYPE_CREATE_PRIVATE, TYPE_INVITE, TYPE_ACCEPT, TYPE_DECLINE}"

text \<open>Arguments come from the left: none, one, two or three.\<close>

lemma wf_cmd_left:
  assumes "wf_cmd c"
  shows "arg1 c = None \<Longrightarrow> arg2 c = None" and "arg2 c = None \<Longrightarrow> arg3 c = None"
    and "arg3 c \<noteq> None \<Longrightarrow> ctype c = TYPE_HISTORY"
  using assms by (cases "ctype c"; simp add: wf_cmd_def)+

lemma wf_cmd_shapes:
  assumes "wf_cmd c"
  obtains (zero) "arg1 c = None" "arg2 c = None" "arg3 c = None"
  | (one) t where "arg1 c = Some t" "arg2 c = None" "arg3 c = None"
  | (two) t u where "arg1 c = Some t" "arg2 c = Some u" "arg3 c = None"
  | (three) t u v where "arg1 c = Some t" "arg2 c = Some u" "arg3 c = Some v"
      "ctype c = TYPE_HISTORY"
  using wf_cmd_left [OF assms] by (cases "arg1 c"; cases "arg2 c"; cases "arg3 c") auto

lemma pre_parse_render:
  assumes "wf_cmd c" and "pre_parsed (ctype c)"
  shows "pre_parse_srijal_commands (render_cmd c) = c"
  using assms(1)
proof (cases rule: wf_cmd_shapes)
  case zero
  with assms show ?thesis
    by (cases c; cases "ctype c")
      (simp_all add: pre_parsed_def render_cmd_def sp_opt_def pre_parse_srijal_commands_def
        starts_cmd_def char_at_def bare_def)
next
  case (one t)
  with assms show ?thesis
    by (cases c; cases "ctype c")
      (simp_all add: pre_parsed_def render_cmd_def sp_opt_def pre_parse_srijal_commands_def
        starts_cmd_def char_at_def bare_def wf_cmd_def opt_token_def)
next
  case (two t u)
  with assms show ?thesis
    by (cases c; cases "ctype c")
      (simp_all add: pre_parsed_def render_cmd_def sp_opt_def pre_parse_srijal_commands_def
        starts_cmd_def char_at_def bare_def wf_cmd_def opt_token_def)
next
  case (three t u v)
  with assms show ?thesis by (simp add: pre_parsed_def)
qed

lemma pre_parse_other:
  assumes "wf_cmd c" and "\<not> pre_parsed (ctype c)"
  shows "pre_parse_srijal_commands (render_cmd c) = invalid_cmd"
  using assms
  by (cases "ctype c"; cases "arg1 c")
    (simp_all add: wf_cmd_def pre_parsed_def render_cmd_def pre_parse_srijal_commands_def
      starts_cmd_def sp_opt_def)

lemmas parse_defs = parse_tok1_def parse_tok2_def parse_tok3_def parse_text_def parse_tok_text_def

lemma strtok_keyword_SP [simp]: "strtok [SP] (keyword ty @ SP # r) = (Some (keyword ty), r)"
  by (simp add: token_keyword)

text \<open>The shape of the arguments a command of the second parser takes, and the parser that reads them.\<close>

datatype arg_shape = One_token | Two_tokens | Three_tokens | Text | Token_text

definition shape_of :: "cmd_type \<Rightarrow> arg_shape" where
  "shape_of ty =
     (if ty = TYPE_MSG then Text
      else if ty = TYPE_PM \<or> ty = TYPE_EDIT then Token_text
      else if ty = TYPE_HISTORY then Three_tokens
      else if ty \<in> {TYPE_WHO, TYPE_ROOMS, TYPE_REGISTER, TYPE_LOGIN} then Two_tokens
      else One_token)"

fun parse_shape :: "arg_shape \<Rightarrow> cmd_type \<Rightarrow> string \<Rightarrow> cmd" where
  "parse_shape One_token = parse_tok1"
| "parse_shape Two_tokens = parse_tok2"
| "parse_shape Three_tokens = parse_tok3"
| "parse_shape Text = parse_text"
| "parse_shape Token_text = parse_tok_text"

lemma parse_dispatch:
  assumes "strtok [SP] line = (Some (keyword ty), r)" and "\<not> pre_parsed ty" and "ty \<noteq> TYPE_INVALID"
  shows "parse_incoming_command_server line = parse_shape (shape_of ty) ty r"
  using assms
  by (cases ty) (simp_all add: parse_incoming_command_server_def shape_of_def pre_parsed_def)

fun wf_shape :: "arg_shape \<Rightarrow> cmd \<Rightarrow> bool" where
  "wf_shape One_token c \<longleftrightarrow> opt_token (arg1 c) \<and> arg2 c = None"
| "wf_shape Two_tokens c \<longleftrightarrow> opt_token (arg1 c) \<and> opt_token (arg2 c)"
| "wf_shape Three_tokens c \<longleftrightarrow> opt_token (arg1 c) \<and> opt_token (arg2 c) \<and> opt_token (arg3 c)"
| "wf_shape Text c \<longleftrightarrow> opt_text (arg1 c) \<and> arg2 c = None"
| "wf_shape Token_text c \<longleftrightarrow> opt_token (arg1 c) \<and> opt_text (arg2 c)"

lemma wf_cmd_shape:
  assumes "wf_cmd c" and "\<not> pre_parsed (ctype c)"
  shows "wf_shape (shape_of (ctype c)) c" and "ctype c \<noteq> TYPE_INVALID"
  using assms by (cases "ctype c"; simp add: wf_cmd_def pre_parsed_def shape_of_def)+

lemma strtok_render:
  "strtok [SP] (render_cmd c) =
     (Some (keyword (ctype c)), drop 1 (sp_opt (arg1 c) @ sp_opt (arg2 c) @ sp_opt (arg3 c)))"
  if "wf_cmd c"
  using wf_cmd_left [OF that]
  by (cases "arg1 c") (simp_all add: render_cmd_def sp_opt_def token_keyword)

lemma parse_incoming_render:
  assumes "wf_cmd c" and "\<not> pre_parsed (ctype c)"
  shows "parse_incoming_command_server (render_cmd c) = c"
proof -
  let ?s = "shape_of (ctype c)"
    and ?r = "drop 1 (sp_opt (arg1 c) @ sp_opt (arg2 c) @ sp_opt (arg3 c))"
  have "parse_shape ?s (ctype c) ?r = c"
  proof (cases ?s)
    case Three_tokens
    then show ?thesis using wf_cmd_shape(1) [OF assms] wf_cmd_left [OF assms(1)]
      by (cases "arg1 c"; cases "arg2 c"; cases "arg3 c")
        (simp_all add: sp_opt_def parse_defs opt_token_def)
  next
    case One_token
    then show ?thesis using wf_cmd_shape(1) [OF assms] wf_cmd_left [OF assms(1)]
      by (cases "arg1 c") (simp_all add: sp_opt_def parse_defs opt_token_def)
  next
    case Two_tokens
    then have "arg3 c = None" using wf_cmd_left(3) [OF assms(1)]
      by (cases "arg3 c") (simp_all add: shape_of_def)
    with Two_tokens show ?thesis using wf_cmd_shape(1) [OF assms] wf_cmd_left [OF assms(1)]
      by (cases "arg1 c"; cases "arg2 c") (simp_all add: sp_opt_def parse_defs opt_token_def)
  next
    case Text
    then show ?thesis using wf_cmd_shape(1) [OF assms] wf_cmd_left [OF assms(1)]
      by (cases "arg1 c") (simp_all add: sp_opt_def parse_defs opt_text_def)
  next
    case Token_text
    then have "arg3 c = None" using wf_cmd_left(3) [OF assms(1)]
      by (cases "arg3 c") (simp_all add: shape_of_def)
    with Token_text show ?thesis using wf_cmd_shape(1) [OF assms] wf_cmd_left [OF assms(1)]
      by (cases "arg1 c"; cases "arg2 c")
        (simp_all add: sp_opt_def parse_defs opt_token_def opt_text_def)
  qed
  then show ?thesis
    using parse_dispatch [OF strtok_render [OF assms(1)] assms(2) wf_cmd_shape(2) [OF assms]] by simp
qed

lemma parse_render:
  assumes "wf_cmd c"
  shows "parse_line (render_cmd c) = c"
proof (cases "pre_parsed (ctype c)")
  case True
  then have "ctype c \<noteq> TYPE_INVALID" by (auto simp: pre_parsed_def)
  with True show ?thesis by (simp add: parse_line_def pre_parse_render assms)
next
  case False
  then show ?thesis
    by (simp add: parse_line_def pre_parse_other parse_incoming_render assms invalid_cmd_def)
qed

text \<open>C4: Every well-formed command of the protocol, written as its keyword and arguments separated
  by single blanks, is read back by the server's two-stage parser exactly as that command, with
  exactly those arguments.\<close>

theorem parse_line_render_cmd:
  assumes "wf_cmd c"
  shows "parse_line (render_cmd c) = c"
  by (rule parse_render [OF assms])

theorem parse_line_render_cmd_witness:
  "parse_line ''PM bob see you at 5'' =
     \<lparr>ctype = TYPE_PM, arg1 = Some ''bob'', arg2 = Some ''see you at 5'', arg3 = None\<rparr>"
proof -
  let ?c = "\<lparr>ctype = TYPE_PM, arg1 = Some ''bob'', arg2 = Some ''see you at 5'', arg3 = None\<rparr>"
  have "wf_cmd ?c"
    by (simp add: wf_cmd_def opt_token_def opt_text_def token_def NUL_def)
  from parse_line_render_cmd [OF this] show ?thesis by (simp add: render_cmd_def sp_opt_def)
qed

section \<open>What the handlers can rely on\<close>

definition typed_cmd :: "cmd \<Rightarrow> bool" where
  "typed_cmd c \<longleftrightarrow>
     (\<forall>a. arg1 c = Some a \<longrightarrow> a \<noteq> [] \<and> (ctype c \<noteq> TYPE_MSG \<longrightarrow> SP \<notin> set a)) \<and>
     (arg1 c = None \<longrightarrow> arg2 c = None) \<and> (arg2 c = None \<longrightarrow> arg3 c = None)"

lemma strtok_Some: "strtok d s = (Some t, r) \<Longrightarrow> t \<noteq> [] \<and> set t \<inter> set d = {}"
proof -
  assume st: "strtok d s = (Some t, r)"
  let ?s = "dropWhile (\<lambda>c. c \<in> set d) s"
  have ne: "?s \<noteq> []" and t: "t = takeWhile (\<lambda>c. c \<notin> set d) ?s" using st by (auto simp: strtok_def Let_def split: if_splits)
  have "hd ?s \<notin> set d" by (rule hd_dropWhile [OF ne])
  then show ?thesis using ne by (cases ?s) (auto simp: t dest: set_takeWhileD)
qed

lemma strtok_word: "fst (strtok [SP] s) = Some t \<Longrightarrow> t \<noteq> [] \<and> SP \<notin> set t"
  using strtok_Some [of "[SP]" s t "snd (strtok [SP] s)"] by (cases "strtok [SP] s") simp

lemma strtok_none_left: "fst (strtok d s) = None \<Longrightarrow> strtok d' (snd (strtok d s)) = (None, [])"
  by (simp add: strtok_def Let_def split: if_splits)

lemma typed_parsers:
  "typed_cmd (parse_tok1 ty r)" "typed_cmd (parse_tok2 ty r)" "typed_cmd (parse_tok3 ty r)"
  "typed_cmd (parse_text TYPE_MSG r)" "typed_cmd (parse_tok_text ty r)" "typed_cmd invalid_cmd"
proof -
  show "typed_cmd (parse_tok1 ty r)" using strtok_word [of r] by (simp add: typed_cmd_def parse_tok1_def split_beta)
  show "typed_cmd (parse_tok2 ty r)" using strtok_word [of r] strtok_none_left [of "[SP]" r "[SP]"]
    by (simp add: typed_cmd_def parse_tok2_def split_beta Let_def)
  show "typed_cmd (parse_tok3 ty r)"
    using strtok_word [of r] strtok_none_left [of "[SP]" r "[SP]"] strtok_none_left [of "[SP]" "snd (strtok [SP] r)" "[SP]"]
    by (simp add: typed_cmd_def parse_tok3_def split_beta Let_def)
  show "typed_cmd (parse_text TYPE_MSG r)" by (cases "r = []") (simp_all add: typed_cmd_def parse_text_def)
  show "typed_cmd (parse_tok_text ty r)" using strtok_word [of r] strtok_none_left [of "[SP]" r "[]"]
    by (simp add: typed_cmd_def parse_tok_text_def split_beta Let_def)
  show "typed_cmd invalid_cmd" by (simp add: typed_cmd_def invalid_cmd_def)
qed

lemma typed_if: "typed_cmd x \<Longrightarrow> typed_cmd y \<Longrightarrow> typed_cmd (if b then x else y)"
  by simp

lemma typed_incoming: "typed_cmd (parse_incoming_command_server line)"
proof (cases "strtok [SP] line")
  case (Pair command r)
  show ?thesis
  proof (cases command)
    case None
    show ?thesis unfolding parse_incoming_command_server_def Pair Let_def prod.case None option.case by (rule typed_parsers)
  next
    case (Some w)
    show ?thesis unfolding parse_incoming_command_server_def Pair Let_def prod.case Some option.case
      by (intro typed_if typed_parsers)
  qed
qed

lemma typed_cut:
  assumes "s \<noteq> []" and "hd s \<noteq> SP"
  shows "typed_cmd (case cut_space s of
      (a1, None) \<Rightarrow> \<lparr>ctype = ty, arg1 = Some a1, arg2 = None, arg3 = None\<rparr>
    | (a1, Some r2) \<Rightarrow> (let (a2, a3) = cut_space r2 in \<lparr>ctype = ty, arg1 = Some a1, arg2 = Some a2, arg3 = a3\<rparr>))"
proof -
  have "fst (cut_space s) \<noteq> []" "SP \<notin> set (fst (cut_space s))"
    using assms by (cases s; auto simp: cut_space_def dest: set_takeWhileD)+
  then show ?thesis by (cases "cut_space s") (simp add: typed_cmd_def split_beta Let_def split: option.split)
qed

lemma typed_args: "typed_cmd (parse_args ty rest)"
proof -
  let ?r = "dropWhile (\<lambda>c. c = SP) rest"
  show ?thesis
  proof (cases "char_at ?r 0 \<in> {NUL, NL, CR}")
    case False
    have ne: "?r \<noteq> []"
    proof
      assume "?r = []"
      then have "char_at ?r 0 = NUL" by (simp only: char_at_def list.size less_irrefl if_False)
      with False show False by blast
    qed
    have "hd ?r \<noteq> SP" using hd_dropWhile [OF ne] by simp
    then show ?thesis unfolding parse_args_def Let_def [of ?r] if_not_P [OF False] by (rule typed_cut [OF ne])
  qed (simp add: parse_args_def typed_cmd_def)
qed

lemma typed_bare: "typed_cmd (bare ty None)" "typed_cmd (bare ty (Some ''HEALTH''))" "typed_cmd (bare ty (Some ''READY''))"
  by (simp_all add: typed_cmd_def bare_def)

lemma typed_pre_parse: "typed_cmd (pre_parse_srijal_commands line)"
  unfolding pre_parse_srijal_commands_def by (intro typed_if typed_args typed_bare typed_parsers)

text \<open>C25: Whatever line a client sends, the command handed to the handlers is well typed: an argument that is present is not empty
  and, unless it is the text of \<open>MSG\<close>, the first one contains no blank; an argument is present only
  if the one before it is.\<close>

theorem parse_line_typed: "typed_cmd (parse_line line)"
  using typed_pre_parse [of line] typed_incoming [of line] by (simp add: parse_line_def Let_def)

section \<open>Unreachable endpoints\<close>

lemma parse_incoming_invalid:
  "ctype (parse_incoming_command_server line) = TYPE_INVALID \<Longrightarrow>
     parse_incoming_command_server line = invalid_cmd"
  by (simp add: parse_incoming_command_server_def parse_defs Let_def split: prod.splits option.splits
      if_splits)

text \<open>C37: A line that ends up as an invalid command never carries an argument, so the branches of
  \<open>process_line\<close> that answer \<open>HEALTH\<close> and \<open>READY\<close> are never taken: the pre-parser's result is
  overwritten by the second parser.\<close>

theorem health_endpoints_unreachable:
  "ctype (parse_line line) = TYPE_INVALID \<Longrightarrow>
     arg1 (parse_line line) \<noteq> Some ''HEALTH'' \<and> arg1 (parse_line line) \<noteq> Some ''READY''"
  using parse_incoming_invalid [of line]
  by (auto simp: parse_line_def Let_def invalid_cmd_def split: if_splits)

theorem health_endpoints_unreachable_witness:
  "pre_parse_srijal_commands ''HEALTH'' = bare TYPE_INVALID (Some ''HEALTH'') \<and>
   arg1 (parse_line ''HEALTH'') \<noteq> Some ''HEALTH''"
proof -
  have "strtok [SP] ''HEALTH'' = (Some ''HEALTH'', [])" by (simp add: strtok_def)
  moreover have pre: "pre_parse_srijal_commands ''HEALTH'' = bare TYPE_INVALID (Some ''HEALTH'')"
    by (simp add: pre_parse_srijal_commands_def starts_cmd_def char_at_def)
  ultimately have "ctype (parse_line ''HEALTH'') = TYPE_INVALID"
    by (simp add: parse_line_def parse_incoming_command_server_def invalid_cmd_def bare_def)
  from health_endpoints_unreachable [OF this] pre show ?thesis by simp
qed

section \<open>What the reply buffers keep\<close>

text \<open>C36: A message is broadcast as one line ending in a newline exactly when the whole line fits
  the 512 byte reply buffer; a longer one loses its terminator, so the receiver cannot frame it.\<close>

theorem msg_reply_framed_iff:
  assumes "NL \<notin> set who" and "NL \<notin> set t"
  shows "(\<exists>body. NL \<notin> set body \<and> format_msg_reply_id MAX_LINE_LEN mid who t = body @ [NL])
     \<longleftrightarrow> length (''MSG '' @ show_int mid @ '' '' @ who @ '' '' @ t) < MAX_LINE_LEN - 1"
proof -
  define content where "content = ''MSG '' @ show_int mid @ '' '' @ who @ '' '' @ t"
  have no: "NL \<notin> set content" using assms show_int_no_space by (simp add: content_def)
  have out: "format_msg_reply_id MAX_LINE_LEN mid who t = take 511 (content @ [NL])"
    by (simp add: format_msg_reply_id_def snprintf_out_def content_def)
  have "(\<exists>body. NL \<notin> set body \<and> format_msg_reply_id MAX_LINE_LEN mid who t = body @ [NL])
     \<longleftrightarrow> length content < 511"
  proof (cases "length content < 511")
    case True
    then have "format_msg_reply_id MAX_LINE_LEN mid who t = content @ [NL]" by (simp add: out)
    with no True show ?thesis by auto
  next
    case False
    then have cut: "format_msg_reply_id MAX_LINE_LEN mid who t = take 511 content" by (simp add: out)
    have "take 511 content \<noteq> body @ [NL]" for body
      using no in_set_takeD [of NL 511 content] by auto
    with cut False show ?thesis by simp
  qed
  then show ?thesis by (simp add: content_def)
qed

theorem msg_reply_framed_iff_witness:
  "(\<exists>body. NL \<notin> set body \<and> format_msg_reply_id MAX_LINE_LEN 7 ''ann'' ''hi'' = body @ [NL]) \<and>
   \<not> (\<exists>body. NL \<notin> set body \<and>
        format_msg_reply_id MAX_LINE_LEN 7 ''ann'' (replicate 600 CHR ''x'') = body @ [NL])"
proof -
  have "length (show_int 7) = 1" by (simp add: show_int_def show_nat.simps)
  then show ?thesis
    using msg_reply_framed_iff [of "''ann''" "''hi''" 7]
      msg_reply_framed_iff [of "''ann''" "replicate 600 CHR ''x''" 7] by simp
qed

end
