(* ===== verification/Config.thy ===== *)
theory Config
  imports Complex_Main Prelude
begin

text \<open>
  The configuration file parser (\<open>src/config.c\<close>, \<open>include/config.h\<close>).  The content of the file
  is an argument (\<open>None\<close> when it cannot be opened), read by \<open>fgets\<close> into a 512 byte buffer;
  \<open>atof\<close> of the C library is an argument too, the only value it sets is
  \<open>rate_refill_rate\<close>.
\<close>

section \<open>The configuration\<close>

record server_config =
  cfg_port :: int
  thread_pool_size :: int
  max_clients :: int
  max_rooms :: int
  max_members :: int
  history_size :: int
  rate_bucket_max :: int
  rate_refill_rate :: rat
  rate_msg_cost :: int
  tls_cert :: string
  tls_key :: string
  pool_shrink_idle_sec :: int
  pool_min_threads :: int
  cfg_log_level :: string
  cfg_log_file :: string

definition config_defaults :: server_config where
  "config_defaults = \<lparr>cfg_port = 8888, thread_pool_size = 16, max_clients = 64, max_rooms = 16,
     max_members = 16, history_size = 10, rate_bucket_max = 5, rate_refill_rate = 1,
     rate_msg_cost = 1, tls_cert = ''server.crt'', tls_key = ''server.key'',
     pool_shrink_idle_sec = 30, pool_min_threads = 2, cfg_log_level = ''INFO'', cfg_log_file = ''''\<rparr>"

section \<open>The parser\<close>

text \<open>\<open>trim\<close>: without white space at both ends.\<close>

definition trim :: "string \<Rightarrow> string" where
  "trim buf = rev (dropWhile isspace (rev (dropWhile isspace buf)))"

text \<open>
  The successive results of \<open>fgets(line, n + 1, fp)\<close>: up to and including the next newline, but at
  most \<open>n\<close> bytes, so that a long line comes in pieces.
\<close>

fun fgets_lines :: "nat \<Rightarrow> string \<Rightarrow> string \<Rightarrow> string list" where
  "fgets_lines n cur [] = (if cur = [] then [] else [rev cur])"
| "fgets_lines n cur (c # cs) =
     (if c = CHR 0x0A \<or> length cur + 1 \<ge> n then rev (c # cur) # fgets_lines n [] cs
      else fgets_lines n (c # cur) cs)"

text \<open>
  One assignment; an unknown key is skipped.  (A \<open>log_file\<close> of 255 or more characters is cut to 255 here; the program leaves
  the last byte of its buffer unwritten.)
\<close>

definition config_set :: "(string \<Rightarrow> rat) \<Rightarrow> string \<Rightarrow> string \<Rightarrow> server_config \<Rightarrow> server_config" where
  "config_set atof key v cfg =
     (if key = ''port'' then cfg\<lparr>cfg_port := atoi v\<rparr>
      else if key = ''thread_pool_size'' then cfg\<lparr>thread_pool_size := atoi v\<rparr>
      else if key = ''max_clients'' then cfg\<lparr>max_clients := atoi v\<rparr>
      else if key = ''max_rooms'' then cfg\<lparr>max_rooms := atoi v\<rparr>
      else if key = ''max_members'' then cfg\<lparr>max_members := atoi v\<rparr>
      else if key = ''history_size'' then cfg\<lparr>history_size := atoi v\<rparr>
      else if key = ''rate_bucket_max'' then cfg\<lparr>rate_bucket_max := atoi v\<rparr>
      else if key = ''rate_refill_rate'' then cfg\<lparr>rate_refill_rate := atof v\<rparr>
      else if key = ''rate_msg_cost'' then cfg\<lparr>rate_msg_cost := atoi v\<rparr>
      else if key = ''tls_cert'' then cfg\<lparr>tls_cert := take 255 v\<rparr>
      else if key = ''tls_key'' then cfg\<lparr>tls_key := take 255 v\<rparr>
      else if key = ''pool_shrink_idle_sec'' then cfg\<lparr>pool_shrink_idle_sec := atoi v\<rparr>
      else if key = ''pool_min_threads'' then cfg\<lparr>pool_min_threads := atoi v\<rparr>
      else if key = ''log_level'' then cfg\<lparr>cfg_log_level := take 15 v\<rparr>
      else if key = ''log_file'' then cfg\<lparr>cfg_log_file := take 255 v\<rparr>
      else cfg)"

text \<open>The body of the loop over the lines.\<close>

definition config_line :: "(string \<Rightarrow> rat) \<Rightarrow> server_config \<Rightarrow> string \<Rightarrow> server_config" where
  "config_line atof cfg line =
     (let raw = trim (cstr line) in
      if char_at raw 0 \<in> {NUL, CHR ''#'', CHR ''[''} then cfg
      else case dropWhile (\<lambda>c. c \<noteq> CHR ''='') raw of
        [] \<Rightarrow> cfg
      | _ # v \<Rightarrow> config_set atof (trim (takeWhile (\<lambda>c. c \<noteq> CHR ''='') raw)) (trim v) cfg)"

definition config_load :: "(string \<Rightarrow> rat) \<Rightarrow> string option \<Rightarrow> int \<times> server_config" where
  "config_load atof file =
     (case file of
        None \<Rightarrow> (-1, config_defaults)
      | Some content \<Rightarrow> (0, foldl (config_line atof) config_defaults (fgets_lines 511 [] content)))"

section \<open>Lemmas on lines\<close>

lemma fgets_lines_line:
  "CHR 0x0A \<notin> set l \<Longrightarrow> length cur + length l < n \<Longrightarrow>
     fgets_lines n cur (l @ CHR 0x0A # rest) = (rev cur @ l @ [CHR 0x0A]) # fgets_lines n [] rest"
  by (induction l arbitrary: cur) auto

lemma fgets_lines_text:
  "(\<forall>l \<in> set ls. CHR 0x0A \<notin> set l \<and> length l < n) \<Longrightarrow>
     fgets_lines n [] (concat (map (\<lambda>l. l @ [CHR 0x0A]) ls)) = map (\<lambda>l. l @ [CHR 0x0A]) ls"
proof (induction ls)
  case (Cons l ls)
  then show ?case using fgets_lines_line [of l "[]" n] by simp
qed simp

lemma trim_word:
  assumes "w \<noteq> []" and "\<not> isspace (hd w)" and "\<not> isspace (last w)"
    and "\<forall>c \<in> set l. isspace c" and "\<forall>c \<in> set r. isspace c"
  shows "trim (l @ w @ r) = w"
proof -
  have skip: "dropWhile isspace (s @ t) = dropWhile isspace t" if "\<forall>c \<in> set s. isspace c" for s t
    using that by (induction s) auto
  have keep: "dropWhile isspace t = t" if "t \<noteq> []" "\<not> isspace (hd t)" for t
    using that by (cases t) auto
  have "dropWhile isspace (l @ w @ r) = w @ r"
    using skip [OF assms(4)] keep [of "w @ r"] assms(1,2) by simp
  moreover have "dropWhile isspace (rev r @ rev w) = rev w"
    using skip [of "rev r"] keep [of "rev w"] assms by (simp add: hd_rev)
  ultimately show ?thesis by (simp add: trim_def)
qed

text \<open>A key or value as the configuration file has them: one printable word.\<close>

definition word_ok :: "string \<Rightarrow> bool" where
  "word_ok w \<longleftrightarrow> w \<noteq> [] \<and> (\<forall>c \<in> set w. \<not> isspace c \<and> c \<noteq> NUL \<and> c \<noteq> CHR ''='' \<and> c \<noteq> CHR ''#'' \<and> c \<noteq> CHR ''['')"

lemma word_okD:
  assumes "word_ok w"
  shows "w \<noteq> []" and "\<not> isspace (hd w)" and "\<not> isspace (last w)" and "NUL \<notin> set w"
    and "CHR ''='' \<notin> set w" and "hd w \<noteq> CHR ''#''" and "hd w \<noteq> CHR ''[''" and "CHR 0x0A \<notin> set w"
proof -
  have "isspace (CHR 0x0A)" by (simp add: isspace_def)
  with assms show "CHR 0x0A \<notin> set w" by (auto simp: word_ok_def)
qed (use assms in \<open>auto simp: word_ok_def\<close>)

definition assignment :: "string \<Rightarrow> string \<Rightarrow> string" where
  "assignment k v = k @ '' = '' @ v"

lemma config_line_assignment:
  assumes "word_ok k" and "word_ok v"
  shows "config_line atof cfg (assignment k v @ [CHR 0x0A]) = config_set atof k v cfg"
proof -
  note k = word_okD [OF assms(1)] and v = word_okD [OF assms(2)]
  have sp: "isspace (CHR '' '')" "isspace (CHR 0x0A)" "\<not> isspace (CHR ''='')" by (simp_all add: isspace_def)
  have c: "cstr (assignment k v @ [CHR 0x0A]) = assignment k v @ [CHR 0x0A]"
    using k(4) v(4) by (intro cstr_id) (auto simp: assignment_def NUL_def)
  have raw: "trim (assignment k v @ [CHR 0x0A]) = assignment k v"
    using trim_word [of "assignment k v" "[]" "[CHR 0x0A]"] k v sp by (simp add: assignment_def)
  have hd: "char_at (assignment k v) 0 \<notin> {NUL, CHR ''#'', CHR ''[''}"
    using k by (cases k) (auto simp: assignment_def char_at_def)
  have split: "takeWhile (\<lambda>c. c \<noteq> CHR ''='') (assignment k v) = k @ '' ''"
    "dropWhile (\<lambda>c. c \<noteq> CHR ''='') (assignment k v) = CHR ''='' # CHR '' '' # v"
    using k(5) by (auto simp: assignment_def takeWhile_append dropWhile_append)
  have "trim (k @ '' '') = k" "trim (CHR '' '' # v) = v"
    using trim_word [of k "[]" "'' ''"] trim_word [of v "'' ''" "[]"] k v sp by simp_all
  then show ?thesis
    using hd by (simp add: config_line_def c raw Let_def split)
qed

lemma foldl_config_assignments:
  "(\<forall>(k, v) \<in> set kvs. word_ok k \<and> word_ok v) \<Longrightarrow>
     foldl (config_line atof) cfg (map (\<lambda>l. l @ [CHR 0x0A]) (map (\<lambda>(k, v). assignment k v) kvs)) =
     foldl (\<lambda>cfg (k, v). config_set atof k v cfg) cfg kvs"
  by (induction kvs arbitrary: cfg) (auto simp: config_line_assignment)

text \<open>C29: A configuration file made of lines \<open>key = value\<close> is read as exactly these assignments in
  order over the built-in defaults (so the last one for a key wins); a number written in decimal is
  read back as itself, shown for the room and client limits; and a file that cannot be opened gives
  -1 and the defaults.\<close>

theorem config_load_assignments:
  assumes "\<forall>(k, v) \<in> set kvs. word_ok k \<and> word_ok v \<and> length (assignment k v) < 511"
    and "- (2 ^ 31) \<le> i" and "i < 2 ^ 31"
  shows "config_load atof (Some (concat (map (\<lambda>(k, v). assignment k v @ [CHR 0x0A]) kvs))) =
       (0, foldl (\<lambda>cfg (k, v). config_set atof k v cfg) config_defaults kvs) \<and>
     config_set atof ''max_rooms'' (show_int i) cfg = cfg\<lparr>max_rooms := i\<rparr> \<and>
     config_set atof ''max_clients'' (show_int i) cfg = cfg\<lparr>max_clients := i\<rparr> \<and>
     config_load atof None = (-1, config_defaults)"
proof -
  let ?ls = "map (\<lambda>(k, v). assignment k v) kvs"
  have "CHR 0x0A \<notin> set (assignment k v)" if "word_ok k" "word_ok v" for k v
    using that word_okD(8) by (simp add: assignment_def)
  with assms have "\<forall>l \<in> set ?ls. CHR 0x0A \<notin> set l \<and> length l < 511" by auto
  from fgets_lines_text [OF this]
  have "fgets_lines 511 [] (concat (map (\<lambda>(k, v). assignment k v @ [CHR 0x0A]) kvs)) =
      map (\<lambda>l. l @ [CHR 0x0A]) ?ls" by (simp add: comp_def case_prod_unfold)
  with foldl_config_assignments [of kvs atof config_defaults] assms show ?thesis
    by (auto simp: config_load_def config_set_def atoi_show_int)
qed

theorem config_load_assignments_witness:
  "config_load (\<lambda>_. 1) (Some (assignment ''max_rooms'' ''40'' @ [CHR 0x0A] @
       assignment ''colour'' ''blue'' @ [CHR 0x0A])) = (0, config_defaults\<lparr>max_rooms := 40\<rparr>)"
proof -
  have ok: "word_ok ''max_rooms''" "word_ok ''40''" "word_ok ''colour''" "word_ok ''blue''"
    by (simp_all add: word_ok_def isspace_def NUL_def)
  have n: "''40'' = show_int 40" by (simp add: show_int_def show_nat.simps char_of_def bit_0)
  have at: "atoi ''40'' = 40" unfolding n by (rule atoi_show_int) simp_all
  show ?thesis
    using config_load_assignments [of "[(''max_rooms'', ''40''), (''colour'', ''blue'')]" 40 "\<lambda>_. 1"
        config_defaults] ok
    by (simp add: assignment_def config_set_def at)
qed

end
