(* ===== verification/Registry.thy ===== *)
theory Registry
  imports Db Protocol Config
begin

text \<open>
  The registry of rooms and clients (\<open>src/registry.c\<close>, \<open>include/registry.h\<close>).  A
  \<open>room_t *\<close> or \<open>client_t *\<close> is an address into the heaps \<open>room_heap\<close> and
  \<open>client_heap\<close>; a freed object is not in them, so that a dangling pointer is an address without
  an object (or, after the allocator reused it, with another object).  The arrays
  \<open>room_list\<close>, \<open>client_list\<close> and \<open>members\<close> are lists of optional addresses of the length that was
  allocated, beside their fill counts; an array that is \<open>NULL\<close> is the empty list.  The locks are
  held around each operation and not part of the state: the operations here are the critical
  sections, executed one after the other.
\<close>

section \<open>Clients, rooms and the global state\<close>

datatype room_err = ROOM_OK | ROOM_ERR_INVALID_NAME | ROOM_ERR_ALREADY_EXISTS
  | ROOM_ERR_ALREADY_IN_A_ROOM | ROOM_ERR_MAX_ROOMS | ROOM_ERR_ALLOC_FAILED
  | ROOM_ERR_MEMBER_NOT_IN_ROOM | ROOM_ERR_NOT_FOUND | ROOM_ERR_NULL | ROOM_ERR_MAX_MEMBERS
  | ROOM_ERR_INVALID_CLIENT | ROOM_ERR_CLIENT_NOT_FOUND

datatype client_err = CLIENT_OK | CLIENT_ERR_INVALID_NAME | CLIENT_ERR_ALREADY_EXISTS
  | CLIENT_ERR_MAX_CLIENTS | CLIENT_ERR_ALLOC_FAILED | CLIENT_ERR_NOT_FOUND | CLIENT_ERR_NULL

datatype presence_status = PRESENCE_ONLINE | PRESENCE_AWAY | PRESENCE_BUSY

record client =
  socket_fd :: fd
  client_name :: string
  current_room :: "addr option"
  status :: presence_status
  tokens :: rat
  last_refill :: "int \<times> int"

record room =
  room_name :: string
  members :: "addr option list"
  member_count :: nat
  member_capacity :: nat
  admin_client :: "addr option"
  history :: ring

record registry =
  room_heap :: "addr \<rightharpoonup> room"
  client_heap :: "addr \<rightharpoonup> client"
  room_list :: "addr option list"
  room_count :: nat
  room_capacity :: nat
  client_list :: "addr option list"
  client_count :: nat
  client_capacity :: nat
  g_max_members :: nat
  g_history_size :: nat

abbreviation RATE_BUCKET_MAX :: rat where "RATE_BUCKET_MAX \<equiv> 5"
abbreviation RATE_MSG_COST :: rat where "RATE_MSG_COST \<equiv> 1"

text \<open>The static initial values.\<close>

definition registry0 :: registry where
  "registry0 = \<lparr>room_heap = Map.empty, client_heap = Map.empty, room_list = [], room_count = 0,
     room_capacity = 0, client_list = [], client_count = 0, client_capacity = 0,
     g_max_members = 16, g_history_size = 10\<rparr>"

text \<open>
  What can be observed of an operation: \<open>send(fd, s, strlen(s), MSG_NOSIGNAL)\<close>, the reply
  \<open>conn_send(conn, s, strlen(s))\<close> to the connection of the command, \<open>close(fd)\<close>, the use of a
  pointer to a freed object, the name of a freed object as an argument of the log (which reads it
  when the level is enabled) and a write behind the end of a buffer.
\<close>

datatype event = Send fd string | Reply fd string | Close fd | Use_after_free string | Log_freed string | Overflow string

section \<open>Lifecycle\<close>

text \<open>\<open>registry_destroy\<close>: every room and client in the lists is freed.\<close>

definition registry_destroy :: "registry \<Rightarrow> registry" where
  "registry_destroy g =
     g\<lparr>room_heap := (\<lambda>a. if Some a \<in> set (take (room_count g) (room_list g)) then None else room_heap g a),
       room_list := [], room_count := 0, room_capacity := 0,
       client_heap := (\<lambda>a. if Some a \<in> set (take (client_count g) (client_list g)) then None else client_heap g a),
       client_list := [], client_count := 0, client_capacity := 0\<rparr>"

definition registry_init :: "env \<Rightarrow> server_config \<Rightarrow> registry \<Rightarrow> int \<times> registry" where
  "registry_init e cfg g =
     (let need_rooms = (if max_rooms cfg > 0 then max_rooms cfg else 16);
          need_clients = (if max_clients cfg > 0 then max_clients cfg else 64);
          need_members = (if max_members cfg > 0 then max_members cfg else 16);
          need_history = (if history_size cfg \<ge> 0 then history_size cfg else 10);
          g1 = (if room_list g \<noteq> [] \<or> client_list g \<noteq> [] then registry_destroy g else g) in
      if \<not> fst (env_alloc_lists e) then (-1, g1\<lparr>room_list := []\<rparr>)
      else if \<not> snd (env_alloc_lists e) then (-1, g1\<lparr>room_list := [], client_list := []\<rparr>)
      else (0, g1\<lparr>room_list := replicate (nat need_rooms) None, client_list := replicate (nat need_clients) None,
             room_capacity := nat need_rooms, client_capacity := nat need_clients,
             room_count := 0, client_count := 0,
             g_max_members := nat need_members, g_history_size := nat need_history\<rparr>))"

definition registry_ensure_init :: "env \<Rightarrow> registry \<Rightarrow> registry" where
  "registry_ensure_init e g =
     (if room_list g = [] \<and> client_list g = [] then snd (registry_init e config_defaults g) else g)"

section \<open>Finding\<close>

definition room_name_at :: "registry \<Rightarrow> addr option \<Rightarrow> string option" where
  "room_name_at g p = (case p of None \<Rightarrow> None | Some a \<Rightarrow> map_option room_name (room_heap g a))"

definition client_name_at :: "registry \<Rightarrow> addr option \<Rightarrow> string option" where
  "client_name_at g p = (case p of None \<Rightarrow> None | Some a \<Rightarrow> map_option client_name (client_heap g a))"

definition find_room :: "registry \<Rightarrow> string \<Rightarrow> addr option \<times> room_err" where
  "find_room g nm =
     (if length nm = 0 \<or> length nm \<ge> MAX_ROOM_NAME_LEN then (None, ROOM_ERR_INVALID_NAME)
      else case scan (\<lambda>p. room_name_at g p = Some nm) (room_list g) 0 (room_count g) of
        Some i \<Rightarrow> (room_list g ! i, ROOM_OK)
      | None \<Rightarrow> (None, ROOM_ERR_NOT_FOUND))"

definition find_client :: "registry \<Rightarrow> string \<Rightarrow> addr option \<times> client_err" where
  "find_client g nm =
     (case scan (\<lambda>p. client_name_at g p = Some nm) (client_list g) 0 (client_count g) of
        Some i \<Rightarrow> (client_list g ! i, CLIENT_OK)
      | None \<Rightarrow> (None, CLIENT_ERR_NOT_FOUND))"

section \<open>Clients\<close>

definition new_client :: "env \<Rightarrow> fd \<Rightarrow> string \<Rightarrow> client" where
  "new_client e f nm = \<lparr>socket_fd = f, client_name = strncpy_term MAX_USERNAME_LEN nm,
     current_room = None, status = PRESENCE_ONLINE, tokens = RATE_BUCKET_MAX, last_refill = env_mono e\<rparr>"

definition add_client :: "registry \<Rightarrow> addr \<Rightarrow> client \<Rightarrow> registry" where
  "add_client g a c = g\<lparr>client_heap := (client_heap g)(a \<mapsto> c),
     client_list := (client_list g)[client_count g := Some a], client_count := client_count g + 1\<rparr>"

definition create_client :: "env \<Rightarrow> registry \<Rightarrow> fd \<Rightarrow> string \<Rightarrow> addr option \<times> client_err \<times> registry" where
  "create_client e g f nm =
     (if length nm = 0 \<or> length nm \<ge> MAX_USERNAME_LEN then (None, CLIENT_ERR_INVALID_NAME, g)
      else let g1 = registry_ensure_init e g in
        if client_capacity g1 = 0 \<or> client_list g1 = [] then (None, CLIENT_ERR_MAX_CLIENTS, g1)
        else if client_count g1 \<ge> client_capacity g1 then (None, CLIENT_ERR_MAX_CLIENTS, g1)
        else if fst (find_client g1 nm) \<noteq> None then (None, CLIENT_ERR_ALREADY_EXISTS, g1)
        else case env_alloc_client e of
          None \<Rightarrow> (None, CLIENT_ERR_ALLOC_FAILED, g1)
        | Some a \<Rightarrow> (Some a, CLIENT_OK, add_client g1 a (new_client e f nm)))"

definition delete_client :: "registry \<Rightarrow> addr option \<Rightarrow> client_err \<times> registry" where
  "delete_client g p =
     (case p of
        None \<Rightarrow> (CLIENT_ERR_NULL, g)
      | Some a \<Rightarrow>
          (case scan (\<lambda>q. q = Some a) (client_list g) 0 (client_count g) of
             None \<Rightarrow> (CLIENT_ERR_NOT_FOUND, g)
           | Some i \<Rightarrow>
               let n = client_count g - 1;
                   l = (if i \<noteq> n then shift_array (client_list g) i n else client_list g) in
               (CLIENT_OK, g\<lparr>client_count := n, client_list := l[n := None],
                  client_heap := (client_heap g)(a := None)\<rparr>)))"

section \<open>Rooms\<close>

text \<open>A stored row as an entry of the history buffer.\<close>

definition message_of_row :: "msg_row \<Rightarrow> message" where
  "message_of_row r = \<lparr>msg_id = row_id r, msg_sender = strncpy_term MAX_USERNAME_LEN (row_sender r),
     msg_text = strncpy_term MAX_TEXT_LEN (row_text r), msg_timestamp = row_timestamp r,
     msg_deleted = row_deleted r, msg_edited_at = row_edited_at r\<rparr>"

definition load_room_history :: "env \<Rightarrow> store \<Rightarrow> string \<Rightarrow> nat \<Rightarrow> ring" where
  "load_room_history e db nm cap =
     (if cap > 0 \<and> env_alloc_rows e
      then foldl ring_load (ring_new cap) (map message_of_row (db_load_history e db nm (int cap)))
      else ring_new cap)"

definition add_room :: "registry \<Rightarrow> addr \<Rightarrow> room \<Rightarrow> registry" where
  "add_room g a r = g\<lparr>room_heap := (room_heap g)(a \<mapsto> r),
     room_list := (room_list g)[room_count g := Some a], room_count := room_count g + 1\<rparr>"

definition new_room :: "env \<Rightarrow> store \<Rightarrow> registry \<Rightarrow> string \<Rightarrow> addr option \<Rightarrow> room" where
  "new_room e db g nm creator =
     \<lparr>room_name = strncpy_term MAX_ROOM_NAME_LEN nm,
       members = replicate (g_max_members g) None, member_count = 0,
       member_capacity = g_max_members g, admin_client = creator,
       history = load_room_history e db nm (g_history_size g)\<rparr>"

definition create_room ::
  "env \<Rightarrow> store \<Rightarrow> registry \<Rightarrow> string \<Rightarrow> addr option \<Rightarrow> addr option \<times> room_err \<times> registry" where
  "create_room e db g nm creator =
     (if creator = None then (None, ROOM_ERR_INVALID_CLIENT, g)
      else if length nm = 0 \<or> length nm \<ge> MAX_ROOM_NAME_LEN then (None, ROOM_ERR_INVALID_NAME, g)
      else let g1 = registry_ensure_init e g in
        if room_capacity g1 = 0 \<or> room_list g1 = [] then (None, ROOM_ERR_MAX_ROOMS, g1)
        else if room_count g1 \<ge> room_capacity g1 then (None, ROOM_ERR_MAX_ROOMS, g1)
        else if fst (find_room g1 nm) \<noteq> None then (None, ROOM_ERR_ALREADY_EXISTS, g1)
        else case env_alloc_room e of
          None \<Rightarrow> (None, ROOM_ERR_ALLOC_FAILED, g1)
        | Some a \<Rightarrow>
            if g_max_members g1 > 0 \<and> \<not> env_alloc_members e then (None, ROOM_ERR_ALLOC_FAILED, g1)
            else if g_history_size g1 > 0 \<and> \<not> env_alloc_history e then (None, ROOM_ERR_ALLOC_FAILED, g1)
            else if \<not> env_mutex_init e then (None, ROOM_ERR_ALLOC_FAILED, g1)
            else (Some a, ROOM_OK, add_room g1 a (new_room e db g1 nm creator)))"

text \<open>
  The operations on a room take its address.  A call with a dangling address reads freed memory; the
  callers in the theory \<open>Client_Handler\<close> test for it and report it, so here such a call changes
  nothing and answers as for \<open>NULL\<close>.
\<close>

definition room_add_member :: "registry \<Rightarrow> addr option \<Rightarrow> addr option \<Rightarrow> room_err \<times> registry" where
  "room_add_member g rp cp =
     (case rp of None \<Rightarrow> (ROOM_ERR_NULL, g) | Some ra \<Rightarrow>
      (case cp of None \<Rightarrow> (ROOM_ERR_INVALID_CLIENT, g) | Some ca \<Rightarrow>
      (case client_heap g ca of None \<Rightarrow> (ROOM_ERR_INVALID_CLIENT, g) | Some c \<Rightarrow>
      (if current_room c \<noteq> None then (ROOM_ERR_ALREADY_IN_A_ROOM, g)
      else case room_heap g ra of None \<Rightarrow> (ROOM_ERR_NULL, g) | Some r \<Rightarrow>
        (if member_count r \<ge> member_capacity r then (ROOM_ERR_MAX_MEMBERS, g)
        else if members r = [] then (ROOM_ERR_MAX_MEMBERS, g)
        else (ROOM_OK, g\<lparr>room_heap := (room_heap g)(ra \<mapsto>
               r\<lparr>members := (members r)[member_count r := Some ca],
                 member_count := member_count r + 1\<rparr>)\<rparr>))))))"

definition room_remove_member :: "registry \<Rightarrow> addr option \<Rightarrow> addr option \<Rightarrow> room_err \<times> registry" where
  "room_remove_member g rp cp =
     (case rp of None \<Rightarrow> (ROOM_ERR_NULL, g) | Some ra \<Rightarrow>
      (case cp of None \<Rightarrow> (ROOM_ERR_INVALID_CLIENT, g) | Some ca \<Rightarrow>
      (case room_heap g ra of None \<Rightarrow> (ROOM_ERR_NULL, g) | Some r \<Rightarrow>
      (case scan (\<lambda>q. q = Some ca) (members r) 0 (member_count r) of
        None \<Rightarrow> (ROOM_ERR_CLIENT_NOT_FOUND, g)
      | Some i \<Rightarrow>
          (let n = member_count r - 1;
              l = (if i \<noteq> n then shift_array (members r) i n else members r) in
          (ROOM_OK, g\<lparr>room_heap := (room_heap g)(ra \<mapsto> r\<lparr>member_count := n, members := l[n := None]\<rparr>)\<rparr>))))))"

text \<open>
  \<open>room_broadcast\<close>: a snapshot of the members' descriptors, then one \<open>send\<close> to each other one.  A member that is not a live client
  would be read after it was freed; \<open>registry_inv\<close> below excludes it, and the snapshot has -1 in its place.
\<close>

definition member_fds :: "registry \<Rightarrow> room \<Rightarrow> fd list" where
  "member_fds g r = map (\<lambda>p. case p of None \<Rightarrow> -1 | Some a \<Rightarrow> (case client_heap g a of None \<Rightarrow> -1 | Some c \<Rightarrow> socket_fd c))
     (take (member_count r) (members r))"

definition room_broadcast :: "env \<Rightarrow> registry \<Rightarrow> addr option \<Rightarrow> string \<Rightarrow> fd \<Rightarrow> event list" where
  "room_broadcast e g rp msg exclude_fd =
     (case rp of None \<Rightarrow> [] | Some ra \<Rightarrow>
      (case room_heap g ra of None \<Rightarrow> [] | Some r \<Rightarrow>
      (if member_count r > 0 \<and> members r \<noteq> [] \<and> env_alloc_fds e
      then map (\<lambda>f. Send f msg) (filter (\<lambda>f. f \<noteq> exclude_fd) (member_fds g r))
      else [])))"

definition update_room :: "registry \<Rightarrow> addr \<Rightarrow> (room \<Rightarrow> room) \<Rightarrow> registry" where
  "update_room g ra f = g\<lparr>room_heap := (room_heap g)(ra := map_option f (room_heap g ra))\<rparr>"

definition update_client :: "registry \<Rightarrow> addr \<Rightarrow> (client \<Rightarrow> client) \<Rightarrow> registry" where
  "update_client g ca f = g\<lparr>client_heap := (client_heap g)(ca := map_option f (client_heap g ca))\<rparr>"

definition room_add_history ::
  "env \<Rightarrow> store \<Rightarrow> registry \<Rightarrow> addr option \<Rightarrow> string \<Rightarrow> string \<Rightarrow> int \<times> store \<times> registry" where
  "room_add_history e db g rp sender t =
     (case rp of None \<Rightarrow> (-1, db, g) | Some ra \<Rightarrow>
      (case room_heap g ra of None \<Rightarrow> (-1, db, g) | Some r \<Rightarrow>
      (let (saved, db1) = db_save_message e db (room_name r) sender t;
          mid = (if saved \<le> 0 then env_now e * 1000000 + env_rand e mod 1000000 else saved);
          m = \<lparr>msg_id = mid, msg_sender = strncpy_term MAX_USERNAME_LEN sender,
               msg_text = strncpy_term MAX_TEXT_LEN t, msg_timestamp = env_now e,
               msg_deleted = False, msg_edited_at = 0\<rparr> in
      (mid, db1, update_room g ra (\<lambda>r. r\<lparr>history := ring_add (history r) m\<rparr>)))))"

definition history_line :: "message \<Rightarrow> string" where
  "history_line m =
     (if msg_deleted m
      then snprintf_out MAX_LINE_LEN (''MSG '' @ show_int (msg_id m) @ '' '' @ msg_sender m @ '' [deleted]'' @ [NL])
      else format_msg_reply_id MAX_LINE_LEN (msg_id m) (msg_sender m) (msg_text m))"

definition room_send_history :: "registry \<Rightarrow> addr option \<Rightarrow> fd \<Rightarrow> event list" where
  "room_send_history g rp f =
     (case rp of None \<Rightarrow> [] | Some ra \<Rightarrow>
      (case room_heap g ra of None \<Rightarrow> [] | Some r \<Rightarrow>
      (if history_capacity (history r) = 0 \<or> ring_stored (history r) = 0 then []
      else Send f (snprintf_out MAX_LINE_LEN (''NOTICE history START '' @ room_name r @ [NL])) #
           map (\<lambda>m. Send f (history_line m)) (ring_walk (history r)) @
           [Send f (snprintf_out MAX_LINE_LEN (''NOTICE history END '' @ room_name r @ [NL]))])))"

definition room_find_message :: "registry \<Rightarrow> addr option \<Rightarrow> int \<Rightarrow> message option" where
  "room_find_message g rp mid =
     (case rp of None \<Rightarrow> None | Some ra \<Rightarrow>
      (case room_heap g ra of None \<Rightarrow> None | Some r \<Rightarrow>
      map_option (\<lambda>i. slots (history r) ! i) (ring_find_message (history r) mid)))"

definition room_edit_message ::
  "env \<Rightarrow> store \<Rightarrow> registry \<Rightarrow> addr option \<Rightarrow> int \<Rightarrow> string \<Rightarrow> string \<Rightarrow> int \<times> store \<times> registry" where
  "room_edit_message e db g rp mid requester new_text =
     (case rp of None \<Rightarrow> (-1, db, g) | Some ra \<Rightarrow>
      (case room_heap g ra of None \<Rightarrow> (-1, db, g) | Some r \<Rightarrow>
      (let (rc, h) = ring_edit (env_now e) (history r) mid requester new_text in
      if rc \<noteq> 0 then (rc, db, g)
      else (0, snd (db_edit_message e db mid new_text), update_room g ra (\<lambda>r. r\<lparr>history := h\<rparr>)))))"

definition room_delete_message ::
  "env \<Rightarrow> store \<Rightarrow> registry \<Rightarrow> addr option \<Rightarrow> int \<Rightarrow> string \<Rightarrow> bool \<Rightarrow> int \<times> store \<times> registry" where
  "room_delete_message e db g rp mid requester is_admin =
     (case rp of None \<Rightarrow> (-1, db, g) | Some ra \<Rightarrow>
      (case room_heap g ra of None \<Rightarrow> (-1, db, g) | Some r \<Rightarrow>
      (let (rc, h) = ring_delete (history r) mid requester is_admin in
      if rc \<noteq> 0 then (rc, db, g)
      else (0, snd (db_delete_message e db mid), update_room g ra (\<lambda>r. r\<lparr>history := h\<rparr>)))))"

text \<open>\<open>delete_room\<close> unlinks the room, then \<open>room_destroy\<close> frees it.\<close>

definition room_destroy :: "registry \<Rightarrow> addr \<Rightarrow> registry" where
  "room_destroy g ra = g\<lparr>room_heap := (room_heap g)(ra := None)\<rparr>"

definition delete_room :: "registry \<Rightarrow> addr option \<Rightarrow> room_err \<times> registry" where
  "delete_room g rp =
     (case rp of
        None \<Rightarrow> (ROOM_ERR_NULL, g)
      | Some ra \<Rightarrow>
          (case scan (\<lambda>q. q = Some ra) (room_list g) 0 (room_count g) of
             None \<Rightarrow> (ROOM_ERR_NOT_FOUND, g)
           | Some i \<Rightarrow>
               let n = room_count g - 1;
                   l = (if i \<noteq> n then shift_array (room_list g) i n else room_list g) in
               (ROOM_OK, room_destroy (g\<lparr>room_count := n, room_list := l[n := None]\<rparr>) ra)))"

definition room_delete_if_empty :: "registry \<Rightarrow> addr option \<Rightarrow> registry" where
  "room_delete_if_empty g rp =
     (case rp of None \<Rightarrow> g | Some ra \<Rightarrow>
      (case room_heap g ra of None \<Rightarrow> g | Some r \<Rightarrow>
      (if member_count r = 0 then snd (delete_room g rp) else g)))"

definition notify_all_clients :: "env \<Rightarrow> registry \<Rightarrow> string \<Rightarrow> event list" where
  "notify_all_clients e g msg =
     (if client_count g > 0 \<and> client_list g \<noteq> [] \<and> env_alloc_fds e
      then map (\<lambda>p. Send (case p of None \<Rightarrow> -1 | Some a \<Rightarrow> (case client_heap g a of None \<Rightarrow> -1 | Some c \<Rightarrow> socket_fd c)) msg)
        (take (client_count g) (client_list g))
      else [])"

section \<open>The invariant of the registry\<close>

text \<open>The clients whose \<open>current_room\<close> points to a room.\<close>

definition occupants :: "registry \<Rightarrow> addr \<Rightarrow> addr set" where
  "occupants g ra = {ca. \<exists>c. client_heap g ca = Some c \<and> current_room c = Some ra}"

definition room_ok :: "registry \<Rightarrow> addr \<Rightarrow> room \<Rightarrow> bool" where
  "room_ok g ra r \<longleftrightarrow> counted (members r) (member_count r) (member_capacity r) (occupants g ra) \<and>
     0 < length (room_name r) \<and> length (room_name r) < MAX_ROOM_NAME_LEN \<and> ring_inv (history r)"

definition client_ok :: "registry \<Rightarrow> client \<Rightarrow> bool" where
  "client_ok g c \<longleftrightarrow> 0 < length (client_name c) \<and> length (client_name c) < MAX_USERNAME_LEN \<and>
     (\<forall>ra. current_room c = Some ra \<longrightarrow> room_heap g ra \<noteq> None)"

text \<open>
  The lists hold exactly the allocated rooms and clients; the members of a room are exactly the
  clients that are in it, each once; a client's room exists; room names are unique.
\<close>

definition registry_inv :: "registry \<Rightarrow> bool" where
  "registry_inv g \<longleftrightarrow>
     counted (room_list g) (room_count g) (room_capacity g) (dom (room_heap g)) \<and>
     counted (client_list g) (client_count g) (client_capacity g) (dom (client_heap g)) \<and>
     (\<forall>ra r. room_heap g ra = Some r \<longrightarrow> room_ok g ra r) \<and>
     (\<forall>ca c. client_heap g ca = Some c \<longrightarrow> client_ok g c) \<and>
     (\<forall>ra rb r r'. room_heap g ra = Some r \<longrightarrow> room_heap g rb = Some r' \<longrightarrow>
        room_name r = room_name r' \<longrightarrow> ra = rb) \<and>
     g_history_size g \<le> 1000000"

text \<open>What \<open>malloc\<close> promises: the block it returns overlaps no live object.\<close>

definition fresh_blocks :: "env \<Rightarrow> registry \<Rightarrow> bool" where
  "fresh_blocks e g \<longleftrightarrow>
     (\<forall>a. env_alloc_room e = Some a \<longrightarrow> a \<notin> dom (room_heap g)) \<and>
     (\<forall>a. env_alloc_client e = Some a \<longrightarrow> a \<notin> dom (client_heap g))"

lemma registry_invD:
  assumes "registry_inv g"
  shows "counted (room_list g) (room_count g) (room_capacity g) (dom (room_heap g))"
    and "counted (client_list g) (client_count g) (client_capacity g) (dom (client_heap g))"
    and "room_heap g ra = Some r \<Longrightarrow> room_ok g ra r"
    and "client_heap g ca = Some c \<Longrightarrow> client_ok g c"
    and "room_heap g ra = Some r \<Longrightarrow> room_heap g rb = Some r' \<Longrightarrow> room_name r = room_name r' \<Longrightarrow> ra = rb"
    and "g_history_size g \<le> 1000000"
  using assms unfolding registry_inv_def by blast+

lemma registry_invI:
  assumes "counted (room_list g) (room_count g) (room_capacity g) (dom (room_heap g))"
    and "counted (client_list g) (client_count g) (client_capacity g) (dom (client_heap g))"
    and "\<And>ra r. room_heap g ra = Some r \<Longrightarrow> room_ok g ra r"
    and "\<And>ca c. client_heap g ca = Some c \<Longrightarrow> client_ok g c"
    and "\<And>ra rb r r'. room_heap g ra = Some r \<Longrightarrow> room_heap g rb = Some r' \<Longrightarrow>
       room_name r = room_name r' \<Longrightarrow> ra = rb"
    and "g_history_size g \<le> 1000000"
  shows "registry_inv g"
  using assms unfolding registry_inv_def by blast

lemma current_room_live:
  "registry_inv g \<Longrightarrow> client_heap g ca = Some c \<Longrightarrow> current_room c = Some ra \<Longrightarrow> \<exists>r. room_heap g ra = Some r"
  using registry_invD(4) by (fastforce simp: client_ok_def)

lemma occupants_fresh: "registry_inv g \<Longrightarrow> room_heap g ra = None \<Longrightarrow> occupants g ra = {}"
  using current_room_live by (fastforce simp: occupants_def)

subsection \<open>Updates that leave membership alone\<close>

lemma inv_update_client:
  assumes "registry_inv g"
    and "\<And>c. current_room (f c) = current_room c" and "\<And>c. client_name (f c) = client_name c"
  shows "registry_inv (update_client g ca f)"
proof -
  have occ: "occupants (update_client g ca f) ra = occupants g ra" for ra
    using assms(2) by (auto simp: occupants_def update_client_def)
  have dom: "dom (client_heap (update_client g ca f)) = dom (client_heap g)"
    by (auto simp: update_client_def)
  note inv = registry_invD [OF assms(1)]
  show ?thesis
  proof (rule registry_invI)
    fix cb c assume "client_heap (update_client g ca f) cb = Some c"
    then show "client_ok (update_client g ca f) c"
      using inv(4) [of cb] assms(2,3) by (auto simp: update_client_def client_ok_def split: if_splits)
  next
    fix ra r assume "room_heap (update_client g ca f) ra = Some r"
    then show "room_ok (update_client g ca f) ra r"
      using inv(3) [of ra r] by (simp add: room_ok_def occ) (simp add: update_client_def)
  qed (use inv dom in \<open>auto simp: update_client_def\<close>)
qed

lemma inv_update_room:
  assumes "registry_inv g"
    and "\<And>r. members (f r) = members r \<and> member_count (f r) = member_count r \<and>
           member_capacity (f r) = member_capacity r \<and> room_name (f r) = room_name r"
    and "\<And>r. room_heap g ra = Some r \<Longrightarrow> ring_inv (history (f r))"
  shows "registry_inv (update_room g ra f)"
proof -
  have occ: "occupants (update_room g ra f) rb = occupants g rb" for rb
    by (simp add: occupants_def update_room_def)
  have dom: "dom (room_heap (update_room g ra f)) = dom (room_heap g)"
    by (auto simp: update_room_def)
  note inv = registry_invD [OF assms(1)]
  show ?thesis
  proof (rule registry_invI)
    fix cb c assume "client_heap (update_room g ra f) cb = Some c"
    then show "client_ok (update_room g ra f) c"
      using inv(4) [of cb c] by (auto simp: update_room_def client_ok_def)
  next
    fix rb r assume "room_heap (update_room g ra f) rb = Some r"
    then show "room_ok (update_room g ra f) rb r"
      using inv(3) [of rb] assms(2,3) unfolding room_ok_def occ
      by (auto simp: update_room_def split: if_splits)
  qed (use inv dom assms(2) in \<open>auto simp: update_room_def split: if_splits\<close>)
qed

subsection \<open>Entering and leaving a room\<close>

text \<open>\<open>client->current_room = room\<close>.\<close>

definition set_room :: "registry \<Rightarrow> addr \<Rightarrow> addr option \<Rightarrow> registry" where
  "set_room g ca rp = update_client g ca (\<lambda>c. c\<lparr>current_room := rp\<rparr>)"

lemma inv_members_change:
  assumes inv: "registry_inv g" and c: "client_heap g ca = Some c" and r: "room_heap g ra = Some r"
    and r': "room_name r' = room_name r" "history r' = history r"
    and other: "current_room c = None \<or> current_room c = Some ra"
    and mem: "counted (members r') (member_count r') (member_capacity r')
       (if rp = Some ra then insert ca (occupants g ra) else occupants g ra - {ca})"
    and rp: "rp = None \<or> rp = Some ra"
  shows "registry_inv (set_room (g\<lparr>room_heap := (room_heap g)(ra \<mapsto> r')\<rparr>) ca rp)"
proof -
  let ?g = "set_room (g\<lparr>room_heap := (room_heap g)(ra \<mapsto> r')\<rparr>) ca rp"
  note i = registry_invD [OF inv]
  have ch: "client_heap ?g = (client_heap g)(ca \<mapsto> c\<lparr>current_room := rp\<rparr>)"
    and rh: "room_heap ?g = (room_heap g)(ra \<mapsto> r')"
    using c by (simp_all add: set_room_def update_client_def fun_eq_iff)
  have occ: "occupants ?g rb = (if rb = ra then (if rp = Some ra then insert ca (occupants g ra)
      else occupants g ra - {ca}) else occupants g rb)" for rb
    using c other rp by (auto simp: occupants_def ch)
  have dom: "dom (client_heap ?g) = dom (client_heap g)" "dom (room_heap ?g) = dom (room_heap g)"
    using c r by (auto simp: ch rh)
  have same: "room_list ?g = room_list g" "room_count ?g = room_count g" "room_capacity ?g = room_capacity g"
    "client_list ?g = client_list g" "client_count ?g = client_count g"
    "client_capacity ?g = client_capacity g" "g_history_size ?g = g_history_size g"
    by (simp_all add: set_room_def update_client_def)
  show ?thesis
  proof (rule registry_invI)
    fix rb rr assume "room_heap ?g rb = Some rr"
    then show "room_ok ?g rb rr"
      using i(3) [of rb rr] i(3) [OF r] r' mem unfolding room_ok_def occ rh by (auto split: if_splits)
  next
    fix cb cc assume "client_heap ?g cb = Some cc"
    then show "client_ok ?g cc"
      using i(4) [of cb cc] i(4) [OF c] rp unfolding client_ok_def ch rh by (auto split: if_splits)
  next
    fix rb rc b c' assume "room_heap ?g rb = Some b" "room_heap ?g rc = Some c'" "room_name b = room_name c'"
    then show "rb = rc" using i(5) r r'(1) unfolding rh by (auto split: if_splits)
  qed (use i(1,2,6) in \<open>simp_all add: dom same\<close>)
qed

lemma room_add_member_OK:
  assumes "room_add_member g rp cp = (ROOM_OK, g')"
  obtains ra ca c r where "rp = Some ra" "cp = Some ca" "client_heap g ca = Some c" "current_room c = None"
    "room_heap g ra = Some r" "member_count r < member_capacity r"
    "g' = g\<lparr>room_heap := (room_heap g)(ra \<mapsto> r\<lparr>members := (members r)[member_count r := Some ca],
       member_count := member_count r + 1\<rparr>)\<rparr>"
  using assms unfolding room_add_member_def
  by (auto split: option.splits if_splits)

lemma room_add_member_err: "fst (room_add_member g rp cp) \<noteq> ROOM_OK \<Longrightarrow> snd (room_add_member g rp cp) = g"
  by (auto simp: room_add_member_def split: option.splits)

lemma inv_enter:
  assumes "registry_inv g" and "room_add_member g (Some ra) (Some ca) = (ROOM_OK, g')"
  shows "registry_inv (set_room g' ca (Some ra))"
proof -
  obtain c r where c: "client_heap g ca = Some c" "current_room c = None"
    and r: "room_heap g ra = Some r" "member_count r < member_capacity r"
    and g': "g' = g\<lparr>room_heap := (room_heap g)(ra \<mapsto> r\<lparr>members := (members r)[member_count r := Some ca],
       member_count := member_count r + 1\<rparr>)\<rparr>"
    using room_add_member_OK [OF assms(2)] by blast
  have "ca \<notin> occupants g ra" using c by (simp add: occupants_def)
  with registry_invD(3) [OF assms(1) r(1)] r(2) have "counted ((members r)[member_count r := Some ca])
      (member_count r + 1) (member_capacity r) (insert ca (occupants g ra))"
    by (intro counted_append) (simp_all add: room_ok_def)
  then show ?thesis
    unfolding g' using c r by (intro inv_members_change [OF assms(1) c(1) r(1)]) simp_all
qed

text \<open>A client in a room is always found among its members, so leaving succeeds.\<close>

lemma inv_leave:
  assumes inv: "registry_inv g" and c: "client_heap g ca = Some c" "current_room c = Some ra"
  obtains g' r where "room_remove_member g (Some ra) (Some ca) = (ROOM_OK, g')" "room_heap g ra = Some r"
    "registry_inv (set_room g' ca None)" "client_heap g' = client_heap g"
    "\<exists>r'. room_heap g' = (room_heap g)(ra \<mapsto> r') \<and> room_name r' = room_name r \<and> admin_client r' = admin_client r \<and>
       history r' = history r \<and> member_count r' = member_count r - 1 \<and>
       member_capacity r' = member_capacity r \<and> 0 < member_count r"
proof -
  obtain r where r: "room_heap g ra = Some r" using current_room_live [OF inv c] by auto
  have mem: "counted (members r) (member_count r) (member_capacity r) (occupants g ra)"
    using registry_invD(3) [OF inv r] by (simp add: room_ok_def)
  have "ca \<in> occupants g ra" using c by (simp add: occupants_def)
  then obtain i where i: "scan (\<lambda>q. q = Some ca) (members r) 0 (member_count r) = Some i"
    using counted_scan_None [OF mem, of ca] by fastforce
  then have pos: "0 < member_count r" by (auto simp: scan_Some)
  let ?n = "member_count r - 1"
  let ?r' = "r\<lparr>member_count := ?n,
      members := (if i \<noteq> ?n then shift_array (members r) i ?n else members r)[?n := None]\<rparr>"
  have "registry_inv (set_room (g\<lparr>room_heap := (room_heap g)(ra \<mapsto> ?r')\<rparr>) ca None)"
    using counted_remove [OF mem i] c by (intro inv_members_change [OF inv c(1) r]) simp_all
  with r i pos show thesis
    by (intro that [of "g\<lparr>room_heap := (room_heap g)(ra \<mapsto> ?r')\<rparr>" r])
      (auto simp: room_remove_member_def Let_def)
qed

subsection \<open>Deleting rooms and clients\<close>

lemma inv_delete_if_empty:
  assumes inv: "registry_inv g"
  shows "registry_inv (room_delete_if_empty g rp)"
proof (cases "\<exists>ra r. rp = Some ra \<and> room_heap g ra = Some r \<and> member_count r = 0")
  case False
  then have "room_delete_if_empty g rp = g"
    by (auto simp: room_delete_if_empty_def split: option.split)
  with inv show ?thesis by simp
next
  case True
  then obtain ra r where rp: "rp = Some ra" and r: "room_heap g ra = Some r" "member_count r = 0" by auto
  note i = registry_invD [OF inv]
  have empty: "occupants g ra = {}"
    using i(3) [OF r(1)] r(2) by (simp add: room_ok_def counted_def)
  obtain k where k: "scan (\<lambda>q. q = Some ra) (room_list g) 0 (room_count g) = Some k"
    using counted_scan_None [OF i(1), of ra] r by fastforce
  let ?n = "room_count g - 1"
  let ?l = "(if k \<noteq> ?n then shift_array (room_list g) k ?n else room_list g)[?n := None]"
  let ?g = "g\<lparr>room_count := ?n, room_list := ?l, room_heap := (room_heap g)(ra := None)\<rparr>"
  have g': "room_delete_if_empty g rp = ?g"
    using rp r k by (simp add: room_delete_if_empty_def delete_room_def room_destroy_def Let_def)
  have occ: "occupants ?g = occupants g" by (simp add: occupants_def fun_eq_iff)
  have away: "current_room c \<noteq> Some ra" if "client_heap g cb = Some c" for cb c
    using empty that by (auto simp: occupants_def)
  have "registry_inv ?g"
  proof (rule registry_invI)
    show "counted (room_list ?g) (room_count ?g) (room_capacity ?g) (dom (room_heap ?g))"
      using counted_remove [OF i(1) k] by (simp add: dom_fun_upd)
  next
    fix cb c assume "client_heap ?g cb = Some c"
    then show "client_ok ?g c" using i(4) [of cb c] away [of cb c] by (auto simp: client_ok_def)
  next
    fix rb r' assume "room_heap ?g rb = Some r'"
    then show "room_ok ?g rb r'"
      using i(3) [of rb r'] unfolding room_ok_def occ by (auto split: if_splits)
  qed (use i in \<open>auto split: if_splits\<close>)
  with g' show ?thesis by simp
qed

lemma inv_delete_client:
  assumes inv: "registry_inv g" and c: "client_heap g ca = Some c" "current_room c = None"
  shows "registry_inv (snd (delete_client g (Some ca)))" and "fst (delete_client g (Some ca)) = CLIENT_OK"
    and "client_heap (snd (delete_client g (Some ca))) = (client_heap g)(ca := None)"
    and "room_heap (snd (delete_client g (Some ca))) = room_heap g"
proof -
  note i = registry_invD [OF inv]
  obtain k where k: "scan (\<lambda>q. q = Some ca) (client_list g) 0 (client_count g) = Some k"
    using counted_scan_None [OF i(2), of ca] c by fastforce
  let ?n = "client_count g - 1"
  let ?l = "(if k \<noteq> ?n then shift_array (client_list g) k ?n else client_list g)[?n := None]"
  let ?g = "g\<lparr>client_count := ?n, client_list := ?l, client_heap := (client_heap g)(ca := None)\<rparr>"
  have g': "delete_client g (Some ca) = (CLIENT_OK, ?g)"
    using k by (simp add: delete_client_def Let_def)
  have occ: "occupants ?g = occupants g" using c by (auto simp: occupants_def fun_eq_iff)
  have "registry_inv ?g"
  proof (rule registry_invI)
    show "counted (client_list ?g) (client_count ?g) (client_capacity ?g) (dom (client_heap ?g))"
      using counted_remove [OF i(2) k] by (simp add: dom_fun_upd)
  next
    fix rb r' assume "room_heap ?g rb = Some r'"
    then show "room_ok ?g rb r'" using i(3) [of rb r'] unfolding room_ok_def occ by simp
  next
    fix cb c assume "client_heap ?g cb = Some c"
    then show "client_ok ?g c" using i(4) [of cb c] by (auto simp: client_ok_def split: if_splits)
  qed (use i in auto)
  then show "registry_inv (snd (delete_client g (Some ca)))" "fst (delete_client g (Some ca)) = CLIENT_OK"
    "client_heap (snd (delete_client g (Some ca))) = (client_heap g)(ca := None)"
    "room_heap (snd (delete_client g (Some ca))) = room_heap g"
    by (simp_all add: g')
qed

subsection \<open>Creating rooms and clients\<close>

lemma inv_add_client:
  assumes inv: "registry_inv g" and a: "a \<notin> dom (client_heap g)" and "client_count g < client_capacity g"
    and c: "current_room c = None" "0 < length (client_name c)" "length (client_name c) < MAX_USERNAME_LEN"
  shows "registry_inv (add_client g a c)"
proof -
  note i = registry_invD [OF inv]
  have occ: "occupants (add_client g a c) = occupants g"
    using a c by (auto simp: occupants_def add_client_def fun_eq_iff)
  show ?thesis
  proof (rule registry_invI)
    show "counted (client_list (add_client g a c)) (client_count (add_client g a c))
        (client_capacity (add_client g a c)) (dom (client_heap (add_client g a c)))"
      using counted_append [OF i(2) assms(3) a] by (simp add: add_client_def)
  next
    fix rb r' assume "room_heap (add_client g a c) rb = Some r'"
    then show "room_ok (add_client g a c) rb r'"
      using i(3) [of rb r'] unfolding room_ok_def occ by (simp add: add_client_def)
  next
    fix cb c' assume "client_heap (add_client g a c) cb = Some c'"
    then show "client_ok (add_client g a c) c'"
      using i(4) [of cb c'] c by (auto simp: client_ok_def add_client_def split: if_splits)
  qed (use i in \<open>auto simp: add_client_def\<close>)
qed

lemma inv_add_room:
  assumes inv: "registry_inv g" and a: "room_heap g a = None" and "room_count g < room_capacity g"
    and r: "counted (members r) (member_count r) (member_capacity r) {}" "ring_inv (history r)"
      "0 < length (room_name r)" "length (room_name r) < MAX_ROOM_NAME_LEN"
    and new: "\<And>b r'. room_heap g b = Some r' \<Longrightarrow> room_name r' \<noteq> room_name r"
  shows "registry_inv (add_room g a r)"
proof -
  note i = registry_invD [OF inv]
  have occ: "occupants (add_room g a r) = occupants g" "occupants g a = {}"
    using occupants_fresh [OF inv a] by (auto simp: occupants_def add_room_def fun_eq_iff)
  show ?thesis
  proof (rule registry_invI)
    show "counted (room_list (add_room g a r)) (room_count (add_room g a r))
        (room_capacity (add_room g a r)) (dom (room_heap (add_room g a r)))"
      using counted_append [OF i(1) assms(3), of a] a by (simp add: add_room_def domIff)
  next
    fix rb r' assume "room_heap (add_room g a r) rb = Some r'"
    then show "room_ok (add_room g a r) rb r'"
      using i(3) [of rb r'] r occ(2) unfolding room_ok_def occ(1) by (auto simp: add_room_def split: if_splits)
  next
    fix cb c' assume "client_heap (add_room g a r) cb = Some c'"
    then show "client_ok (add_room g a r) c'"
      using i(4) [of cb c'] by (auto simp: client_ok_def add_room_def)
  next
    fix ra rb b b'
    assume "room_heap (add_room g a r) ra = Some b" "room_heap (add_room g a r) rb = Some b'"
      "room_name b = room_name b'"
    then show "ra = rb"
      using i(5) [of ra b rb b'] new [of ra b] new [of rb b'] by (auto simp: add_room_def split: if_splits)
  qed (use i in \<open>auto simp: add_room_def\<close>)
qed

subsection \<open>Searching by name\<close>

lemma counted_scan_name:
  assumes c: "counted l n cap (dom h)" and nm: "\<And>a. nm_at (Some a) = map_option nm (h a)"
  shows "scan (\<lambda>p. nm_at p = Some x) l 0 n = Some i \<Longrightarrow>
      i < n \<and> (\<exists>a o'. l ! i = Some a \<and> h a = Some o' \<and> nm o' = x)"
    and "scan (\<lambda>p. nm_at p = Some x) l 0 n = None \<longleftrightarrow> (\<forall>a o'. h a = Some o' \<longrightarrow> nm o' \<noteq> x)"
proof -
  assume "scan (\<lambda>p. nm_at p = Some x) l 0 n = Some i"
  then have i: "i < n" "nm_at (l ! i) = Some x" by (auto simp: scan_Some)
  then obtain a where "l ! i = Some a" using counted_nth [OF c] by blast
  with i nm show "i < n \<and> (\<exists>a o'. l ! i = Some a \<and> h a = Some o' \<and> nm o' = x)" by auto
next
  have "(\<exists>i < n. nm_at (l ! i) = Some x) \<longleftrightarrow> (\<exists>a o'. h a = Some o' \<and> nm o' = x)"
  proof
    assume "\<exists>i < n. nm_at (l ! i) = Some x"
    then show "\<exists>a o'. h a = Some o' \<and> nm o' = x" using counted_nth [OF c] nm by fastforce
  next
    assume "\<exists>a o'. h a = Some o' \<and> nm o' = x"
    then obtain a o' where o: "h a = Some o'" "nm o' = x" by auto
    then obtain i where "i < n" "l ! i = Some a" using counted_mem [OF c, of a] by auto
    with o nm show "\<exists>i < n. nm_at (l ! i) = Some x" by auto
  qed
  then show "scan (\<lambda>p. nm_at p = Some x) l 0 n = None \<longleftrightarrow> (\<forall>a o'. h a = Some o' \<longrightarrow> nm o' \<noteq> x)"
    by (auto simp: scan_None)
qed

lemma room_name_at_Some [simp]: "room_name_at g (Some a) = map_option room_name (room_heap g a)"
  by (simp add: room_name_at_def)

lemma client_name_at_Some [simp]: "client_name_at g (Some a) = map_option client_name (client_heap g a)"
  by (simp add: client_name_at_def)

lemma find_room_cases:
  assumes inv: "registry_inv g"
  obtains (found) ra r where "find_room g nm = (Some ra, ROOM_OK)" "room_heap g ra = Some r" "room_name r = nm"
  | (invalid) "find_room g nm = (None, ROOM_ERR_INVALID_NAME)" "length nm = 0 \<or> length nm \<ge> MAX_ROOM_NAME_LEN"
  | (missing) "find_room g nm = (None, ROOM_ERR_NOT_FOUND)" "\<And>ra r. room_heap g ra = Some r \<Longrightarrow> room_name r \<noteq> nm"
proof (cases "length nm = 0 \<or> length nm \<ge> MAX_ROOM_NAME_LEN")
  case True
  then show thesis by (intro invalid) (simp_all add: find_room_def)
next
  case False
  note sc = counted_scan_name [OF registry_invD(1) [OF inv] room_name_at_Some, of nm]
  show thesis
  proof (cases "scan (\<lambda>p. room_name_at g p = Some nm) (room_list g) 0 (room_count g)")
    case None
    with False sc(2) show thesis by (intro missing) (auto simp: find_room_def)
  next
    case (Some i)
    with sc(1) obtain ra r where "room_list g ! i = Some ra" "room_heap g ra = Some r" "room_name r = nm" by blast
    with Some False show thesis by (intro found [of ra r]) (simp_all add: find_room_def)
  qed
qed

lemma find_client_cases:
  assumes inv: "registry_inv g"
  obtains (found) ca c where "find_client g nm = (Some ca, CLIENT_OK)" "client_heap g ca = Some c" "client_name c = nm"
  | (missing) "find_client g nm = (None, CLIENT_ERR_NOT_FOUND)" "\<And>ca c. client_heap g ca = Some c \<Longrightarrow> client_name c \<noteq> nm"
proof -
  note sc = counted_scan_name [OF registry_invD(2) [OF inv] client_name_at_Some, of nm]
  show thesis
  proof (cases "scan (\<lambda>p. client_name_at g p = Some nm) (client_list g) 0 (client_count g)")
    case None
    with sc(2) show thesis by (intro missing) (auto simp: find_client_def)
  next
    case (Some i)
    with sc(1) obtain ca c where "client_list g ! i = Some ca" "client_heap g ca = Some c" "client_name c = nm" by blast
    with Some show thesis by (intro found [of ca c]) (simp_all add: find_client_def)
  qed
qed

subsection \<open>Initialisation\<close>

lemma inv_registry0: "registry_inv registry0"
  by (intro registry_invI) (auto simp: registry0_def counted_def)

lemma inv_destroy: "registry_inv g \<Longrightarrow> registry_inv (registry_destroy g)"
proof -
  assume inv: "registry_inv g"
  have "{a. Some a \<in> set (take (room_count g) (room_list g))} = dom (room_heap g)"
    "{a. Some a \<in> set (take (client_count g) (client_list g))} = dom (client_heap g)"
    using registry_invD(1,2) [OF inv] by (auto simp: counted_def)
  then have "room_heap (registry_destroy g) = Map.empty" "client_heap (registry_destroy g) = Map.empty"
    by (auto simp: registry_destroy_def fun_eq_iff)
  then show ?thesis
    using registry_invD(6) [OF inv]
    by (intro registry_invI) (auto simp: counted_def, simp_all add: registry_destroy_def counted_def)
qed

lemma inv_empty_heaps:
  "registry_inv g \<Longrightarrow> room_list g = [] \<Longrightarrow> client_list g = [] \<Longrightarrow>
     room_heap g = Map.empty \<and> client_heap g = Map.empty"
  using registry_invD(1,2) [of g] by (auto simp: counted_def dom_def)

lemma inv_init:
  assumes "registry_inv g" and "history_size cfg \<le> 1000000"
  shows "registry_inv (snd (registry_init e cfg g))"
proof -
  define g1 where "g1 = (if room_list g \<noteq> [] \<or> client_list g \<noteq> [] then registry_destroy g else g)"
  have inv: "registry_inv g1" using assms(1) inv_destroy by (simp add: g1_def)
  have l: "room_list g1 = []" "client_list g1 = []" by (auto simp: g1_def registry_destroy_def)
  note h = inv_empty_heaps [OF inv l]
  have full: "registry_inv (g1\<lparr>room_list := replicate k None, client_list := replicate j None,
      room_capacity := k, client_capacity := j, room_count := 0, client_count := 0, g_max_members := m,
      g_history_size := n\<rparr>)" if "n \<le> 1000000" for k j m n
    using h that by (intro registry_invI) (auto simp: counted_def)
  have "g1\<lparr>room_list := []\<rparr> = g1" "g1\<lparr>room_list := [], client_list := []\<rparr> = g1" using l by simp_all
  with inv full assms(2) show ?thesis
    unfolding registry_init_def Let_def g1_def [symmetric] by simp
qed

lemma inv_ensure_init: "registry_inv g \<Longrightarrow> registry_inv (registry_ensure_init e g)"
  by (simp add: registry_ensure_init_def inv_init config_defaults_def)

lemma fresh_ensure_init:
  assumes "registry_inv g" and "fresh_blocks e g"
  shows "fresh_blocks e (registry_ensure_init e g)"
proof (cases "room_list g = [] \<and> client_list g = []")
  case True
  with inv_empty_heaps [OF assms(1)] show ?thesis
    by (auto simp: registry_ensure_init_def registry_init_def fresh_blocks_def Let_def registry_destroy_def)
qed (use assms in \<open>auto simp: registry_ensure_init_def\<close>)

lemma heap_ensure_init:
  assumes "registry_inv g"
  shows "room_heap (registry_ensure_init e g) = room_heap g"
    and "client_heap (registry_ensure_init e g) = client_heap g"
  using inv_empty_heaps [OF assms]
  by (auto simp: registry_ensure_init_def registry_init_def Let_def registry_destroy_def)

lemma inv_new_client:
  assumes "registry_inv g" and "fresh_blocks e g" and "env_alloc_client e = Some a"
    and "client_count g < client_capacity g" and "0 < length nm" and "length nm < MAX_USERNAME_LEN"
  shows "registry_inv (add_client g a (new_client e f nm))"
  using assms inv_add_client [OF assms(1) _ assms(4), of a "new_client e f nm"]
  by (auto simp: fresh_blocks_def new_client_def)

lemma inv_create_client:
  assumes inv: "registry_inv g" and "fresh_blocks e g" and mk: "create_client e g f nm = (p, err, g')"
  shows "registry_inv g' \<and> room_heap g' = room_heap g \<and>
     (err = CLIENT_OK \<longrightarrow> (\<exists>ca. p = Some ca \<and> client_heap g ca = None \<and>
        client_heap g' = (client_heap g)(ca \<mapsto> new_client e f nm) \<and> 0 < length nm \<and> length nm < MAX_USERNAME_LEN)) \<and>
     (err \<noteq> CLIENT_OK \<longrightarrow> p = None \<and> client_heap g' = client_heap g)"
proof -
  let ?g = "registry_ensure_init e g"
  note i = inv_ensure_init [OF inv, of e] and fr = fresh_ensure_init [OF assms(1,2)]
    and h = heap_ensure_init [OF inv, of e]
  consider (err) "p = None" "err \<noteq> CLIENT_OK" "g' = g \<or> g' = ?g"
    | (ok) ca where "p = Some ca" "err = CLIENT_OK" "g' = add_client ?g ca (new_client e f nm)"
        "env_alloc_client e = Some ca" "client_count ?g < client_capacity ?g"
        "0 < length nm" "length nm < MAX_USERNAME_LEN"
    using mk unfolding create_client_def Let_def
    by (cases "env_alloc_client e")
      (auto simp: eq_commute [of "Some _" "env_alloc_client e"] split: if_splits)
  then show ?thesis
  proof cases
    case err
    with inv i h show ?thesis by auto
  next
    case (ok ca)
    have "client_heap g ca = None" using assms(2) ok(4) by (auto simp: fresh_blocks_def)
    with ok h inv_new_client [OF i fr ok(4-7), of f] show ?thesis by (auto simp: add_client_def)
  qed
qed

lemma load_history_inv: "cap \<le> 1000000 \<Longrightarrow> ring_inv (load_room_history e db nm cap)"
  by (simp add: load_room_history_def loaded.invar_foldl ring_inv_new)

lemma inv_create_room:
  assumes inv: "registry_inv g" and "fresh_blocks e g" and mk: "create_room e db g nm creator = (p, err, g')"
  shows "registry_inv g' \<and> client_heap g' = client_heap g \<and>
     (err = ROOM_OK \<longrightarrow> (\<exists>ra r. p = Some ra \<and> room_heap g ra = None \<and> room_heap g' = (room_heap g)(ra \<mapsto> r) \<and>
        room_name r = nm \<and> member_count r = 0 \<and> admin_client r = creator \<and> creator \<noteq> None \<and>
        member_capacity r = g_max_members (registry_ensure_init e g))) \<and>
     (err \<noteq> ROOM_OK \<longrightarrow> p = None \<and> room_heap g' = room_heap g)"
proof -
  let ?g = "registry_ensure_init e g"
  note i = inv_ensure_init [OF inv, of e] and h = heap_ensure_init [OF inv, of e]
  consider (err) "p = None" "err \<noteq> ROOM_OK" "g' = g \<or> g' = ?g"
    | (ok) ra where "p = Some ra" "err = ROOM_OK" "g' = add_room ?g ra (new_room e db ?g nm creator)"
        "env_alloc_room e = Some ra" "room_count ?g < room_capacity ?g" "fst (find_room ?g nm) = None"
        "creator \<noteq> None" "0 < length nm" "length nm < 32"
    using mk unfolding create_room_def Let_def
    by (cases "env_alloc_room e")
      (auto simp: eq_commute [of "Some _" "env_alloc_room e"] split: if_splits)
  then show ?thesis
  proof cases
    case err
    with inv i h show ?thesis by auto
  next
    case (ok ra)
    let ?r = "new_room e db ?g nm creator"
    have new: "room_name r' \<noteq> nm" if "room_heap ?g b = Some r'" for b r'
      by (rule find_room_cases [OF i, of nm]) (use that ok in auto)
    have ra: "room_heap ?g ra = None"
      using fresh_ensure_init [OF assms(1,2)] ok(4) by (auto simp: fresh_blocks_def)
    have r: "room_name ?r = nm" "member_count ?r = 0" "admin_client ?r = creator"
      "member_capacity ?r = g_max_members ?g" "ring_inv (history ?r)"
      "counted (members ?r) (member_count ?r) (member_capacity ?r) {}"
      using ok(8,9) load_history_inv registry_invD(6) [OF i] by (simp_all add: new_room_def counted_empty)
    have "registry_inv (add_room ?g ra ?r)"
      using inv_add_room [OF i ra ok(5) r(6,5)] new ok(8,9) r(1) by simp
    with ok ra h r show ?thesis by (auto simp: add_room_def)
  qed
qed


subsection \<open>Messages\<close>

lemma inv_add_history:
  assumes "registry_inv g" and "store_inv db" and "room_add_history e db g rp u t = (mid, db', g')"
  shows "registry_inv g' \<and> store_inv db' \<and> client_heap g' = client_heap g \<and> dom (room_heap g') = dom (room_heap g)"
proof (cases "\<exists>ra r. rp = Some ra \<and> room_heap g ra = Some r")
  case True
  then obtain ra r where r: "rp = Some ra" "room_heap g ra = Some r" by auto
  then obtain m where g': "g' = update_room g ra (\<lambda>r. r\<lparr>history := ring_add (history r) m\<rparr>)"
    and db': "db' = snd (db_save_message e db (room_name r) u t)"
    using assms(3) by (auto simp: room_add_history_def split_beta Let_def)
  have "ring_inv (history r)" using registry_invD(3) [OF assms(1) r(2)] by (simp add: room_ok_def)
  then have "registry_inv g'" unfolding g' using r by (intro inv_update_room [OF assms(1)]) (auto intro: ring_inv_add)
  then show ?thesis using assms(2) store_inv_save by (auto simp: g' db' update_room_def split: if_splits)
qed (use assms in \<open>auto simp: room_add_history_def split: option.splits\<close>)

lemma inv_edit_message:
  assumes "registry_inv g" and "store_inv db" and "room_edit_message e db g rp mid u t = (rc, db', g')"
  shows "registry_inv g' \<and> store_inv db' \<and> client_heap g' = client_heap g \<and> dom (room_heap g') = dom (room_heap g)"
proof (cases "\<exists>ra r. rp = Some ra \<and> room_heap g ra = Some r")
  case True
  then obtain ra r where r: "rp = Some ra" "room_heap g ra = Some r" by auto
  have "registry_inv (update_room g ra (\<lambda>r. r\<lparr>history := snd (ring_edit (env_now e) (history r) mid u t)\<rparr>))"
    using registry_invD(3) [OF assms(1) r(2)] r(2)
    by (intro inv_update_room [OF assms(1)]) (auto simp: room_ok_def intro: ring_inv_edit)
  moreover have "update_room g ra (\<lambda>r. r\<lparr>history := snd (ring_edit (env_now e) (history r) mid u t)\<rparr>) =
      update_room g ra (\<lambda>r'. r'\<lparr>history := snd (ring_edit (env_now e) (history r) mid u t)\<rparr>)"
    using r(2) by (simp add: update_room_def)
  ultimately show ?thesis
    using assms r store_inv_edit [OF assms(2), of e mid t]
    by (auto simp: room_edit_message_def split_beta update_room_def split: if_splits)
qed (use assms in \<open>auto simp: room_edit_message_def split: option.splits\<close>)

lemma inv_delete_message:
  assumes "registry_inv g" and "store_inv db" and "room_delete_message e db g rp mid u adm = (rc, db', g')"
  shows "registry_inv g' \<and> store_inv db' \<and> client_heap g' = client_heap g \<and> dom (room_heap g') = dom (room_heap g)"
proof (cases "\<exists>ra r. rp = Some ra \<and> room_heap g ra = Some r")
  case True
  then obtain ra r where r: "rp = Some ra" "room_heap g ra = Some r" by auto
  have "registry_inv (update_room g ra (\<lambda>r. r\<lparr>history := snd (ring_delete (history r) mid u adm)\<rparr>))"
    using registry_invD(3) [OF assms(1) r(2)] r(2)
    by (intro inv_update_room [OF assms(1)]) (auto simp: room_ok_def intro: ring_inv_delete)
  moreover have "update_room g ra (\<lambda>r. r\<lparr>history := snd (ring_delete (history r) mid u adm)\<rparr>) =
      update_room g ra (\<lambda>r'. r'\<lparr>history := snd (ring_delete (history r) mid u adm)\<rparr>)"
    using r(2) by (simp add: update_room_def)
  ultimately show ?thesis
    using assms r store_inv_delete [OF assms(2), of e mid]
    by (auto simp: room_delete_message_def split_beta update_room_def split: if_splits)
qed (use assms in \<open>auto simp: room_delete_message_def split: option.splits\<close>)

subsection \<open>Who is connected\<close>

text \<open>Descriptor and name of each client: what every operation but creation and deletion keeps.\<close>

definition idents :: "registry \<Rightarrow> addr \<rightharpoonup> fd \<times> string" where
  "idents g a = map_option (\<lambda>c. (socket_fd c, client_name c)) (client_heap g a)"

lemma idents_heap: "client_heap g' = client_heap g \<Longrightarrow> idents g' = idents g"
  by (simp add: idents_def fun_eq_iff)

lemma idents_update_client:
  "(\<And>c. socket_fd (f c) = socket_fd c \<and> client_name (f c) = client_name c) \<Longrightarrow>
     idents (update_client g ca f) = idents g"
  by (auto simp: idents_def fun_eq_iff update_client_def option.map_comp comp_def)

lemma idents_set_room [simp]: "idents (set_room g ca rp) = idents g"
  by (simp add: set_room_def idents_update_client)

lemma idents_delete_if_empty [simp]: "idents (room_delete_if_empty g rp) = idents g"
  by (intro idents_heap) (auto simp: room_delete_if_empty_def delete_room_def room_destroy_def Let_def
      split: option.split)

lemma idents_live: "idents g' = idents g \<Longrightarrow> client_heap g' a = None \<longleftrightarrow> client_heap g a = None"
  by (drule fun_cong [of _ _ a]) (auto simp: idents_def)

lemma room_heap_set_room [simp]: "room_heap (set_room g ca rp) = room_heap g"
  by (simp add: set_room_def update_client_def)

lemma room_heap_update_client [simp]: "room_heap (update_client g ca f) = room_heap g"
  by (simp add: update_client_def)

end
