(* ===== verification/Moderation.thy ===== *)
theory Moderation
  imports Db
begin

text \<open>
  The small modules that keep one table each beside the main database: blocks, mutes and bans
  (\<open>src/block.c\<close>), room roles (\<open>src/permission.c\<close>), invitations (\<open>src/invite.c\<close>) and
  read receipts (\<open>src/receipt.c\<close>).  Each opens its own handle on first use.  The locales
  \<open>flag_table\<close> and \<open>removable_flags\<close> state the contract these modules share; they are
  interpreted on the operations of every module.
\<close>

section \<open>Opening a handle on demand\<close>

text \<open>
  The common body of \<open>ensure_block_db\<close>, \<open>ensure_perm_db\<close> and \<open>ensure_invite_db\<close>.
  \<open>sqlite3_open\<close> stores a handle even when it fails, so the next call finds one and goes on; a
  failing schema closes it and leaves \<open>NULL\<close>.
\<close>

definition ensure_db :: "open_outcome \<Rightarrow> bool \<Rightarrow> int \<times> bool" where
  "ensure_db oc h =
     (if h then (0, True)
      else case oc of Open_fails \<Rightarrow> (-1, True) | Schema_fails \<Rightarrow> (-1, False) | Opens \<Rightarrow> (0, True))"

definition ensure_block_db :: "env \<Rightarrow> store \<Rightarrow> int \<times> store" where
  "ensure_block_db e db =
     (let (rc, h) = ensure_db (env_open e Block_db) (block_handle db) in (rc, db\<lparr>block_handle := h\<rparr>))"

definition ensure_perm_db :: "env \<Rightarrow> store \<Rightarrow> int \<times> store" where
  "ensure_perm_db e db =
     (let (rc, h) = ensure_db (env_open e Perm_db) (perm_handle db) in (rc, db\<lparr>perm_handle := h\<rparr>))"

definition ensure_invite_db :: "env \<Rightarrow> store \<Rightarrow> int \<times> store" where
  "ensure_invite_db e db =
     (let (rc, h) = ensure_db (env_open e Invite_db) (invite_handle db) in (rc, db\<lparr>invite_handle := h\<rparr>))"

section \<open>Blocks, mutes and bans\<close>

definition block_add :: "env \<Rightarrow> store \<Rightarrow> string \<Rightarrow> string \<Rightarrow> int \<times> store" where
  "block_add e db blocker blocked =
     (if blocker = blocked then (-1, db)
      else let (rc, db1) = ensure_block_db e db in
        if rc \<noteq> 0 then (-1, db1)
        else if env_sql e Insert_block \<noteq> Completes then (-1, db1)
        else (0, db1\<lparr>blocks := insert_or_ignore (blocker, blocked) (env_now e) (blocks db1)\<rparr>))"

definition block_remove :: "env \<Rightarrow> store \<Rightarrow> string \<Rightarrow> string \<Rightarrow> int \<times> store" where
  "block_remove e db blocker blocked =
     (let (rc, db1) = ensure_block_db e db in
      if rc \<noteq> 0 then (-1, db1)
      else if env_sql e Delete_block \<noteq> Completes then (-1, db1)
      else (if rows_deleted (blocker, blocked) (blocks db1) > 0 then 0 else -1,
            db1\<lparr>blocks := delete_row (blocker, blocked) (blocks db1)\<rparr>))"

definition block_check :: "env \<Rightarrow> store \<Rightarrow> string \<Rightarrow> string \<Rightarrow> bool \<times> store" where
  "block_check e db blocker blocked =
     (let (rc, db1) = ensure_block_db e db in
      if rc \<noteq> 0 then (False, db1)
      else (delivered (env_sql e Select_block) (filter (\<lambda>r. fst r = (blocker, blocked)) (blocks db1)) \<noteq> [], db1))"

definition block_list :: "env \<Rightarrow> store \<Rightarrow> string \<Rightarrow> int \<Rightarrow> string list \<times> store" where
  "block_list e db blocker max_out =
     (if max_out \<le> 0 then ([], db)
      else let (rc, db1) = ensure_block_db e db in
        if rc \<noteq> 0 then ([], db1)
        else (map (strncpy_term 32) (delivered (env_sql e Select_blocked) (take (nat max_out)
               (env_scan_names e (map (snd \<circ> fst) (filter (\<lambda>r. fst (fst r) = blocker) (blocks db1)))))), db1))"

definition block_count :: "env \<Rightarrow> store \<Rightarrow> string \<Rightarrow> int \<times> store" where
  "block_count e db blocker =
     (let (rc, db1) = ensure_block_db e db in
      if rc \<noteq> 0 then (0, db1)
      else (case delivered (env_sql e Count_blocks)
               [int (length (filter (\<lambda>r. fst (fst r) = blocker) (blocks db1)))] of
             [] \<Rightarrow> 0 | n # _ \<Rightarrow> n, db1))"

definition mute_add :: "env \<Rightarrow> store \<Rightarrow> string \<Rightarrow> string \<Rightarrow> string \<Rightarrow> int \<times> store" where
  "mute_add e db rm muted_by muted_user =
     (let (rc, db1) = ensure_block_db e db in
      if rc \<noteq> 0 then (-1, db1)
      else if env_sql e Insert_mute \<noteq> Completes then (-1, db1)
      else (0, db1\<lparr>mutes := insert_or_replace (rm, muted_user) (muted_by, env_now e) (mutes db1)\<rparr>))"

definition mute_remove :: "env \<Rightarrow> store \<Rightarrow> string \<Rightarrow> string \<Rightarrow> int \<times> store" where
  "mute_remove e db rm muted_user =
     (let (rc, db1) = ensure_block_db e db in
      if rc \<noteq> 0 then (-1, db1)
      else if env_sql e Delete_mute \<noteq> Completes then (-1, db1)
      else (if rows_deleted (rm, muted_user) (mutes db1) > 0 then 0 else -1,
            db1\<lparr>mutes := delete_row (rm, muted_user) (mutes db1)\<rparr>))"

definition mute_check :: "env \<Rightarrow> store \<Rightarrow> string \<Rightarrow> string \<Rightarrow> bool \<times> store" where
  "mute_check e db rm muted_user =
     (let (rc, db1) = ensure_block_db e db in
      if rc \<noteq> 0 then (False, db1)
      else (delivered (env_sql e Select_mute) (filter (\<lambda>r. fst r = (rm, muted_user)) (mutes db1)) \<noteq> [], db1))"

definition ban_add :: "env \<Rightarrow> store \<Rightarrow> string \<Rightarrow> string \<Rightarrow> string \<Rightarrow> int \<times> store" where
  "ban_add e db rm banned_by banned_user =
     (let (rc, db1) = ensure_block_db e db in
      if rc \<noteq> 0 then (-1, db1)
      else if env_sql e Insert_ban \<noteq> Completes then (-1, db1)
      else (0, db1\<lparr>bans := insert_or_replace (rm, banned_user) (banned_by, env_now e) (bans db1)\<rparr>))"

definition ban_remove :: "env \<Rightarrow> store \<Rightarrow> string \<Rightarrow> string \<Rightarrow> int \<times> store" where
  "ban_remove e db rm banned_user =
     (let (rc, db1) = ensure_block_db e db in
      if rc \<noteq> 0 then (-1, db1)
      else if env_sql e Delete_ban \<noteq> Completes then (-1, db1)
      else (if rows_deleted (rm, banned_user) (bans db1) > 0 then 0 else -1,
            db1\<lparr>bans := delete_row (rm, banned_user) (bans db1)\<rparr>))"

definition ban_check :: "env \<Rightarrow> store \<Rightarrow> string \<Rightarrow> string \<Rightarrow> bool \<times> store" where
  "ban_check e db rm banned_user =
     (let (rc, db1) = ensure_block_db e db in
      if rc \<noteq> 0 then (False, db1)
      else (delivered (env_sql e Select_ban) (filter (\<lambda>r. fst r = (rm, banned_user)) (bans db1)) \<noteq> [], db1))"

section \<open>Room roles\<close>

text \<open>The order of \<open>room_role_t\<close> is the order of its numbers.\<close>

fun role_num :: "room_role \<Rightarrow> nat" where
  "role_num ROLE_MEMBER = 0"
| "role_num ROLE_MODERATOR = 1"
| "role_num ROLE_ADMIN = 2"
| "role_num ROLE_OWNER = 3"

lemma role_num_inj: "role_num a = role_num b \<longleftrightarrow> a = b"
  by (cases a; cases b) simp_all

instantiation room_role :: linorder
begin

definition less_eq_room_role :: "room_role \<Rightarrow> room_role \<Rightarrow> bool" where
  "less_eq_room_role a b \<longleftrightarrow> role_num a \<le> role_num b"

definition less_room_role :: "room_role \<Rightarrow> room_role \<Rightarrow> bool" where
  "less_room_role a b \<longleftrightarrow> role_num a < role_num b"

instance
  by standard (auto simp: less_eq_room_role_def less_room_role_def role_num_inj)

end

lemmas role_order = less_eq_room_role_def less_room_role_def

text \<open>\<open>role - 1\<close>, used by \<open>DEMOTE\<close> on a role above \<open>ROLE_MEMBER\<close>.\<close>

fun role_below :: "room_role \<Rightarrow> room_role" where
  "role_below ROLE_OWNER = ROLE_ADMIN"
| "role_below ROLE_ADMIN = ROLE_MODERATOR"
| "role_below ROLE_MODERATOR = ROLE_MEMBER"
| "role_below ROLE_MEMBER = ROLE_MEMBER"

definition permission_set_role :: "env \<Rightarrow> store \<Rightarrow> string \<Rightarrow> string \<Rightarrow> room_role \<Rightarrow> int \<times> store" where
  "permission_set_role e db rm username role =
     (let (rc, db1) = ensure_perm_db e db in
      if rc \<noteq> 0 then (-1, db1)
      else if env_sql e Insert_role \<noteq> Completes then (-1, db1)
      else (0, db1\<lparr>roles := insert_or_replace (rm, username) role (roles db1)\<rparr>))"

definition permission_get_role :: "env \<Rightarrow> store \<Rightarrow> string \<Rightarrow> string \<Rightarrow> room_role \<times> store" where
  "permission_get_role e db rm username =
     (let (rc, db1) = ensure_perm_db e db in
      if rc \<noteq> 0 then (ROLE_MEMBER, db1)
      else (case delivered (env_sql e Select_role)
               (map snd (filter (\<lambda>r. fst r = (rm, username)) (roles db1))) of
             [] \<Rightarrow> ROLE_MEMBER | role # _ \<Rightarrow> role, db1))"

definition permission_check :: "env \<Rightarrow> store \<Rightarrow> string \<Rightarrow> string \<Rightarrow> string \<Rightarrow> bool \<times> store" where
  "permission_check e db rm username action =
     (let (role, db1) = permission_get_role e db rm username in
      (if action = ''MSG'' then True
       else if action = ''INVITE'' then role \<ge> ROLE_ADMIN
       else if action = ''KICK'' then role \<ge> ROLE_ADMIN
       else if action = ''BAN'' then role \<ge> ROLE_OWNER
       else if action = ''MUTE'' then role \<ge> ROLE_ADMIN
       else if action = ''DEMOTE'' then role \<ge> ROLE_OWNER
       else False, db1))"

definition permission_remove :: "env \<Rightarrow> store \<Rightarrow> string \<Rightarrow> string \<Rightarrow> int \<times> store" where
  "permission_remove e db rm username =
     (let (rc, db1) = ensure_perm_db e db in
      if rc \<noteq> 0 then (-1, db1)
      else case env_sql e Delete_role of
        Prepare_fails \<Rightarrow> (-1, db1)
      | Step_fails _ \<Rightarrow> (0, db1)
      | Completes \<Rightarrow> (0, db1\<lparr>roles := delete_row (rm, username) (roles db1)\<rparr>))"

section \<open>Invitations\<close>

definition invite_create :: "env \<Rightarrow> store \<Rightarrow> string \<Rightarrow> string \<Rightarrow> string \<Rightarrow> int \<times> store" where
  "invite_create e db rm inviter invitee =
     (let (rc, db1) = ensure_invite_db e db in
      if rc \<noteq> 0 then (-1, db1)
      else if env_sql e Insert_invite \<noteq> Completes then (-1, db1)
      else (0, db1\<lparr>invites := insert_or_ignore (rm, invitee) (inviter, env_now e) (invites db1)\<rparr>))"

definition invite_accept :: "env \<Rightarrow> store \<Rightarrow> string \<Rightarrow> string \<Rightarrow> int \<times> store" where
  "invite_accept e db rm invitee =
     (let (rc, db1) = ensure_invite_db e db in
      if rc \<noteq> 0 then (-1, db1)
      else if env_sql e Delete_invite \<noteq> Completes then (-1, db1)
      else (if rows_deleted (rm, invitee) (invites db1) > 0 then 0 else -1,
            db1\<lparr>invites := delete_row (rm, invitee) (invites db1)\<rparr>))"

definition invite_decline :: "env \<Rightarrow> store \<Rightarrow> string \<Rightarrow> string \<Rightarrow> int \<times> store" where
  "invite_decline e db rm invitee = invite_accept e db rm invitee"

definition invite_find :: "env \<Rightarrow> store \<Rightarrow> string \<Rightarrow> string \<Rightarrow> bool \<times> store" where
  "invite_find e db rm invitee =
     (let (rc, db1) = ensure_invite_db e db in
      if rc \<noteq> 0 then (False, db1)
      else (delivered (env_sql e Select_invite) (filter (\<lambda>r. fst r = (rm, invitee)) (invites db1)) \<noteq> [], db1))"

definition invite_remove :: "env \<Rightarrow> store \<Rightarrow> string \<Rightarrow> string \<Rightarrow> int \<times> store" where
  "invite_remove e db rm invitee = invite_accept e db rm invitee"

section \<open>Read receipts\<close>

definition receipt_init :: "env \<Rightarrow> store \<Rightarrow> int \<times> store" where
  "receipt_init e db = (case env_open e Receipt_db of
     Open_fails \<Rightarrow> (-1, db\<lparr>receipt_handle := True\<rparr>)
   | Schema_fails \<Rightarrow> (-1, db\<lparr>receipt_handle := False\<rparr>)
   | Opens \<Rightarrow> (0, db\<lparr>receipt_handle := True\<rparr>))"

definition receipt_mark_read :: "env \<Rightarrow> store \<Rightarrow> int \<Rightarrow> string \<Rightarrow> int \<times> store" where
  "receipt_mark_read e db mid reader =
     (if \<not> receipt_handle db \<or> mid \<le> 0 then (-1, db)
      else if env_sql e Insert_receipt \<noteq> Completes then (-1, db)
      else (0, db\<lparr>receipts := insert_or_ignore (mid, reader) (env_now e) (receipts db)\<rparr>))"

definition receipt_is_read :: "env \<Rightarrow> store \<Rightarrow> int \<Rightarrow> string \<Rightarrow> int" where
  "receipt_is_read e db mid reader =
     (if \<not> receipt_handle db \<or> mid \<le> 0 then -1
      else if env_sql e Select_receipt = Prepare_fails then -1
      else if delivered (env_sql e Select_receipt) (filter (\<lambda>r. fst r = (mid, reader)) (receipts db)) \<noteq> []
        then 1 else 0)"

section \<open>The contract of a table of flags\<close>

text \<open>
  A module that records facts under a key promises: with a working engine (\<open>ready\<close>) adding succeeds
  and makes exactly that key present, a failing call changes nothing, and checking tells whether the
  key is present; without it, a check never claims a key that is absent.
\<close>

locale flag_table =
  fixes ready :: "'e \<Rightarrow> 's \<Rightarrow> bool"
    and ok_key :: "'k \<Rightarrow> bool"
    and add :: "'e \<Rightarrow> 's \<Rightarrow> 'k \<Rightarrow> 'v \<Rightarrow> int \<times> 's"
    and check :: "'e \<Rightarrow> 's \<Rightarrow> 'k \<Rightarrow> bool \<times> 's"
    and has :: "'s \<Rightarrow> 'k \<Rightarrow> bool"
    and inv :: "'s \<Rightarrow> bool"
  assumes add_ok: "ready e s \<Longrightarrow> ok_key k \<Longrightarrow> fst (add e s k v) = 0"
    and has_add: "fst (add e s k v) = 0 \<Longrightarrow> has (snd (add e s k v)) j \<longleftrightarrow> j = k \<or> has s j"
    and has_add_fail: "fst (add e s k v) \<noteq> 0 \<Longrightarrow> has (snd (add e s k v)) j \<longleftrightarrow> has s j"
    and check_ok: "ready e s \<Longrightarrow> ok_key k \<Longrightarrow> fst (check e s k) \<longleftrightarrow> has s k"
    and check_sound: "fst (check e s k) \<Longrightarrow> has s k"
    and has_check: "has (snd (check e s k)) j \<longleftrightarrow> has s j"
    and ready_add: "ready e s \<Longrightarrow> ready e (snd (add e s k v))"
    and inv_add: "inv s \<Longrightarrow> inv (snd (add e s k v))"
    and inv_check: "inv s \<Longrightarrow> inv (snd (check e s k))"
begin

lemma check_after_add: "ready e s \<Longrightarrow> ok_key k \<Longrightarrow> ok_key j \<Longrightarrow>
    fst (check e (snd (add e s k v)) j) \<longleftrightarrow> j = k \<or> has s j"
  by (simp add: check_ok ready_add has_add add_ok)

lemma add_idempotent: "ready e s \<Longrightarrow> ok_key k \<Longrightarrow>
    has (snd (add e (snd (add e s k v)) k w)) j \<longleftrightarrow> has (snd (add e s k v)) j"
  by (auto simp: has_add add_ok ready_add)

lemma has_mono: "has s j \<Longrightarrow> has (snd (add e s k v)) j"
  by (cases "fst (add e s k v) = 0") (simp_all add: has_add has_add_fail)

end

datatype ('k, 'v) flag_op = Add 'k 'v | Remove 'k

text \<open>Running a sequence of operations, and what it should leave of the flag of key \<open>k\<close>.\<close>

fun run_flags :: "('e \<Rightarrow> 's \<Rightarrow> 'k \<Rightarrow> 'v \<Rightarrow> int \<times> 's) \<Rightarrow> ('e \<Rightarrow> 's \<Rightarrow> 'k \<Rightarrow> int \<times> 's) \<Rightarrow> 'e \<Rightarrow> 's \<Rightarrow>
    ('k, 'v) flag_op list \<Rightarrow> 's" where
  "run_flags add remove e s [] = s"
| "run_flags add remove e s (Add k v # ops) = run_flags add remove e (snd (add e s k v)) ops"
| "run_flags add remove e s (Remove k # ops) = run_flags add remove e (snd (remove e s k)) ops"

fun flag_after :: "'k \<Rightarrow> bool \<Rightarrow> ('k, 'v) flag_op list \<Rightarrow> bool" where
  "flag_after k b [] = b"
| "flag_after k b (Add j v # ops) = flag_after k (k = j \<or> b) ops"
| "flag_after k b (Remove j # ops) = flag_after k (k \<noteq> j \<and> b) ops"

fun op_key :: "('k, 'v) flag_op \<Rightarrow> 'k" where
  "op_key (Add k v) = k"
| "op_key (Remove k) = k"

locale removable_flags = flag_table ready ok_key add check has inv
  for ready :: "'e \<Rightarrow> 's \<Rightarrow> bool" and ok_key :: "'k \<Rightarrow> bool"
    and add :: "'e \<Rightarrow> 's \<Rightarrow> 'k \<Rightarrow> 'v \<Rightarrow> int \<times> 's"
    and check :: "'e \<Rightarrow> 's \<Rightarrow> 'k \<Rightarrow> bool \<times> 's"
    and has :: "'s \<Rightarrow> 'k \<Rightarrow> bool" and inv :: "'s \<Rightarrow> bool" +
  fixes remove :: "'e \<Rightarrow> 's \<Rightarrow> 'k \<Rightarrow> int \<times> 's"
  assumes remove_rc: "ready e s \<Longrightarrow> fst (remove e s k) = (if has s k then 0 else -1)"
    and has_remove: "ready e s \<Longrightarrow> has (snd (remove e s k)) j \<longleftrightarrow> j \<noteq> k \<and> has s j"
    and has_remove_other: "j \<noteq> k \<Longrightarrow> has (snd (remove e s k)) j \<longleftrightarrow> has s j"
    and ready_remove: "ready e s \<Longrightarrow> ready e (snd (remove e s k))"
    and inv_remove: "inv s \<Longrightarrow> inv (snd (remove e s k))"
begin

lemma ready_run: "ready e s \<Longrightarrow> ready e (run_flags add remove e s ops)"
proof (induction ops arbitrary: s)
  case (Cons x ops)
  then show ?case by (cases x) (simp_all add: ready_add ready_remove)
qed simp

lemma inv_run: "inv s \<Longrightarrow> inv (run_flags add remove e s ops)"
proof (induction ops arbitrary: s)
  case (Cons x ops)
  then show ?case by (cases x) (simp_all add: inv_add inv_remove)
qed simp

lemma has_run:
  "ready e s \<Longrightarrow> (\<forall>x \<in> set ops. ok_key (op_key x)) \<Longrightarrow>
     has (run_flags add remove e s ops) k \<longleftrightarrow> flag_after k (has s k) ops"
proof (induction ops arbitrary: s)
  case (Cons x ops)
  then show ?case
    by (cases x) (simp_all add: ready_add ready_remove has_add add_ok has_remove)
qed simp

lemma check_run:
  "ready e s \<Longrightarrow> ok_key k \<Longrightarrow> (\<forall>x \<in> set ops. ok_key (op_key x)) \<Longrightarrow>
     fst (check e (run_flags add remove e s ops) k) \<longleftrightarrow> flag_after k (has s k) ops"
  by (simp add: check_ok ready_run has_run)

lemma remove_twice: "ready e s \<Longrightarrow> fst (remove e (snd (remove e s k)) k) = -1"
  by (simp add: remove_rc ready_remove has_remove)

end

section \<open>The modules keep the contract\<close>

lemma ensure_db_works:
  "h \<or> oc = Opens \<Longrightarrow> ensure_db oc h = (0, True)"
  by (auto simp: ensure_db_def)

lemma filter_key_Nil: "filter (\<lambda>r. fst r = k) t = [] \<longleftrightarrow> map_of t k = None"
  by (induction t) auto

lemma delivered_filter_key: "delivered oc (filter (\<lambda>r. fst r = k) t) \<noteq> [] \<Longrightarrow> map_of t k \<noteq> None"
  using filter_key_Nil [of k t] by (auto simp: delivered_def split: sql_outcome.splits)

lemmas flag_simps = Let_def ensure_db_works sql_works_def map_of_insert_or_ignore filter_key_Nil
  delivered_filter_key

definition block_ready :: "env \<Rightarrow> store \<Rightarrow> bool" where
  "block_ready e db \<longleftrightarrow> (block_handle db \<or> env_open e Block_db = Opens) \<and>
     (\<forall>st \<in> {Insert_block, Delete_block, Select_block, Insert_mute, Delete_mute, Select_mute,
        Insert_ban, Delete_ban, Select_ban}. sql_works e st)"

definition perm_ready :: "env \<Rightarrow> store \<Rightarrow> bool" where
  "perm_ready e db \<longleftrightarrow> (perm_handle db \<or> env_open e Perm_db = Opens) \<and>
     (\<forall>st \<in> {Insert_role, Select_role, Delete_role}. sql_works e st)"

definition invite_ready :: "env \<Rightarrow> store \<Rightarrow> bool" where
  "invite_ready e db \<longleftrightarrow> (invite_handle db \<or> env_open e Invite_db = Opens) \<and>
     (\<forall>st \<in> {Insert_invite, Delete_invite, Select_invite}. sql_works e st)"

definition receipt_ready :: "env \<Rightarrow> store \<Rightarrow> bool" where
  "receipt_ready e db \<longleftrightarrow> receipt_handle db \<and> sql_works e Insert_receipt \<and> sql_works e Select_receipt"

lemmas ready_defs = block_ready_def perm_ready_def invite_ready_def receipt_ready_def

lemma ensure_db_eq:
  "ensure_db oc h = (if h \<or> oc = Opens then (0, True) else (-1, oc = Open_fails))"
  by (simp add: ensure_db_def split: open_outcome.split)

lemma ensure_eqs:
  "ensure_block_db e db = (if block_handle db \<or> env_open e Block_db = Opens
     then (0, db\<lparr>block_handle := True\<rparr>) else (-1, db\<lparr>block_handle := env_open e Block_db = Open_fails\<rparr>))"
  "ensure_perm_db e db = (if perm_handle db \<or> env_open e Perm_db = Opens
     then (0, db\<lparr>perm_handle := True\<rparr>) else (-1, db\<lparr>perm_handle := env_open e Perm_db = Open_fails\<rparr>))"
  "ensure_invite_db e db = (if invite_handle db \<or> env_open e Invite_db = Opens
     then (0, db\<lparr>invite_handle := True\<rparr>) else (-1, db\<lparr>invite_handle := env_open e Invite_db = Open_fails\<rparr>))"
  by (simp_all add: ensure_block_db_def ensure_perm_db_def ensure_invite_db_def ensure_db_eq)

lemma store_inv_fields:
  assumes "store_inv db"
  shows "store_inv (db\<lparr>block_handle := h\<rparr>)" and "store_inv (db\<lparr>perm_handle := h\<rparr>)"
    and "store_inv (db\<lparr>invite_handle := h\<rparr>)"
    and "table_inv bl \<Longrightarrow> store_inv (db\<lparr>block_handle := h, blocks := bl\<rparr>)"
    and "table_inv mu \<Longrightarrow> store_inv (db\<lparr>block_handle := h, mutes := mu\<rparr>)"
    and "table_inv mu \<Longrightarrow> store_inv (db\<lparr>block_handle := h, bans := mu\<rparr>)"
    and "table_inv ro \<Longrightarrow> store_inv (db\<lparr>perm_handle := h, roles := ro\<rparr>)"
    and "table_inv iv \<Longrightarrow> store_inv (db\<lparr>invite_handle := h, invites := iv\<rparr>)"
    and "table_inv rc \<Longrightarrow> store_inv (db\<lparr>receipts := rc\<rparr>)"
  using assms by (simp_all add: store_inv_def)

lemmas table_inv_ops = table_inv_insert_or_ignore table_inv_insert_or_replace table_inv_delete_row
  store_inv_tables

text \<open>What the operations of \<open>block.c\<close> and \<open>invite.c\<close> do, with the handle already resolved.\<close>

lemmas flag_defs = block_add_def block_remove_def block_check_def mute_add_def mute_remove_def
  mute_check_def ban_add_def ban_remove_def ban_check_def invite_create_def invite_accept_def
  invite_find_def ensure_eqs Let_def

lemma sql_works_iff [simp]: "sql_works e st \<longleftrightarrow> env_sql e st = Completes"
  by (simp add: sql_works_def)

lemmas flag_laws = flag_defs ready_defs map_of_insert_or_ignore filter_key_Nil store_inv_fields
  table_inv_ops

interpretation blocking: removable_flags block_ready "\<lambda>k. fst k \<noteq> snd k"
    "\<lambda>e db k (_ :: unit). block_add e db (fst k) (snd k)" "\<lambda>e db k. block_check e db (fst k) (snd k)"
    "\<lambda>db k. map_of (blocks db) k \<noteq> None" store_inv "\<lambda>e db k. block_remove e db (fst k) (snd k)"
  by unfold_locales (auto simp: flag_laws dest: delivered_filter_key split: if_splits)

interpretation muting: removable_flags block_ready "\<lambda>_. True"
    "\<lambda>e db k by_user. mute_add e db (fst k) by_user (snd k)" "\<lambda>e db k. mute_check e db (fst k) (snd k)"
    "\<lambda>db k. map_of (mutes db) k \<noteq> None" store_inv "\<lambda>e db k. mute_remove e db (fst k) (snd k)"
  by unfold_locales (auto simp: flag_laws dest: delivered_filter_key split: if_splits)

interpretation banning: removable_flags block_ready "\<lambda>_. True"
    "\<lambda>e db k by_user. ban_add e db (fst k) by_user (snd k)" "\<lambda>e db k. ban_check e db (fst k) (snd k)"
    "\<lambda>db k. map_of (bans db) k \<noteq> None" store_inv "\<lambda>e db k. ban_remove e db (fst k) (snd k)"
  by unfold_locales (auto simp: flag_laws dest: delivered_filter_key split: if_splits)

interpretation inviting: removable_flags invite_ready "\<lambda>_. True"
    "\<lambda>e db k by_user. invite_create e db (fst k) by_user (snd k)" "\<lambda>e db k. invite_find e db (fst k) (snd k)"
    "\<lambda>db k. map_of (invites db) k \<noteq> None" store_inv "\<lambda>e db k. invite_accept e db (fst k) (snd k)"
  by unfold_locales (auto simp: flag_laws dest: delivered_filter_key split: if_splits)

interpretation reading: flag_table receipt_ready "\<lambda>k. 0 < fst k"
    "\<lambda>e db k (_ :: unit). receipt_mark_read e db (fst k) (snd k)"
    "\<lambda>e db k. (receipt_is_read e db (fst k) (snd k) = 1, db)"
    "\<lambda>db k. map_of (receipts db) k \<noteq> None" store_inv
  by unfold_locales (auto simp: flag_laws receipt_mark_read_def receipt_is_read_def
      dest: delivered_filter_key split: if_splits)

text \<open>C23: With a working engine, after any sequence of mutes and unmutes, of blocks and unblocks, and of bans and their removals, on any
  keys, the check of a key answers as the last of the operations on that key says (or as before, when none was
  on it).  A user cannot block themself: that call fails and changes nothing.\<close>

theorem flags_check_after:
  assumes "block_ready e db" and "\<forall>x \<in> set ops. fst (op_key x) \<noteq> snd (op_key x)" and "a \<noteq> b"
  shows "(fst (mute_check e (run_flags (\<lambda>e db k by_user. mute_add e db (fst k) by_user (snd k))
             (\<lambda>e db k. mute_remove e db (fst k) (snd k)) e db mute_ops) rm u) \<longleftrightarrow>
           flag_after (rm, u) (map_of (mutes db) (rm, u) \<noteq> None) mute_ops) \<and>
         (fst (block_check e (run_flags (\<lambda>e db k (_ :: unit). block_add e db (fst k) (snd k))
             (\<lambda>e db k. block_remove e db (fst k) (snd k)) e db ops) a b) \<longleftrightarrow>
           flag_after (a, b) (map_of (blocks db) (a, b) \<noteq> None) ops) \<and>
         (fst (ban_check e (run_flags (\<lambda>e db k by_user. ban_add e db (fst k) by_user (snd k))
             (\<lambda>e db k. ban_remove e db (fst k) (snd k)) e db ban_ops) rm u) \<longleftrightarrow>
           flag_after (rm, u) (map_of (bans db) (rm, u) \<noteq> None) ban_ops) \<and>
         block_add e db a a = (-1, db)"
  using muting.check_run [OF assms(1), where k = "(rm, u)" and ops = mute_ops]
    blocking.check_run [OF assms(1), where k = "(a, b)" and ops = ops]
    banning.check_run [OF assms(1), where k = "(rm, u)" and ops = ban_ops] assms(2,3)
  by (simp add: block_add_def)

theorem flags_check_after_witness:
  "fst (block_check (sample_env 1 2)
     (run_flags (\<lambda>e db k (_ :: unit). block_add e db (fst k) (snd k))
        (\<lambda>e db k. block_remove e db (fst k) (snd k)) (sample_env 1 2) empty_store
        [Add (''ann'', ''bob'') ()]) ''ann'' ''bob'')"
  using flags_check_after [of "sample_env 1 2" empty_store "[Add (''ann'', ''bob'') ()]" "''ann''" "''bob''"]
  by (simp add: ready_defs sample_env_def empty_store_def)

section \<open>Roles\<close>

lemma get_role_map:
  assumes "perm_ready e db"
  shows "permission_get_role e db rm u =
     (case map_of (roles db) (rm, u) of None \<Rightarrow> ROLE_MEMBER | Some r \<Rightarrow> r, db\<lparr>perm_handle := True\<rparr>)"
proof -
  have "(case map snd (filter (\<lambda>r. fst r = k) t) of [] \<Rightarrow> ROLE_MEMBER | r # _ \<Rightarrow> r) =
      (case map_of t k of None \<Rightarrow> ROLE_MEMBER | Some r \<Rightarrow> r)" for k and t :: "(string \<times> string, room_role) table"
    by (induction t) auto
  with assms show ?thesis by (simp add: permission_get_role_def ensure_eqs perm_ready_def)
qed

lemma get_role_conservative:
  "fst (permission_get_role e db rm u) \<noteq> ROLE_MEMBER \<Longrightarrow>
     \<exists>role. ((rm, u), role) \<in> set (roles db) \<and> fst (permission_get_role e db rm u) = role"
  using set_delivered [of "env_sql e Select_role" "map snd (filter (\<lambda>r. fst r = (rm, u)) (roles db))"]
  by (auto simp: permission_get_role_def ensure_eqs split: if_splits list.splits)

lemma permission_check_role:
  "fst (permission_check e db rm u action) \<longleftrightarrow>
     (let role = fst (permission_get_role e db rm u) in
      action = ''MSG'' \<or> action \<in> {''INVITE'', ''KICK'', ''MUTE''} \<and> ROLE_ADMIN \<le> role \<or>
      action \<in> {''BAN'', ''DEMOTE''} \<and> ROLE_OWNER \<le> role)"
  by (simp add: permission_check_def split_beta Let_def)

lemma owner_only: "ROLE_OWNER \<le> role \<longleftrightarrow> role = ROLE_OWNER"
  by (cases role) (auto simp: role_order)

text \<open>C18: The action \<open>MSG\<close> is granted to everybody, with or without a stored role.  Any other permission is granted only
  on the strength of a stored role of exactly that user in exactly that room, whatever the engine does: bans and
  demotions need the owner, invitations, kicks and mutes an admin or owner; every failure to read the
  role counts as a plain member, and an unknown action is never granted.  With a working engine the stored
  role also suffices.\<close>

theorem permission_needs_role:
  shows "fst (permission_check e db rm u ''MSG'') \<and>
     (action \<noteq> ''MSG'' \<and> fst (permission_check e db rm u action) \<longrightarrow>
        (\<exists>role. ((rm, u), role) \<in> set (roles db) \<and> ROLE_ADMIN \<le> role \<and>
           (action \<in> {''BAN'', ''DEMOTE''} \<longrightarrow> role = ROLE_OWNER) \<and>
           action \<in> {''INVITE'', ''KICK'', ''BAN'', ''MUTE'', ''DEMOTE''})) \<and>
     (perm_ready e db \<and> map_of (roles db) (rm, u) = Some r \<and>
        (action \<in> {''INVITE'', ''KICK'', ''MUTE''} \<and> ROLE_ADMIN \<le> r \<or> action \<in> {''BAN'', ''DEMOTE''} \<and> r = ROLE_OWNER) \<longrightarrow>
        fst (permission_check e db rm u action))"
proof (intro conjI impI, goal_cases)
  case 1
  show ?case unfolding permission_check_role Let_def by simp
next
  case 2
  let ?role = "fst (permission_get_role e db rm u)"
  let ?weak = "action \<in> {''INVITE'', ''KICK'', ''MUTE''}" and ?strong = "action \<in> {''BAN'', ''DEMOTE''}"
  have d: "?weak \<and> ROLE_ADMIN \<le> ?role \<or> ?strong \<and> ?role = ROLE_OWNER"
    using 2 unfolding permission_check_role Let_def owner_only by argo
  have disj: "\<not> (?weak \<and> ?strong)" and all: "?weak \<or> ?strong \<Longrightarrow> action \<in> {''INVITE'', ''KICK'', ''BAN'', ''MUTE'', ''DEMOTE''}"
    by auto
  have up: "ROLE_ADMIN \<le> ROLE_OWNER" by (simp add: role_order)
  have r: "ROLE_ADMIN \<le> ?role" "?strong \<longrightarrow> ?role = ROLE_OWNER" "action \<in> {''INVITE'', ''KICK'', ''BAN'', ''MUTE'', ''DEMOTE''}"
    using d disj all up by metis+
  from r(1) have "?role \<noteq> ROLE_MEMBER" by (auto simp: role_order)
  from get_role_conservative [OF this] have "((rm, u), ?role) \<in> set (roles db)" by auto
  with r show ?case by (intro exI [of _ ?role] conjI)
next
  case 3
  then have "fst (permission_get_role e db rm u) = r" by (simp add: get_role_map)
  with 3 show ?case unfolding permission_check_role Let_def owner_only by blast
qed

theorem permission_needs_role_witness:
  "let db = empty_store\<lparr>roles := [((''den'', ''ann''), ROLE_OWNER)]\<rparr> in
   fst (permission_check (sample_env 1 2) db ''den'' ''ann'' ''BAN'') \<and> fst (permission_check (sample_env 1 2) db ''den'' ''bob'' ''MSG'') \<and>
   (\<exists>role. ((''den'', ''ann''), role) \<in> set (roles db) \<and> ROLE_ADMIN \<le> role)"
proof -
  let ?db = "empty_store\<lparr>roles := [((''den'', ''ann''), ROLE_OWNER)]\<rparr>"
  have ready: "perm_ready (sample_env 1 2) ?db" by (simp add: ready_defs sample_env_def empty_store_def)
  have role: "map_of (roles ?db) (''den'', ''ann'') = Some ROLE_OWNER" by simp
  note ban = permission_needs_role [where e = "sample_env 1 2" and db = ?db and rm = "''den''" and u = "''ann''" and action = "''BAN''" and r = ROLE_OWNER]
  note msg = permission_needs_role [where e = "sample_env 1 2" and db = ?db and rm = "''den''" and u = "''bob''", THEN conjunct1]
  have granted: "fst (permission_check (sample_env 1 2) ?db ''den'' ''ann'' ''BAN'')" using ban ready role by blast
  moreover have "''BAN'' \<noteq> ''MSG''" by simp
  ultimately show ?thesis using ban msg unfolding Let_def by blast
qed

text \<open>C24: With a working engine \<open>permission_set_role\<close> gives the user exactly that role in exactly that
  room and \<open>permission_remove\<close> makes them a plain member again; every other user's role is read as
  before.\<close>

theorem set_role_get_role:
  assumes "perm_ready e db"
  shows "fst (permission_get_role e (snd (permission_set_role e db rm u role)) rm' v) =
      (if (rm', v) = (rm, u) then role else fst (permission_get_role e db rm' v)) \<and>
     fst (permission_get_role e (snd (permission_remove e db rm u)) rm' v) =
      (if (rm', v) = (rm, u) then ROLE_MEMBER else fst (permission_get_role e db rm' v))"
proof -
  have "perm_ready e (snd (permission_set_role e db rm u role))" "perm_ready e (snd (permission_remove e db rm u))"
    using assms by (simp_all add: permission_set_role_def permission_remove_def ensure_eqs perm_ready_def)
  with assms show ?thesis
    by (auto simp: get_role_map) (auto simp: permission_set_role_def permission_remove_def ensure_eqs perm_ready_def)
qed

theorem set_role_get_role_witness:
  "fst (permission_get_role (sample_env 1 2)
     (snd (permission_set_role (sample_env 1 2) empty_store ''den'' ''ann'' ROLE_ADMIN)) ''den'' ''ann'') = ROLE_ADMIN"
  using set_role_get_role [of "sample_env 1 2" empty_store "''den''" "''ann''" ROLE_ADMIN "''den''" "''ann''"]
  by (simp add: perm_ready_def sample_env_def empty_store_def)

lemma store_inv_set_role: "store_inv db \<Longrightarrow> store_inv (snd (permission_set_role e db rm u role))"
  by (auto simp: permission_set_role_def ensure_eqs store_inv_fields table_inv_ops Let_def)

lemma store_inv_get_role: "store_inv db \<Longrightarrow> store_inv (snd (permission_get_role e db rm u))"
  by (simp add: permission_get_role_def ensure_eqs store_inv_fields)

lemma store_inv_permission_check: "store_inv db \<Longrightarrow> store_inv (snd (permission_check e db rm u act))"
  using store_inv_get_role [of db e rm u] by (simp add: permission_check_def split_beta)

end
