(* ===== verification/Presence.thy ===== *)
theory Presence
  imports Environment
begin

text \<open>
  Typing indicators (\<open>src/presence.c\<close>) and the login rate limiter (\<open>src/server.c\<close>).  Both keep
  a static array of 256 entries, searched by name and extended on demand; the entries in use are a
  list here.  The locale \<open>bounded_table\<close> is the contract of that search, interpreted on both.
\<close>

section \<open>Tables that create an entry on first use\<close>

locale bounded_table =
  fixes find :: "'e list \<Rightarrow> string \<Rightarrow> nat option \<times> 'e list"
    and key :: "'e \<Rightarrow> string"
    and fresh :: "string \<Rightarrow> 'e"
    and bound :: nat
    and key_len :: nat
  assumes find_old: "k \<in> key ` set t \<Longrightarrow> \<exists>i < length t. find t k = (Some i, t) \<and> key (t ! i) = k"
    and find_new: "k \<notin> key ` set t \<Longrightarrow> length t < bound \<Longrightarrow> find t k = (Some (length t), t @ [fresh k])"
    and find_full: "k \<notin> key ` set t \<Longrightarrow> bound \<le> length t \<Longrightarrow> find t k = (None, t)"
    and key_fresh: "length k < key_len \<Longrightarrow> key (fresh k) = k"
begin

lemma find_cases:
  obtains (old) i where "find t k = (Some i, t)" "i < length t" "key (t ! i) = k"
  | (new) "find t k = (Some (length t), t @ [fresh k])" "k \<notin> key ` set t" "length t < bound"
  | (full) "find t k = (None, t)" "k \<notin> key ` set t" "bound \<le> length t"
  using find_old find_new find_full by (cases "k \<in> key ` set t"; cases "length t < bound") force+

lemma find_length: "length t \<le> bound \<Longrightarrow> length (snd (find t k)) \<le> bound"
  by (cases rule: find_cases [of t k]) auto

lemma find_index: "find t k = (Some i, t') \<Longrightarrow> i < length t'"
  by (cases rule: find_cases [of t k]) auto

lemma find_key: "find t k = (Some i, t') \<Longrightarrow> length k < key_len \<Longrightarrow> key (t' ! i) = k"
  by (cases rule: find_cases [of t k]) (auto simp: key_fresh)

lemma find_prefix: "find t k = (p, t') \<Longrightarrow> j < length t \<Longrightarrow> t' ! j = t ! j"
  by (cases rule: find_cases [of t k]) (auto simp: nth_append)

lemma find_distinct:
  "distinct (map key t) \<Longrightarrow> length k < key_len \<Longrightarrow> distinct (map key (snd (find t k)))"
  by (cases rule: find_cases [of t k]) (auto simp: key_fresh)

text \<open>With distinct keys the entry found is the same as long as the keys stay.\<close>

lemma find_again:
  assumes "distinct (map key t)" and "length k < key_len" and "find t k = (Some i, t')"
    and "map key t'' = map key t'"
  shows "find t'' k = (Some i, t'')"
proof -
  have d: "distinct (map key t'')" using find_distinct [OF assms(1,2)] assms(3,4) by simp
  have len: "length t'' = length t'" using assms(4) by (metis length_map)
  have ki: "key (t'' ! i) = k"
    using find_key [OF assms(3,2)] find_index [OF assms(3)] assms(4) len by (metis nth_map)
  have il: "i < length t''" using find_index [OF assms(3)] len by simp
  then have "k \<in> key ` set t''" using ki by force
  from find_old [OF this] obtain j where j: "j < length t''" "find t'' k = (Some j, t'')" "key (t'' ! j) = k" by auto
  with d ki il have "j = i" by (metis distinct_conv_nth length_map nth_map)
  with j show ?thesis by simp
qed

end

lemma scan_key:
  "k \<in> key ` set t \<Longrightarrow> \<exists>i < length t. scan (\<lambda>s. key s = k) t 0 (length t) = Some i \<and> key (t ! i) = k"
proof (cases "scan (\<lambda>s. key s = k) t 0 (length t)")
  case None
  moreover assume "k \<in> key ` set t"
  ultimately show ?thesis by (auto simp: scan_None in_set_conv_nth)
qed (auto simp: scan_Some)

lemma scan_no_key: "k \<notin> key ` set t \<Longrightarrow> scan (\<lambda>s. key s = k) t 0 (length t) = None"
  by (auto simp: scan_None)

section \<open>Typing indicators\<close>

abbreviation MAX_TYPING_USERS :: nat where "MAX_TYPING_USERS \<equiv> 256"
abbreviation TYPING_DEBOUNCE_SEC :: int where "TYPING_DEBOUNCE_SEC \<equiv> 3"
abbreviation TYPING_RATE_LIMIT_SEC :: int where "TYPING_RATE_LIMIT_SEC \<equiv> 2"

record typing_state =
  ty_username :: string
  ty_active :: bool
  last_typed_at :: int
  started_at :: int

definition new_typing_state :: "string \<Rightarrow> typing_state" where
  "new_typing_state nm = \<lparr>ty_username = strncpy_term 32 nm, ty_active = False, last_typed_at = 0, started_at = 0\<rparr>"

definition find_typing_state :: "typing_state list \<Rightarrow> string \<Rightarrow> nat option \<times> typing_state list" where
  "find_typing_state t nm =
     (case scan (\<lambda>s. ty_username s = nm) t 0 (length t) of
        Some i \<Rightarrow> (Some i, t)
      | None \<Rightarrow>
          if length t < MAX_TYPING_USERS then (Some (length t), t @ [new_typing_state nm])
          else (None, t))"

definition presence_init :: "typing_state list \<Rightarrow> typing_state list" where
  "presence_init t = []"

definition presence_typing_start :: "env \<Rightarrow> typing_state list \<Rightarrow> string \<Rightarrow> bool \<times> typing_state list" where
  "presence_typing_start e t nm =
     (case find_typing_state t nm of
        (None, t1) \<Rightarrow> (False, t1)
      | (Some i, t1) \<Rightarrow>
          let s = t1 ! i in
          if \<not> ty_active s \<or> env_now e - last_typed_at s \<ge> TYPING_RATE_LIMIT_SEC
          then (True, t1[i := s\<lparr>ty_active := True, last_typed_at := env_now e,
                  started_at := (if started_at s = 0 then env_now e else started_at s)\<rparr>])
          else (False, t1))"

definition presence_typing_stop :: "typing_state list \<Rightarrow> string \<Rightarrow> typing_state list" where
  "presence_typing_stop t nm =
     (case find_typing_state t nm of
        (None, t1) \<Rightarrow> t1
      | (Some i, t1) \<Rightarrow> t1[i := (t1 ! i)\<lparr>ty_active := False, started_at := 0\<rparr>])"

definition presence_is_typing :: "typing_state list \<Rightarrow> string \<Rightarrow> bool \<times> typing_state list" where
  "presence_is_typing t nm =
     (case find_typing_state t nm of
        (None, t1) \<Rightarrow> (False, t1)
      | (Some i, t1) \<Rightarrow> (ty_active (t1 ! i), t1))"

definition stale :: "env \<Rightarrow> typing_state \<Rightarrow> bool" where
  "stale e s \<longleftrightarrow> ty_active s \<and> env_now e - started_at s \<ge> TYPING_DEBOUNCE_SEC"

definition presence_cleanup_stale :: "env \<Rightarrow> typing_state list \<Rightarrow> int \<times> typing_state list" where
  "presence_cleanup_stale e t =
     (int (length (filter (stale e) t)),
      map (\<lambda>s. if stale e s then s\<lparr>ty_active := False, started_at := 0\<rparr> else s) t)"

interpretation typing: bounded_table find_typing_state ty_username new_typing_state MAX_TYPING_USERS 32
proof (unfold_locales, goal_cases)
  case (1 k t)
  from scan_key [OF this] show ?case by (auto simp: find_typing_state_def)
qed (auto simp: find_typing_state_def new_typing_state_def scan_no_key)

section \<open>The login rate limiter\<close>

abbreviation LOGIN_RATE_WINDOW :: int where "LOGIN_RATE_WINDOW \<equiv> 60"
abbreviation LOGIN_RATE_MAX :: int where "LOGIN_RATE_MAX \<equiv> 10"
abbreviation LOGIN_LOCKOUT_SEC :: int where "LOGIN_LOCKOUT_SEC \<equiv> 300"
abbreviation MAX_RATE_ENTRIES :: nat where "MAX_RATE_ENTRIES \<equiv> 256"

record login_rate_entry =
  rate_ip :: string
  attempts :: int
  window_start :: int
  lockout_until :: int

definition new_login_rate :: "string \<Rightarrow> login_rate_entry" where
  "new_login_rate ip = \<lparr>rate_ip = strncpy_term 46 ip, attempts = 0, window_start = 0, lockout_until = 0\<rparr>"

definition find_login_rate :: "login_rate_entry list \<Rightarrow> string \<Rightarrow> nat option \<times> login_rate_entry list" where
  "find_login_rate t ip =
     (case scan (\<lambda>s. rate_ip s = ip) t 0 (length t) of
        Some i \<Rightarrow> (Some i, t)
      | None \<Rightarrow>
          if length t < MAX_RATE_ENTRIES then (Some (length t), t @ [new_login_rate ip])
          else (None, t))"

text \<open>The decision on one entry, at time \<open>now\<close>.\<close>

definition rate_entry_check :: "int \<Rightarrow> login_rate_entry \<Rightarrow> int \<times> login_rate_entry" where
  "rate_entry_check now e =
     (if lockout_until e > 0 \<and> now < lockout_until e then (-1, e)
      else
        let e1 = (if lockout_until e > 0 \<and> now \<ge> lockout_until e
                  then e\<lparr>attempts := 0, lockout_until := 0, window_start := now\<rparr> else e);
            e2 = (if now - window_start e1 > LOGIN_RATE_WINDOW
                  then e1\<lparr>attempts := 0, window_start := now\<rparr> else e1);
            e3 = e2\<lparr>attempts := attempts e2 + 1\<rparr> in
        if attempts e3 > LOGIN_RATE_MAX then (-1, e3\<lparr>lockout_until := now + LOGIN_LOCKOUT_SEC\<rparr>)
        else (0, e3))"

definition server_check_login_rate :: "env \<Rightarrow> login_rate_entry list \<Rightarrow> string \<Rightarrow> int \<times> login_rate_entry list" where
  "server_check_login_rate e t ip =
     (case find_login_rate t ip of
        (None, t1) \<Rightarrow> (0, t1)
      | (Some i, t1) \<Rightarrow>
          let (rc, en) = rate_entry_check (env_now e) (t1 ! i) in (rc, t1[i := en]))"

interpretation logins: bounded_table find_login_rate rate_ip new_login_rate MAX_RATE_ENTRIES 46
proof (unfold_locales, goal_cases)
  case (1 k t)
  from scan_key [OF this] show ?case by (auto simp: find_login_rate_def)
qed (auto simp: find_login_rate_def new_login_rate_def scan_no_key)

section \<open>Properties of the typing indicators\<close>

definition typing_inv :: "typing_state list \<Rightarrow> bool" where
  "typing_inv t \<longleftrightarrow> length t \<le> MAX_TYPING_USERS \<and> distinct (map ty_username t)"

lemma typing_inv_find: "typing_inv t \<Longrightarrow> length nm < 32 \<Longrightarrow> typing_inv (snd (find_typing_state t nm))"
  by (simp add: typing_inv_def typing.find_length typing.find_distinct)

lemma typing_inv_update:
  "typing_inv t \<Longrightarrow> ty_username s = ty_username (t ! i) \<Longrightarrow> typing_inv (t[i := s])"
proof -
  assume "ty_username s = ty_username (t ! i)"
  then have "map ty_username (t[i := s]) = map ty_username t"
    by (cases "i < length t") (simp_all add: map_update list_update_same_conv list_update_beyond)
  moreover assume "typing_inv t"
  ultimately show ?thesis by (simp add: typing_inv_def)
qed

lemma typing_inv_start: "typing_inv t \<Longrightarrow> length nm < 32 \<Longrightarrow> typing_inv (snd (presence_typing_start e t nm))"
  using typing_inv_find [of t nm]
  by (auto simp: presence_typing_start_def Let_def intro!: typing_inv_update split: prod.split option.split)

lemma typing_inv_stop: "typing_inv t \<Longrightarrow> length nm < 32 \<Longrightarrow> typing_inv (presence_typing_stop t nm)"
  using typing_inv_find [of t nm]
  by (auto simp: presence_typing_stop_def intro!: typing_inv_update split: prod.split option.split)

lemma typing_inv_cleanup: "typing_inv t \<Longrightarrow> typing_inv (snd (presence_cleanup_stale e t))"
proof -
  have "map ty_username (snd (presence_cleanup_stale e t)) = map ty_username t"
    by (simp add: presence_cleanup_stale_def comp_def if_distrib cong: if_cong)
  then show "typing_inv t \<Longrightarrow> ?thesis" by (metis length_map typing_inv_def)
qed

text \<open>C30: The table of typing users never holds more than 256 entries nor two for one user, whatever
  sequence of starts, stops, queries and clean-ups runs on it.\<close>

theorem typing_inv_preserved:
  assumes "typing_inv t" and "length nm < 32"
  shows "typing_inv (snd (presence_typing_start e t nm)) \<and> typing_inv (presence_typing_stop t nm) \<and>
     typing_inv (snd (presence_is_typing t nm)) \<and> typing_inv (snd (presence_cleanup_stale e t)) \<and>
     typing_inv (presence_init t)"
proof (intro conjI)
  show "typing_inv (snd (presence_is_typing t nm))"
    using typing_inv_find [OF assms] by (auto simp: presence_is_typing_def split: prod.split option.split)
qed (simp_all add: assms typing_inv_start typing_inv_stop typing_inv_cleanup presence_init_def typing_inv_def [of "[]"])

theorem typing_inv_preserved_witness:
  "typing_inv (snd (presence_typing_start (sample_env 1 2) [] ''ann''))"
  using typing_inv_preserved [of "[]" "''ann''" "sample_env 1 2"] by (simp add: typing_inv_def)

text \<open>
  What is called on the table over time: starts and clean-ups at the time of their \<open>env\<close>, stops and queries.
\<close>

datatype typing_op = Typing_start env string | Typing_stop string | Typing_query string | Typing_cleanup env

fun typing_op_run :: "typing_op \<Rightarrow> typing_state list \<Rightarrow> typing_state list" where
  "typing_op_run (Typing_start e nm) t = snd (presence_typing_start e t nm)"
| "typing_op_run (Typing_stop nm) t = presence_typing_stop t nm"
| "typing_op_run (Typing_query nm) t = snd (presence_is_typing t nm)"
| "typing_op_run (Typing_cleanup e) t = snd (presence_cleanup_stale e t)"

fun typing_op_ok :: "typing_op \<Rightarrow> bool" where
  "typing_op_ok (Typing_start _ nm) = (length nm < 32)"
| "typing_op_ok (Typing_stop nm) = (length nm < 32)"
| "typing_op_ok (Typing_query nm) = (length nm < 32)"
| "typing_op_ok (Typing_cleanup _) = True"

definition typing_run :: "typing_op list \<Rightarrow> typing_state list \<Rightarrow> typing_state list" where
  "typing_run ops t = fold typing_op_run ops t"

text \<open>The entry of a user, once there, stays where it is.\<close>

definition entry_at :: "typing_state list \<Rightarrow> string \<Rightarrow> nat \<Rightarrow> bool" where
  "entry_at t nm i \<longleftrightarrow> typing_inv t \<and> i < length t \<and> ty_username (t ! i) = nm"

lemma entry_at_find: "entry_at t nm i \<Longrightarrow> length nm < 32 \<Longrightarrow> find_typing_state t nm = (Some i, t)"
proof -
  assume a: "entry_at t nm i" and "length nm < 32"
  then have "nm \<in> ty_username ` set t" by (auto simp: entry_at_def)
  from typing.find_old [OF this] obtain j where j: "j < length t" "find_typing_state t nm = (Some j, t)" "ty_username (t ! j) = nm"
    by auto
  with a have "j = i" by (auto simp: entry_at_def typing_inv_def distinct_conv_nth)
  with j show "find_typing_state t nm = (Some i, t)" by simp
qed

lemma typing_inv_query: "typing_inv t \<Longrightarrow> length nm < 32 \<Longrightarrow> typing_inv (snd (presence_is_typing t nm))"
  using typing_inv_find [of t nm] by (auto simp: presence_is_typing_def split: prod.split option.split)

lemma typing_inv_op: "typing_inv t \<Longrightarrow> typing_op_ok op \<Longrightarrow> typing_inv (typing_op_run op t)"
  by (cases op) (simp_all add: typing_inv_start typing_inv_stop typing_inv_query typing_inv_cleanup)

text \<open>What one operation does to the entry of a user.\<close>

definition entry_step :: "string \<Rightarrow> typing_op \<Rightarrow> typing_state \<Rightarrow> typing_state" where
  "entry_step nm op s = (case op of
     Typing_start e n \<Rightarrow>
       if n = nm \<and> (\<not> ty_active s \<or> env_now e - last_typed_at s \<ge> TYPING_RATE_LIMIT_SEC)
       then s\<lparr>ty_active := True, last_typed_at := env_now e,
              started_at := (if started_at s = 0 then env_now e else started_at s)\<rparr> else s
   | Typing_stop n \<Rightarrow> if n = nm then s\<lparr>ty_active := False, started_at := 0\<rparr> else s
   | Typing_query n \<Rightarrow> s
   | Typing_cleanup e \<Rightarrow> if stale e s then s\<lparr>ty_active := False, started_at := 0\<rparr> else s)"

lemma entry_step_name [simp]: "ty_username (entry_step nm op s) = ty_username s"
  by (simp add: entry_step_def split: typing_op.split)

lemma found_other:
  assumes "find_typing_state t n = (Some j, t')" and "length n < 32" and "entry_at t nm i"
  shows "i < length t' \<and> t' ! i = t ! i \<and> (j = i \<longleftrightarrow> n = nm)"
proof -
  have i: "i < length t" "t' ! i = t ! i" using assms typing.find_prefix [OF assms(1)] by (auto simp: entry_at_def)
  moreover have "length t \<le> length t'"
    using assms(1) by (cases rule: typing.find_cases [of t n]) auto
  moreover have "j = i" if "n = nm" using entry_at_find [OF assms(3)] assms(1,2) that by simp
  moreover have "n = nm" if "j = i"
    using typing.find_key [OF assms(1,2)] i(2) assms(3) that by (simp add: entry_at_def)
  ultimately show ?thesis by auto
qed

lemma entry_at_op:
  assumes "entry_at t nm i" and "typing_op_ok op"
  shows "entry_at (typing_op_run op t) nm i \<and> typing_op_run op t ! i = entry_step nm op (t ! i)"
proof -
  have i: "i < length t" "ty_username (t ! i) = nm" using assms(1) by (simp_all add: entry_at_def)
  have full: "t' = t" if "find_typing_state t n = (None, t')" for n t'
    using that by (cases rule: typing.find_cases [of t n]) auto
  have absent: "n \<noteq> nm" if "find_typing_state t n = (None, t')" "length n < 32" for n t'
    using entry_at_find [OF assms(1)] that by auto
  have "i < length (typing_op_run op t) \<and> typing_op_run op t ! i = entry_step nm op (t ! i)"
  proof (cases op)
    case (Typing_start e n)
    then have n: "length n < 32" using assms(2) by simp
    obtain p t' where f: "find_typing_state t n = (p, t')" by fastforce
    show ?thesis
    proof (cases p)
      case None
      with f n full [of n t'] absent [of n t'] have "t' = t" "n \<noteq> nm" by simp_all
      with f None i Typing_start show ?thesis by (simp add: presence_typing_start_def entry_step_def)
    next
      case (Some j)
      with found_other [OF _ n assms(1)] f have j: "i < length t'" "t' ! i = t ! i" "j = i \<longleftrightarrow> n = nm" by auto
      from f Some Typing_start j show ?thesis
        by (cases "n = nm") (simp_all add: presence_typing_start_def entry_step_def Let_def)
    qed
  next
    case (Typing_stop n)
    then have n: "length n < 32" using assms(2) by simp
    obtain p t' where f: "find_typing_state t n = (p, t')" by fastforce
    show ?thesis
    proof (cases p)
      case None
      with f n full [of n t'] absent [of n t'] have "t' = t" "n \<noteq> nm" by simp_all
      with f None i Typing_stop show ?thesis by (simp add: presence_typing_stop_def entry_step_def)
    next
      case (Some j)
      with found_other [OF _ n assms(1)] f have j: "i < length t'" "t' ! i = t ! i" "j = i \<longleftrightarrow> n = nm" by auto
      from f Some Typing_stop j show ?thesis
        by (cases "n = nm") (simp_all add: presence_typing_stop_def entry_step_def)
    qed
  next
    case (Typing_query n)
    then have n: "length n < 32" using assms(2) by simp
    obtain p t' where f: "find_typing_state t n = (p, t')" by fastforce
    have "i < length t' \<and> t' ! i = t ! i"
      using f full [of n t'] found_other [OF _ n assms(1)] i by (cases p) auto
    with f Typing_query show ?thesis
      by (cases p) (simp_all add: presence_is_typing_def entry_step_def)
  next
    case (Typing_cleanup e)
    then show ?thesis using i by (simp add: presence_cleanup_stale_def entry_step_def)
  qed
  moreover have "typing_inv (typing_op_run op t)" using assms by (intro typing_inv_op) (simp add: entry_at_def)
  ultimately show ?thesis using i by (simp add: entry_at_def)
qed

lemma entry_at_run:
  "entry_at t nm i \<Longrightarrow> (\<forall>op \<in> set ops. typing_op_ok op) \<Longrightarrow> entry_at (typing_run ops t) nm i"
  by (induction ops arbitrary: t) (simp_all add: typing_run_def entry_at_op)

lemma is_typing_entry: "entry_at t nm i \<Longrightarrow> length nm < 32 \<Longrightarrow> presence_is_typing t nm = (ty_active (t ! i), t)"
  by (simp add: presence_is_typing_def entry_at_find)

lemma start_entry:
  assumes "typing_inv t" and "length nm < 32" and "presence_typing_start e t nm = (True, t1)"
  shows "\<exists>i. entry_at t1 nm i \<and> ty_active (t1 ! i) \<and> last_typed_at (t1 ! i) = env_now e"
proof -
  from assms(3) obtain i t0 where f: "find_typing_state t nm = (Some i, t0)"
    and t1: "t1 = t0[i := (t0 ! i)\<lparr>ty_active := True, last_typed_at := env_now e,
        started_at := (if started_at (t0 ! i) = 0 then env_now e else started_at (t0 ! i))\<rparr>]"
    by (auto simp: presence_typing_start_def Let_def split: prod.splits option.splits if_splits)
  have "i < length t0" "ty_username (t0 ! i) = nm" using typing.find_index [OF f] typing.find_key [OF f assms(2)] by auto
  then show ?thesis using typing_inv_start [OF assms(1,2), of e] assms(3) by (intro exI [of _ i]) (simp add: entry_at_def t1)
qed

text \<open>While the user counts as typing the time of the last broadcast does not go back.\<close>

lemma typing_run_kept:
  assumes "entry_at t nm i" and "length nm < 32" and "\<forall>op \<in> set ops. typing_op_ok op"
    and "\<forall>k \<le> length ops. fst (presence_is_typing (typing_run (take k ops) t) nm)"
  shows "ty_active (typing_run ops t ! i) \<and> last_typed_at (t ! i) \<le> last_typed_at (typing_run ops t ! i)"
  using assms
proof (induction ops arbitrary: t)
  case Nil
  then show ?case using is_typing_entry [OF Nil(1,2)] by (simp add: typing_run_def)
next
  case (Cons op ops)
  let ?t = "typing_op_run op t"
  have op: "typing_op_ok op" using Cons.prems(3) by simp
  note e = entry_at_op [OF Cons.prems(1) op]
  have run: "typing_run (op # xs) t = typing_run xs ?t" for xs by (simp add: typing_run_def)
  have "fst (presence_is_typing (typing_run (take k ops) ?t) nm)" if "k \<le> length ops" for k
    using Cons.prems(4) [rule_format, of "Suc k"] that by (simp add: run)
  then have IH: "ty_active (typing_run ops ?t ! i) \<and> last_typed_at (?t ! i) \<le> last_typed_at (typing_run ops ?t ! i)"
    using Cons.prems e by (intro Cons.IH) auto
  have "fst (presence_is_typing (typing_run [] t) nm)" using Cons.prems(4) [rule_format, of 0] by simp
  then have "ty_active (t ! i)" using is_typing_entry [OF Cons.prems(1,2)] by (simp add: typing_run_def)
  then have "last_typed_at (t ! i) \<le> last_typed_at (?t ! i)"
    using e by (auto simp: entry_step_def split: typing_op.split)
  with IH show ?case by (simp add: run)
qed

text \<open>C31: After a broadcast of \<open>TYPING\<close>, whatever happens to the table in between, a further \<open>TYPING\<close> of the
  user less than two seconds after it is suppressed if the user has counted as typing all the time;
  but once the user counts as not typing any more (\<open>STOP_TYPING\<close>, a logout, or the clean-up), the next
  \<open>TYPING\<close> is broadcast whatever the time, so the limit is not one broadcast
  per two seconds and user, as the module's description says.\<close>

theorem typing_rate_limited:
  assumes "typing_inv t" and "length nm < 32" and "presence_typing_start e t nm = (True, t1)"
    and "\<forall>op \<in> set ops. typing_op_ok op"
  shows "let t' = typing_run ops t1 in
     ((\<forall>k \<le> length ops. fst (presence_is_typing (typing_run (take k ops) t1) nm)) \<and>
        env_now e' < env_now e + TYPING_RATE_LIMIT_SEC \<longrightarrow> presence_typing_start e' t' nm = (False, t')) \<and>
     (\<not> fst (presence_is_typing t' nm) \<longrightarrow> fst (presence_typing_start e' t' nm)) \<and>
     \<not> fst (presence_is_typing (presence_typing_stop t' nm) nm) \<and>
     fst (presence_typing_start e' (presence_typing_stop t' nm) nm)"
proof -
  let ?t = "typing_run ops t1"
  from start_entry [OF assms(1-3)] obtain i where
    i: "entry_at t1 nm i" "ty_active (t1 ! i)" "last_typed_at (t1 ! i) = env_now e" by blast
  have e: "entry_at ?t nm i" by (rule entry_at_run [OF i(1) assms(4)])
  have stop: "entry_at (presence_typing_stop ?t nm) nm i" "\<not> ty_active (presence_typing_stop ?t nm ! i)"
    using entry_at_op [OF e, of "Typing_stop nm"] assms(2) by (simp_all add: entry_step_def)
  have idle: "fst (presence_typing_start e' x nm)" if "entry_at x nm i" "\<not> ty_active (x ! i)" for x
    using that entry_at_find [OF that(1) assms(2)] by (simp add: presence_typing_start_def Let_def)
  have "presence_typing_start e' ?t nm = (False, ?t)"
    if "\<forall>k \<le> length ops. fst (presence_is_typing (typing_run (take k ops) t1) nm)" "env_now e' < env_now e + TYPING_RATE_LIMIT_SEC"
    using typing_run_kept [OF i(1) assms(2,4) that(1)] that(2) i(3) entry_at_find [OF e assms(2)]
    by (simp add: presence_typing_start_def Let_def)
  with idle [OF e] idle [OF stop] is_typing_entry [OF e assms(2)] is_typing_entry [OF stop(1) assms(2)] stop(2)
  show ?thesis by (simp add: Let_def)
qed

text \<open>\<open>TYPING\<close>, \<open>STOP_TYPING\<close>, \<open>TYPING\<close> within one second: both are broadcast; without the stop the second is not.\<close>

theorem typing_rate_limited_witness:
  "let t1 = snd (presence_typing_start (sample_env 1 2) [] ''ann''); later = (sample_env 1 2)\<lparr>env_now := 1001\<rparr> in
   \<not> fst (presence_typing_start later t1 ''ann'') \<and>
   fst (presence_typing_start later (presence_typing_stop t1 ''ann'') ''ann'')"
proof -
  let ?t = "snd (presence_typing_start (sample_env 1 2) [] ''ann'')"
  let ?e = "(sample_env 1 2)\<lparr>env_now := 1001\<rparr>"
  have "presence_typing_start (sample_env 1 2) [] ''ann'' = (True, ?t)" "fst (presence_is_typing ?t ''ann'')"
    by (simp_all add: presence_typing_start_def presence_is_typing_def find_typing_state_def scan.simps new_typing_state_def
        strncpy_term_def Let_def)
  with typing_rate_limited [where t = "[]" and nm = "''ann''" and e = "sample_env 1 2" and ?t1.0 = ?t and ops = "[]" and e' = ?e]
  show ?thesis by (simp add: typing_inv_def typing_run_def Let_def)
qed

text \<open>C38: The clean-up looks at when the user started, not at their last keystroke: whoever has been
  typing for three seconds is stopped even if they typed in this very second.  (The module's
  description says typing stops after three seconds of silence.)\<close>

theorem cleanup_ignores_activity:
  assumes "i < length t" and "ty_active (t ! i)" and "started_at (t ! i) \<le> env_now e - TYPING_DEBOUNCE_SEC"
  shows "\<not> ty_active (snd (presence_cleanup_stale e t) ! i) \<and> 0 < fst (presence_cleanup_stale e t)"
  using assms by (auto simp: presence_cleanup_stale_def stale_def filter_empty_conv intro: nth_mem)

theorem cleanup_ignores_activity_witness:
  "let t = [\<lparr>ty_username = ''ann'', ty_active = True, last_typed_at = 1000, started_at = 997\<rparr>] in
   \<not> ty_active (snd (presence_cleanup_stale (sample_env 1 2) t) ! 0)"
  using cleanup_ignores_activity [of 0
      "[\<lparr>ty_username = ''ann'', ty_active = True, last_typed_at = 1000, started_at = 997\<rparr>]" "sample_env 1 2"]
  by (simp add: Let_def)

section \<open>Properties of the login limiter\<close>

text \<open>The answers of successive checks of one address at the given times.\<close>

fun rate_run :: "login_rate_entry \<Rightarrow> int list \<Rightarrow> int list" where
  "rate_run en [] = []"
| "rate_run en (now # ts) = (let (rc, en') = rate_entry_check now en in rc # rate_run en' ts)"

text \<open>The entry after those checks, and the answers of \<open>n\<close> checks in one window: ten passed, the rest refused.\<close>

definition rate_after :: "login_rate_entry \<Rightarrow> int list \<Rightarrow> login_rate_entry" where
  "rate_after en ts = fold (\<lambda>now en. snd (rate_entry_check now en)) ts en"

definition window_answers :: "nat \<Rightarrow> int list" where
  "window_answers n = replicate (min n 10) 0 @ replicate (n - 10) (-1)"

text \<open>A check at \<open>t0\<close> opens a new window: the lockout is over, or there is none and the old window is.\<close>

definition opens_window :: "int \<Rightarrow> login_rate_entry \<Rightarrow> bool" where
  "opens_window t0 en \<longleftrightarrow> 0 < t0 \<and>
     (if 0 < lockout_until en then lockout_until en \<le> t0 else window_start en + LOGIN_RATE_WINDOW < t0)"

lemma rate_run_append: "rate_run en (ts @ us) = rate_run en ts @ rate_run (rate_after en ts) us"
  by (induction ts arbitrary: en) (simp_all add: rate_after_def split_beta Let_def)

lemma rate_after_Cons [simp]: "rate_after en (now # ts) = rate_after (snd (rate_entry_check now en)) ts"
  by (simp add: rate_after_def)

lemma rate_locked:
  "0 < lockout_until en \<Longrightarrow> (\<forall>t \<in> set ts. t < lockout_until en) \<Longrightarrow>
     rate_run en ts = replicate (length ts) (-1) \<and> rate_after en ts = en"
  by (induction ts) (simp_all add: rate_entry_check_def rate_after_def)

text \<open>
  Within a window that has let \<open>attempts en\<close> checks through: the answers, and the entry afterwards.
\<close>

lemma rate_window:
  assumes "lockout_until en \<le> 0" and "0 < window_start en" and "0 \<le> attempts en" and "attempts en \<le> LOGIN_RATE_MAX"
    and "\<forall>t \<in> set ts. window_start en \<le> t \<and> t \<le> window_start en + LOGIN_RATE_WINDOW"
  shows "rate_run en ts = replicate (min (length ts) (nat (10 - attempts en))) 0 @
       replicate (length ts - nat (10 - attempts en)) (-1) \<and>
     (if length ts \<le> nat (10 - attempts en)
      then lockout_until (rate_after en ts) \<le> 0 \<and> window_start (rate_after en ts) = window_start en
      else lockout_until (rate_after en ts) = ts ! nat (10 - attempts en) + LOGIN_LOCKOUT_SEC)"
  using assms
proof (induction ts arbitrary: en)
  case Nil
  then show ?case by (simp add: rate_after_def)
next
  case (Cons now ts)
  let ?en = "en\<lparr>attempts := attempts en + 1\<rparr>"
  show ?case
  proof (cases "attempts en = 10")
    case True
    let ?locked = "?en\<lparr>lockout_until := now + LOGIN_LOCKOUT_SEC\<rparr>"
    have "\<forall>t \<in> set ts. t < now + 300" using Cons.prems(5) by fastforce
    moreover have "0 < now + 300" using Cons.prems(2,5) by auto
    ultimately have "rate_run ?locked ts = replicate (length ts) (-1) \<and> rate_after ?locked ts = ?locked"
      by (intro rate_locked) simp_all
    with True Cons.prems show ?thesis by (simp add: rate_entry_check_def Let_def)
  next
    case False
    with Cons.prems have step: "rate_entry_check now en = (0, ?en)"
      by (simp add: rate_entry_check_def Let_def)
    have n: "nat (10 - attempts en) = Suc (nat (10 - attempts ?en))" using False Cons.prems(4) by simp
    have "rate_run ?en ts = replicate (min (length ts) (nat (10 - attempts ?en))) 0 @
        replicate (length ts - nat (10 - attempts ?en)) (-1) \<and>
       (if length ts \<le> nat (10 - attempts ?en)
        then lockout_until (rate_after ?en ts) \<le> 0 \<and> window_start (rate_after ?en ts) = window_start ?en
        else lockout_until (rate_after ?en ts) = ts ! nat (10 - attempts ?en) + LOGIN_LOCKOUT_SEC)"
      using Cons.prems False by (intro Cons.IH) auto
    with n show ?thesis by (simp add: step)
  qed
qed

lemma rate_open:
  assumes "opens_window t0 en" and "\<forall>t \<in> set ts. t0 \<le> t \<and> t \<le> t0 + LOGIN_RATE_WINDOW"
  shows "rate_run en (t0 # ts) = window_answers (length (t0 # ts))"
    and "length ts < 10 \<Longrightarrow> t0 + LOGIN_RATE_WINDOW < t1 \<Longrightarrow> opens_window t1 (rate_after en (t0 # ts))"
    and "10 \<le> length ts \<Longrightarrow> lockout_until (rate_after en (t0 # ts)) = ts ! 9 + LOGIN_LOCKOUT_SEC"
proof -
  obtain en1 where c: "rate_entry_check t0 en = (0, en1)" and
    en1: "lockout_until en1 \<le> 0" "window_start en1 = t0" "attempts en1 = 1"
    using assms(1) by (auto simp: opens_window_def rate_entry_check_def Let_def split: if_splits)
  have t0: "0 < t0" using assms(1) by (simp add: opens_window_def)
  note w = rate_window [of en1 ts, unfolded en1, OF en1(1) t0, simplified, OF assms(2) [simplified]]
  show "rate_run en (t0 # ts) = window_answers (length (t0 # ts))"
    using w by (simp add: c window_answers_def)
  show "opens_window t1 (rate_after en (t0 # ts))" if "length ts < 10" "t0 + LOGIN_RATE_WINDOW < t1"
    using w that t0 en1 by (simp add: c opens_window_def)
  show "lockout_until (rate_after en (t0 # ts)) = ts ! 9 + LOGIN_LOCKOUT_SEC" if "10 \<le> length ts"
    using w that by (simp add: c)
qed

text \<open>C32: From any state of an address's entry in which a check opens a window (the first one, or after
  the previous window or lockout ended): of the login attempts within the 60 seconds of the window exactly the first ten pass.
  With at most ten, the next attempt after those 60 seconds opens a new window with ten more.  The
  eleventh locks the address out: every attempt less than 300 seconds after it is refused, and the
  first one from then on opens a new window with ten more.  (So more than ten can pass within a minute, across two windows.)\<close>

theorem login_rate_ten_per_window:
  assumes "opens_window t0 en" and "\<forall>t \<in> set ts. t0 \<le> t \<and> t \<le> t0 + LOGIN_RATE_WINDOW"
    and "\<forall>t \<in> set vs. t1 \<le> t \<and> t \<le> t1 + LOGIN_RATE_WINDOW"
  shows "rate_run en (t0 # ts) = window_answers (length (t0 # ts)) \<and>
     (length ts < 10 \<and> t0 + LOGIN_RATE_WINDOW < t1 \<longrightarrow>
        rate_run en ((t0 # ts) @ t1 # vs) = window_answers (length (t0 # ts)) @ window_answers (length (t1 # vs))) \<and>
     (10 \<le> length ts \<and> (\<forall>t \<in> set us. t < ts ! 9 + LOGIN_LOCKOUT_SEC) \<and> ts ! 9 + LOGIN_LOCKOUT_SEC \<le> t1 \<longrightarrow>
        rate_run en ((t0 # ts) @ us @ t1 # vs) =
          window_answers (length (t0 # ts)) @ replicate (length us) (-1) @ window_answers (length (t1 # vs)))"
proof (intro conjI impI, goal_cases)
  case 1
  show ?case by (rule rate_open(1) [OF assms(1,2)])
next
  case 2
  then have "opens_window t1 (rate_after en (t0 # ts))" by (intro rate_open(2) [OF assms(1,2)]) simp_all
  from rate_open(1) [OF this assms(3)] show ?case
    unfolding rate_run_append rate_open(1) [OF assms(1,2)] by simp
next
  case 3
  let ?en = "rate_after en (t0 # ts)"
  have l: "lockout_until ?en = ts ! 9 + LOGIN_LOCKOUT_SEC" using 3 by (intro rate_open(3) [OF assms(1,2)]) simp
  have "t0 \<le> ts ! 9" using 3 assms(2) by simp
  then have pos: "0 < lockout_until ?en" using assms(1) l by (simp add: opens_window_def)
  note us = rate_locked [OF pos, of us, unfolded l]
  have "opens_window t1 ?en" using 3 l pos by (simp add: opens_window_def)
  from rate_open(1) [OF this assms(3)] us 3 show ?case
    unfolding rate_run_append rate_open(1) [OF assms(1,2)] by simp
qed

text \<open>Twelve attempts at once, two during the lockout, one when it ends.\<close>

theorem login_rate_ten_per_window_witness:
  "rate_run (new_login_rate ''10.0.0.1'') (replicate 12 1000 @ [1061, 1299] @ [1300]) =
     replicate 10 0 @ replicate 2 (-1) @ replicate 2 (-1) @ [0]"
proof -
  have "opens_window 1000 (new_login_rate ''10.0.0.1'')" by (simp add: opens_window_def new_login_rate_def)
  from login_rate_ten_per_window [OF this, of "replicate 11 1000" "[]" 1300 "[1061, 1299]"]
  show ?thesis by (simp add: window_answers_def numeral_eq_Suc)
qed

end
