(* ===== verification/Session.thy ===== *)
theory Session
  imports Db
begin

text \<open>
  The session module (\<open>src/session.c\<close>): the wrappers around the session functions of \<open>db.c\<close> and
  the listing of a user's sessions through its own handle.
\<close>

datatype session_err = SESSION_OK | SESSION_ERR_NOT_FOUND | SESSION_ERR_EXPIRED | SESSION_ERR_DB
  | SESSION_ERR_LIMIT | SESSION_ERR_INVALID

record session_info =
  si_token :: string
  si_username :: string
  si_conn_fd :: int
  si_created_at :: int
  si_expires_at :: int

abbreviation MAX_SESSIONS_PER_USER :: int where "MAX_SESSIONS_PER_USER \<equiv> 16"

definition ensure_session_db :: "env \<Rightarrow> store \<Rightarrow> int \<times> store" where
  "ensure_session_db e db =
     (if session_handle db then (0, db)
      else if env_open e Session_db = Open_fails then (-1, db\<lparr>session_handle := True\<rparr>)
      else (0, db\<lparr>session_handle := True\<rparr>))"

text \<open>\<open>None\<close>: \<open>db_create_session\<close> does not return.\<close>

definition session_create ::
  "env \<Rightarrow> store \<Rightarrow> nat \<Rightarrow> string \<Rightarrow> nat \<Rightarrow> (session_err \<times> string option \<times> store) option" where
  "session_create e db n username out_size =
     (if out_size < 65 then Some (SESSION_ERR_INVALID, None, db)
      else map_option (\<lambda>(tok, db'). (if tok \<noteq> None then SESSION_OK else SESSION_ERR_DB, tok, db'))
        (db_create_session e db n username out_size))"

definition session_refresh :: "env \<Rightarrow> store \<Rightarrow> string \<Rightarrow> session_err \<times> store" where
  "session_refresh e db tok =
     (let (rc, _, db') = db_validate_session e db tok 32 in
      (if rc = 0 then SESSION_OK
       else if rc = -1 then SESSION_ERR_NOT_FOUND
       else if rc = -2 then SESSION_ERR_EXPIRED
       else SESSION_ERR_DB, db'))"

definition session_validate ::
  "env \<Rightarrow> store \<Rightarrow> string \<Rightarrow> nat \<Rightarrow> bool \<Rightarrow> session_err \<times> string option \<times> store" where
  "session_validate e db tok username_size refresh =
     (if username_size = 0 then (SESSION_ERR_INVALID, None, db)
      else let (rc, who, db') = db_validate_session e db tok username_size in
        if rc = 0 then (SESSION_OK, who, if refresh then snd (session_refresh e db' tok) else db')
        else if rc = -1 then (SESSION_ERR_NOT_FOUND, who, db')
        else if rc = -2 then (SESSION_ERR_EXPIRED, who, db')
        else (SESSION_ERR_DB, who, db'))"

definition session_revoke :: "env \<Rightarrow> store \<Rightarrow> string \<Rightarrow> session_err \<times> store" where
  "session_revoke e db tok =
     (let (rc, db') = db_delete_session e db tok in
      (if rc = 0 then SESSION_OK else SESSION_ERR_DB, db'))"

definition session_revoke_all :: "env \<Rightarrow> store \<Rightarrow> string \<Rightarrow> int \<times> store" where
  "session_revoke_all e db username = db_cleanup_expired_sessions e db"

definition session_cleanup_expired :: "env \<Rightarrow> store \<Rightarrow> int \<times> store" where
  "session_cleanup_expired e db = db_cleanup_expired_sessions e db"

text \<open>\<open>WHERE username = ? AND expires_at > now ORDER BY created_at DESC LIMIT ?\<close>\<close>

definition session_list_for_user :: "env \<Rightarrow> store \<Rightarrow> string \<Rightarrow> int \<Rightarrow> session_info list \<times> store" where
  "session_list_for_user e db username max_out =
     (if max_out \<le> 0 then ([], db)
      else let (rc, db1) = ensure_session_db e db in
        if rc \<noteq> 0 then ([], db1)
        else (map (\<lambda>(tok, r). \<lparr>si_token = strncpy_term 65 tok, si_username = strncpy_term 32 (ses_username r),
                 si_conn_fd = -1, si_created_at = ses_created_at r, si_expires_at = ses_expires_at r\<rparr>)
               (delivered (env_sql e Select_user_sessions) (take (nat max_out)
                 (sort_key (\<lambda>(tok, r). - ses_created_at r)
                   (filter (\<lambda>(tok, r). ses_username r = username \<and> ses_expires_at r > env_now e)
                     (env_scan_sessions e (sessions db1)))))), db1))"

text \<open>\<open>session_find_by_fd\<close> and \<open>session_associate_fd\<close> are place holders in the source.\<close>

definition session_find_by_fd :: "int \<Rightarrow> int" where
  "session_find_by_fd f = 0"

definition session_associate_fd :: "string option \<Rightarrow> int \<Rightarrow> session_err" where
  "session_associate_fd tok f = (if tok = None then SESSION_ERR_INVALID else SESSION_OK)"

lemma store_inv_revoke: "store_inv db \<Longrightarrow> store_inv (snd (session_revoke e db tok))"
  using store_inv_delete_session [of db e tok] by (simp add: session_revoke_def split_beta)

lemma store_inv_revoke_all: "store_inv db \<Longrightarrow> store_inv (snd (session_revoke_all e db u))"
  by (simp add: session_revoke_all_def store_inv_cleanup)

lemma store_inv_list: "store_inv db \<Longrightarrow> store_inv (snd (session_list_for_user e db u k))"
  by (simp add: session_list_for_user_def ensure_session_db_def store_inv_def split_beta)

text \<open>C34: \<open>LOGOUT_ALL\<close> does not log the user out elsewhere: \<open>session_revoke_all\<close> removes only sessions
  that are expired anyway, whoever they belong to; every session that was still valid stays valid,
  those of the user included.\<close>

theorem revoke_all_keeps_valid_sessions:
  assumes "store_inv db" and "map_of (sessions db) tok = Some r" and "env_now e \<le> ses_expires_at r"
  shows "map_of (sessions (snd (session_revoke_all e db u))) tok = Some r"
proof -
  have d: "distinct (map fst (sessions db))" using store_inv_tables(2) [OF assms(1)] by (simp add: table_inv_def)
  have "(tok, r) \<in> set (filter (\<lambda>r. \<not> ses_expires_at (snd r) < env_now e) (sessions db))"
    using assms(2,3) by (auto dest: map_of_SomeD)
  then have "map_of (filter (\<lambda>r. \<not> ses_expires_at (snd r) < env_now e) (sessions db)) tok = Some r"
    by (intro map_of_is_SomeI distinct_map_filter d)
  with assms(2) show ?thesis
    by (simp add: session_revoke_all_def db_cleanup_expired_sessions_def)
qed

theorem revoke_all_keeps_valid_sessions_witness:
  "let r = \<lparr>ses_username = ''ann'', ses_created_at = 900, ses_expires_at = 87300\<rparr>;
       db = empty_store\<lparr>sessions := [(''t1'', r)]\<rparr> in
   map_of (sessions (snd (session_revoke_all (sample_env 1 2) db ''ann''))) ''t1'' = Some r"
  using revoke_all_keeps_valid_sessions [of
      "empty_store\<lparr>sessions := [(''t1'', \<lparr>ses_username = ''ann'', ses_created_at = 900, ses_expires_at = 87300\<rparr>)]\<rparr>"
      "''t1''" _ "sample_env 1 2" "''ann''"]
  by (simp add: Let_def store_inv_def empty_store_def table_inv_def)

text \<open>C33: Revoking a session ends it: with a working engine the token is refused afterwards, all other
  tokens are untouched, and the answer is the same whether the token existed or not (so "session not
  found" is never reported).\<close>

theorem revoke_ends_session:
  assumes "db_handle db" and "sql_works e Delete_session" and "sql_works e' Select_session"
  shows "fst (session_revoke e db tok) = SESSION_OK \<and>
     fst (db_validate_session e' (snd (session_revoke e db tok)) tok 32) = -1 \<and>
     (\<forall>other. other \<noteq> tok \<longrightarrow>
        map_of (sessions (snd (session_revoke e db tok))) other = map_of (sessions db) other)"
  using assms
  by (simp add: session_revoke_def db_delete_session_def db_validate_session_def sql_works_def)

theorem revoke_ends_session_witness:
  "fst (session_revoke (sample_env 1 2) empty_store ''nosuch'') = SESSION_OK"
  using revoke_ends_session [of empty_store "sample_env 1 2" "sample_env 1 2" "''nosuch''"]
  by (simp add: empty_store_def)

lemma session_list_rows:
  "\<exists>oc. fst (session_list_for_user e db u k) = [] \<or> fst (session_list_for_user e db u k) =
     map (\<lambda>(tok, r). \<lparr>si_token = strncpy_term 65 tok, si_username = strncpy_term 32 (ses_username r),
                 si_conn_fd = -1, si_created_at = ses_created_at r, si_expires_at = ses_expires_at r\<rparr>)
       (delivered oc (take (nat k) (sort_key (\<lambda>(tok, r). - ses_created_at r)
          (filter (\<lambda>(tok, r). ses_username r = u \<and> ses_expires_at r > env_now e)
            (env_scan_sessions e (sessions db))))))"
  by (auto simp: session_list_for_user_def ensure_session_db_def)

text \<open>C35: Listing a user's sessions shows only unexpired sessions of exactly that user, at most as many
  as asked for, under their real tokens (the engine may deliver rows in any order and may stop
  early).\<close>

theorem session_list_sound:
  assumes "\<forall>xs. set (env_scan_sessions e xs) \<subseteq> set xs" and "\<forall>x \<in> set (sessions db). length (fst x) < 65"
  shows "length (fst (session_list_for_user e db u k)) \<le> nat k \<and>
     (\<forall>s \<in> set (fst (session_list_for_user e db u k)).
        \<exists>x. (si_token s, x) \<in> set (sessions db) \<and> ses_username x = u \<and> env_now e < ses_expires_at x)"
proof -
  let ?rows = "take (nat k) (sort_key (\<lambda>(tok, r). - ses_created_at r)
      (filter (\<lambda>(tok, r). ses_username r = u \<and> ses_expires_at r > env_now e) (env_scan_sessions e (sessions db))))"
  obtain oc where l: "fst (session_list_for_user e db u k) = [] \<or> fst (session_list_for_user e db u k) =
     map (\<lambda>(tok, r). \<lparr>si_token = strncpy_term 65 tok, si_username = strncpy_term 32 (ses_username r),
       si_conn_fd = -1, si_created_at = ses_created_at r, si_expires_at = ses_expires_at r\<rparr>) (delivered oc ?rows)"
    using session_list_rows by blast
  have "length (delivered oc ?rows) \<le> nat k" using length_delivered [of oc ?rows] by simp
  with l have len: "length (fst (session_list_for_user e db u k)) \<le> nat k" by (elim disjE) simp_all
  have row: "x \<in> set (sessions db) \<and> ses_username (snd x) = u \<and> env_now e < ses_expires_at (snd x)"
    if "x \<in> set (delivered oc ?rows)" for x
  proof -
    from that have "x \<in> set ?rows" using set_delivered [of oc ?rows] by auto
    from in_set_takeD [OF this] show ?thesis using assms(1) by auto
  qed
  have "\<exists>x. (si_token s, x) \<in> set (sessions db) \<and> ses_username x = u \<and> env_now e < ses_expires_at x"
    if s: "s \<in> set (fst (session_list_for_user e db u k))" for s
  proof -
    from l s obtain y where y: "y \<in> set (delivered oc ?rows)" "si_token s = strncpy_term 65 (fst y)"
      by (auto simp: split_beta)
    with row [OF y(1)] assms(2) show ?thesis by (intro exI [of _ "snd y"]) simp
  qed
  with len show ?thesis by (intro conjI ballI)
qed

theorem session_list_sound_witness:
  "let db = empty_store\<lparr>sessions := [(''t1'', \<lparr>ses_username = ''ann'', ses_created_at = 900, ses_expires_at = 87300\<rparr>),
         (''t2'', \<lparr>ses_username = ''bob'', ses_created_at = 900, ses_expires_at = 87300\<rparr>)]\<rparr> in
   length (fst (session_list_for_user (sample_env 1 2) db ''ann'' 16)) \<le> 16"
  using session_list_sound [of "sample_env 1 2"
      "empty_store\<lparr>sessions := [(''t1'', \<lparr>ses_username = ''ann'', ses_created_at = 900, ses_expires_at = 87300\<rparr>),
         (''t2'', \<lparr>ses_username = ''bob'', ses_created_at = 900, ses_expires_at = 87300\<rparr>)]\<rparr>" "''ann''" 16]
  by (simp add: sample_env_def Let_def)

end
