(* ===== verification/Metrics.thy ===== *)
theory Metrics
  imports Protocol Environment
begin

text \<open>
  The counters of \<open>src/metrics.c\<close>: atomic 64 bit integers, which wrap around, and the text that
  reports them.
\<close>

record metrics =
  total_connections :: "64 word"
  active_connections :: "64 word"
  total_messages :: "64 word"
  total_pm :: "64 word"
  total_rooms_created :: "64 word"
  total_logins :: "64 word"
  total_failed_logins :: "64 word"
  total_reconnects :: "64 word"
  total_kicks :: "64 word"
  total_bans :: "64 word"
  uptime_start :: "64 word"

definition metrics_init :: "env \<Rightarrow> metrics" where
  "metrics_init e = \<lparr>total_connections = 0, active_connections = 0, total_messages = 0, total_pm = 0,
     total_rooms_created = 0, total_logins = 0, total_failed_logins = 0, total_reconnects = 0,
     total_kicks = 0, total_bans = 0, uptime_start = word_of_int (env_now e)\<rparr>"

definition metrics_increment_connections :: "metrics \<Rightarrow> metrics" where
  "metrics_increment_connections m = m\<lparr>total_connections := total_connections m + 1,
     active_connections := active_connections m + 1\<rparr>"

definition metrics_decrement_connections :: "metrics \<Rightarrow> metrics" where
  "metrics_decrement_connections m = m\<lparr>active_connections := active_connections m - 1\<rparr>"

definition metrics_increment_messages :: "metrics \<Rightarrow> metrics" where
  "metrics_increment_messages m = m\<lparr>total_messages := total_messages m + 1\<rparr>"

definition metrics_increment_pm :: "metrics \<Rightarrow> metrics" where
  "metrics_increment_pm m = m\<lparr>total_pm := total_pm m + 1\<rparr>"

definition metrics_increment_rooms :: "metrics \<Rightarrow> metrics" where
  "metrics_increment_rooms m = m\<lparr>total_rooms_created := total_rooms_created m + 1\<rparr>"

definition metrics_increment_logins :: "metrics \<Rightarrow> metrics" where
  "metrics_increment_logins m = m\<lparr>total_logins := total_logins m + 1\<rparr>"

definition metrics_increment_failed_logins :: "metrics \<Rightarrow> metrics" where
  "metrics_increment_failed_logins m = m\<lparr>total_failed_logins := total_failed_logins m + 1\<rparr>"

definition metrics_increment_reconnects :: "metrics \<Rightarrow> metrics" where
  "metrics_increment_reconnects m = m\<lparr>total_reconnects := total_reconnects m + 1\<rparr>"

definition metrics_increment_kicks :: "metrics \<Rightarrow> metrics" where
  "metrics_increment_kicks m = m\<lparr>total_kicks := total_kicks m + 1\<rparr>"

definition metrics_increment_bans :: "metrics \<Rightarrow> metrics" where
  "metrics_increment_bans m = m\<lparr>total_bans := total_bans m + 1\<rparr>"

text \<open>\<open>%lld\<close> of a counter.\<close>

definition show_counter :: "64 word \<Rightarrow> string" where
  "show_counter w = show_int (sint w)"

text \<open>One metric: its help line, its type line and its value line.\<close>

definition metric_lines :: "string \<Rightarrow> string \<Rightarrow> string \<Rightarrow> string \<Rightarrow> string list" where
  "metric_lines nm help ty v =
     [''# HELP '' @ nm @ '' '' @ help @ [NL], ''# TYPE '' @ nm @ '' '' @ ty @ [NL], nm @ '' '' @ v @ [NL]]"

definition prometheus_lines :: "env \<Rightarrow> metrics \<Rightarrow> string list" where
  "prometheus_lines e m =
     metric_lines ''chat_connections_total'' ''Total connections accepted'' ''counter'' (show_counter (total_connections m)) @
     metric_lines ''chat_active_connections'' ''Currently active connections'' ''gauge'' (show_counter (active_connections m)) @
     metric_lines ''chat_messages_total'' ''Total messages sent'' ''counter'' (show_counter (total_messages m)) @
     metric_lines ''chat_pm_total'' ''Total private messages sent'' ''counter'' (show_counter (total_pm m)) @
     metric_lines ''chat_rooms_total'' ''Total rooms created'' ''counter'' (show_counter (total_rooms_created m)) @
     metric_lines ''chat_logins_total'' ''Total logins'' ''counter'' (show_counter (total_logins m)) @
     metric_lines ''chat_failed_logins_total'' ''Total failed logins'' ''counter'' (show_counter (total_failed_logins m)) @
     metric_lines ''chat_uptime_seconds'' ''Server uptime'' ''gauge''
       (show_counter (word_of_int (env_now e) - uptime_start m))"

definition metrics_format_prometheus :: "env \<Rightarrow> metrics \<Rightarrow> nat \<Rightarrow> memory_error + sbuf" where
  "metrics_format_prometheus e m out_size = sn_appends out_size ([], 0) (prometheus_lines e m)"

text \<open>C39: The metrics report is the complete text whenever it fits the buffer, and the formatter writes
  behind the buffer exactly when what precedes its last line is longer than the buffer: the remaining
  size is computed without a check.\<close>

theorem prometheus_complete_or_overflow:
  "(length (concat (prometheus_lines e m)) < n \<longrightarrow> metrics_format_prometheus e m n =
      Inr (concat (prometheus_lines e m), length (concat (prometheus_lines e m)))) \<and>
   (metrics_format_prometheus e m n = Inl Out_of_bounds \<longleftrightarrow> n < length (concat (butlast (prometheus_lines e m))))"
proof -
  have "prometheus_lines e m \<noteq> []" by (simp add: prometheus_lines_def metric_lines_def)
  then show ?thesis
    by (simp add: metrics_format_prometheus_def sn_appends_fits sn_appends_overflow)
qed

theorem prometheus_complete_or_overflow_witness:
  "metrics_format_prometheus (sample_env 1 2) (metrics_init (sample_env 1 2)) 16 = Inl Out_of_bounds"
  using prometheus_complete_or_overflow [of "sample_env 1 2" "metrics_init (sample_env 1 2)" 16]
  by (simp add: prometheus_lines_def metric_lines_def)

end
