(* ===== verification/Server_State.thy ===== *)
theory Server_State
  imports Registry Moderation Presence Session Metrics
begin

text \<open>
  The state the command handlers of \<open>src/client_handler.c\<close> work on: a connection
  (\<open>conn_t\<close> of \<open>include/conn.h\<close>), the state shared by all connections, the replies, the
  checks that precede a dereference and the token bucket (\<open>rate_limit_check\<close>).  A handler
  returns what it sends and the new shared state; \<open>safe_result\<close> is the contract every one of them
  fulfils, and the locale \<open>command\<close> what follows from it for a sequence of commands.
\<close>

section \<open>Connections and shared state\<close>

record conn =
  conn_fd :: fd
  conn_buf :: "char list"
  conn_me :: "addr option"
  conn_closing :: bool

abbreviation CONN_BUF_SIZE :: nat where "CONN_BUF_SIZE \<equiv> 4096"

record server =
  srv_reg :: registry
  srv_db :: store
  srv_typing :: "typing_state list"
  srv_metrics :: metrics

abbreviation set_reg :: "server \<Rightarrow> registry \<Rightarrow> server" where
  "set_reg s g \<equiv> s\<lparr>srv_reg := g\<rparr>"

abbreviation set_db :: "server \<Rightarrow> store \<Rightarrow> server" where
  "set_db s d \<equiv> s\<lparr>srv_db := d\<rparr>"

type_synonym response = "event list \<times> server"
type_synonym handler = "env \<Rightarrow> fd \<Rightarrow> addr \<Rightarrow> cmd \<Rightarrow> server \<Rightarrow> response"

section \<open>Replies\<close>

definition ok_reply :: "fd \<Rightarrow> string \<Rightarrow> event" where
  "ok_reply f code = Reply f (format_ok_reply MAX_LINE_LEN code)"

definition err_reply :: "fd \<Rightarrow> string \<Rightarrow> event" where
  "err_reply f code = Reply f (format_err_reply MAX_LINE_LEN code)"

definition ok :: "fd \<Rightarrow> string \<Rightarrow> server \<Rightarrow> response" where
  "ok f code s = ([ok_reply f code], s)"

definition err :: "fd \<Rightarrow> string \<Rightarrow> server \<Rightarrow> response" where
  "err f code s = ([err_reply f code], s)"

section \<open>Dereferencing\<close>

text \<open>
  A handler that follows a pointer to a client or a room stops with a \<open>Use_after_free\<close> when the object
  is gone: what the program would do then is not defined.
\<close>

definition with_client :: "string \<Rightarrow> server \<Rightarrow> addr \<Rightarrow> (client \<Rightarrow> response) \<Rightarrow> response" where
  "with_client site s ca k =
     (case client_heap (srv_reg s) ca of None \<Rightarrow> ([Use_after_free site], s) | Some c \<Rightarrow> k c)"

definition with_room :: "string \<Rightarrow> server \<Rightarrow> addr \<Rightarrow> (room \<Rightarrow> response) \<Rightarrow> response" where
  "with_room site s ra k =
     (case room_heap (srv_reg s) ra of None \<Rightarrow> ([Use_after_free site], s) | Some r \<Rightarrow> k r)"

text \<open>\<open>if (me->current_room == NULL) { ... ERR_NOT_IN_ROOM ... break; }\<close>\<close>

definition in_room :: "string \<Rightarrow> fd \<Rightarrow> addr \<Rightarrow> server \<Rightarrow> (client \<Rightarrow> addr \<Rightarrow> response) \<Rightarrow> response" where
  "in_room site f ca s k = with_client site s ca (\<lambda>c.
     case current_room c of None \<Rightarrow> err f ''NOT_IN_ROOM'' s | Some ra \<Rightarrow> k c ra)"

text \<open>The argument of a command, or the given error.\<close>

definition with_arg :: "fd \<Rightarrow> string \<Rightarrow> server \<Rightarrow> string option \<Rightarrow> (string \<Rightarrow> response) \<Rightarrow> response" where
  "with_arg f code s a k = (case a of None \<Rightarrow> err f code s | Some t \<Rightarrow> k t)"

text \<open>The name of a room handed to the log after the room may have been freed.\<close>

definition log_room :: "string \<Rightarrow> registry \<Rightarrow> addr \<Rightarrow> event list" where
  "log_room site g ra = (if room_heap g ra = None then [Log_freed site] else [])"

section \<open>The token bucket\<close>

text \<open>
  \<open>double\<close> arithmetic: each operation is exact and then rounded by \<open>env_round\<close>.  The differences of the
  clock fields are integers, \<open>1e9\<close> and the small constants are exact doubles.
\<close>

definition elapsed_since :: "env \<Rightarrow> int \<times> int \<Rightarrow> rat" where
  "elapsed_since e t0 =
     (let rnd = env_round e; (s1, n1) = env_mono e; (s0, n0) = t0 in
      rnd (rnd (of_int (s1 - s0)) + rnd (of_int (n1 - n0) / 1000000000)))"

definition rate_limit_check :: "env \<Rightarrow> client \<Rightarrow> bool \<times> client" where
  "rate_limit_check e c =
     (let rnd = env_round e;
          filled = rnd (tokens c + rnd (elapsed_since e (last_refill c) * 1));
          tok = (if filled > RATE_BUCKET_MAX then RATE_BUCKET_MAX else filled);
          c1 = c\<lparr>tokens := tok, last_refill := env_mono e\<rparr> in
      if tok < RATE_MSG_COST then (False, c1)
      else (True, c1\<lparr>tokens := rnd (tok - RATE_MSG_COST)\<rparr>))"

text \<open>The check applied to the client at an address, the way the handlers do it.\<close>

definition spend_token :: "env \<Rightarrow> server \<Rightarrow> addr \<Rightarrow> client \<Rightarrow> bool \<times> server" where
  "spend_token e s ca c =
     (fst (rate_limit_check e c), set_reg s (update_client (srv_reg s) ca (\<lambda>c. snd (rate_limit_check e c))))"

section \<open>The contract of a handler\<close>

definition server_inv :: "server \<Rightarrow> bool" where
  "server_inv s \<longleftrightarrow> registry_inv (srv_reg s) \<and> store_inv (srv_db s) \<and> typing_inv (srv_typing s)"

definition no_uaf :: "event list \<Rightarrow> bool" where
  "no_uaf evs \<longleftrightarrow> (\<forall>site. Use_after_free site \<notin> set evs)"

definition safe_result :: "server \<Rightarrow> response \<Rightarrow> bool" where
  "safe_result s r \<longleftrightarrow> server_inv (snd r) \<and> idents (srv_reg (snd r)) = idents (srv_reg s) \<and> no_uaf (fst r)"

lemma server_invD:
  assumes "server_inv s"
  shows "registry_inv (srv_reg s)" and "store_inv (srv_db s)" and "typing_inv (srv_typing s)"
  using assms by (simp_all add: server_inv_def)

lemma server_inv_parts [simp]:
  "server_inv s \<Longrightarrow> server_inv (set_reg s g) \<longleftrightarrow> registry_inv g"
  "server_inv s \<Longrightarrow> server_inv (set_db s d) \<longleftrightarrow> store_inv d"
  "server_inv s \<Longrightarrow> server_inv (s\<lparr>srv_typing := t\<rparr>) \<longleftrightarrow> typing_inv t"
  "server_inv (s\<lparr>srv_metrics := m\<rparr>) \<longleftrightarrow> server_inv s"
  by (simp_all add: server_inv_def)

lemma no_uaf_simps [simp]:
  "no_uaf []" "no_uaf (xs @ ys) \<longleftrightarrow> no_uaf xs \<and> no_uaf ys"
  "no_uaf (Send f t # xs) \<longleftrightarrow> no_uaf xs" "no_uaf (Reply f t # xs) \<longleftrightarrow> no_uaf xs"
  "no_uaf (ok_reply f t # xs) \<longleftrightarrow> no_uaf xs" "no_uaf (err_reply f t # xs) \<longleftrightarrow> no_uaf xs"
  "no_uaf (Log_freed t # xs) \<longleftrightarrow> no_uaf xs" "no_uaf (Close f # xs) \<longleftrightarrow> no_uaf xs"
  "no_uaf (Overflow t # xs) \<longleftrightarrow> no_uaf xs" "\<not> no_uaf (Use_after_free t # xs)"
  by (auto simp: no_uaf_def ok_reply_def err_reply_def)

lemma no_uaf_map_Send [simp]: "no_uaf (map (\<lambda>x. Send (h x) (t x)) xs)" "no_uaf (map (\<lambda>x. Reply (h x) (t x)) xs)"
  by (auto simp: no_uaf_def)

lemma no_uaf_broadcast [simp]: "no_uaf (room_broadcast e g rp msg x)"
  by (simp add: room_broadcast_def split: option.split)

lemma no_uaf_send_history [simp]: "no_uaf (room_send_history g rp f)"
  by (simp add: room_send_history_def split: option.split)

lemma no_uaf_log_room [simp]: "no_uaf (log_room site g ra)"
  by (simp add: log_room_def)

lemma safe_pair [simp]:
  "safe_result s (evs, s') \<longleftrightarrow> server_inv s' \<and> idents (srv_reg s') = idents (srv_reg s) \<and> no_uaf evs"
  by (simp add: safe_result_def)

lemma safe_err [simp]: "safe_result s (err f code s') \<longleftrightarrow> server_inv s' \<and> idents (srv_reg s') = idents (srv_reg s)"
  by (simp add: safe_result_def err_def)

lemma safe_ok [simp]: "safe_result s (ok f code s') \<longleftrightarrow> server_inv s' \<and> idents (srv_reg s') = idents (srv_reg s)"
  by (simp add: safe_result_def ok_def)

lemma safe_with_client:
  assumes "client_heap (srv_reg s) ca \<noteq> None" and "\<And>c. client_heap (srv_reg s) ca = Some c \<Longrightarrow> safe_result s0 (k c)"
  shows "safe_result s0 (with_client site s ca k)"
  using assms by (auto simp: with_client_def)

lemma safe_with_room:
  assumes "room_heap (srv_reg s) ra \<noteq> None" and "\<And>r. room_heap (srv_reg s) ra = Some r \<Longrightarrow> safe_result s0 (k r)"
  shows "safe_result s0 (with_room site s ra k)"
  using assms by (auto simp: with_room_def)

lemma safe_with_arg:
  assumes "server_inv s" and "idents (srv_reg s) = idents (srv_reg s0)"
    and "\<And>t. a = Some t \<Longrightarrow> safe_result s0 (k t)"
  shows "safe_result s0 (with_arg f code s a k)"
  using assms by (auto simp: with_arg_def split: option.split)

lemma safe_in_room:
  assumes "server_inv s" and "client_heap (srv_reg s) ca \<noteq> None"
    and "\<And>c ra r. client_heap (srv_reg s) ca = Some c \<Longrightarrow> current_room c = Some ra \<Longrightarrow>
           room_heap (srv_reg s) ra = Some r \<Longrightarrow> safe_result s (k c ra)"
  shows "safe_result s (in_room site f ca s k)"
  unfolding in_room_def
proof (rule safe_with_client [OF assms(2)])
  fix c assume c: "client_heap (srv_reg s) ca = Some c"
  show "safe_result s (case current_room c of None \<Rightarrow> err f ''NOT_IN_ROOM'' s | Some ra \<Rightarrow> k c ra)"
    using assms(1) assms(3) [OF c] current_room_live [OF server_invD(1) [OF assms(1)] c]
    by (cases "current_room c") auto
qed

lemma inv_spend_token:
  assumes "server_inv s" and "spend_token e s ca c = (b, s')"
  shows "server_inv s'" and "idents (srv_reg s') = idents (srv_reg s)"
    and "room_heap (srv_reg s') = room_heap (srv_reg s)" and "srv_db s' = srv_db s"
    and "b = fst (rate_limit_check e c)"
proof -
  have s': "s' = set_reg s (update_client (srv_reg s) ca (\<lambda>c. snd (rate_limit_check e c)))"
    and "b = fst (rate_limit_check e c)"
    using assms(2) by (auto simp: spend_token_def)
  have "registry_inv (update_client (srv_reg s) ca (\<lambda>c. snd (rate_limit_check e c)))"
    by (rule inv_update_client [OF server_invD(1) [OF assms(1)]]) (simp_all add: rate_limit_check_def Let_def)
  then show "server_inv s'" "idents (srv_reg s') = idents (srv_reg s)"
    "room_heap (srv_reg s') = room_heap (srv_reg s)" "srv_db s' = srv_db s" "b = fst (rate_limit_check e c)"
    using assms(1) \<open>b = _\<close> by (simp_all add: s' idents_update_client rate_limit_check_def Let_def)
qed

text \<open>
  The interface between the command dispatcher and a handler: called for a live client, in a state that
  satisfies the invariant, and when the handler's \<open>guard\<close> holds, it keeps the invariant, frees
  and creates no client and uses no freed object.
\<close>

locale command =
  fixes run :: handler
    and guard :: "addr \<Rightarrow> cmd \<Rightarrow> server \<Rightarrow> bool"
  assumes safe: "server_inv s \<Longrightarrow> fresh_blocks e (srv_reg s) \<Longrightarrow> client_heap (srv_reg s) ca \<noteq> None \<Longrightarrow>
    guard ca c s \<Longrightarrow> safe_result s (run e f ca c s)"
begin

lemma inv: "server_inv s \<Longrightarrow> fresh_blocks e (srv_reg s) \<Longrightarrow> client_heap (srv_reg s) ca \<noteq> None \<Longrightarrow>
    guard ca c s \<Longrightarrow> server_inv (snd (run e f ca c s))"
  using safe by (simp add: safe_result_def)

text \<open>Every client that was connected still is, under its name and with its descriptor.\<close>

lemma keeps_clients:
  assumes "server_inv s" "fresh_blocks e (srv_reg s)" "client_heap (srv_reg s) ca \<noteq> None" "guard ca c s"
    and "client_heap (srv_reg s) cb = Some d"
  shows "\<exists>d'. client_heap (srv_reg (snd (run e f ca c s))) cb = Some d' \<and>
     socket_fd d' = socket_fd d \<and> client_name d' = client_name d"
proof -
  have "idents (srv_reg (snd (run e f ca c s))) cb = idents (srv_reg s) cb"
    using safe [OF assms(1-4), of f] by (simp add: safe_result_def)
  with assms(5) show ?thesis by (auto simp: idents_def)
qed

end

end
