(* ===== verification/Room_Commands.thy ===== *)
theory Room_Commands
  imports Server_State
begin

text \<open>
  The commands on rooms and presence of \<open>process_line\<close>: \<open>CREATE\<close>, \<open>JOIN\<close>, \<open>LEAVE\<close>, \<open>KICK\<close>,
  \<open>PROMOTE\<close>, \<open>ROOMS\<close>, \<open>WHO\<close>, \<open>STATUS\<close>, \<open>TYPING\<close> and \<open>STOP_TYPING\<close>, one definition per
  case of the switch, and the proof that each fulfils the contract of a handler.
\<close>

section \<open>Creating, joining and leaving\<close>

text \<open>The reply for each result of \<open>create_room\<close> and of \<open>room_add_member\<close>.\<close>

fun create_room_code :: "room_err \<Rightarrow> string" where
  "create_room_code ROOM_ERR_ALREADY_EXISTS = ''ROOM_ALREADY_EXISTS''"
| "create_room_code ROOM_ERR_INVALID_CLIENT = ''INVALID_CLIENT''"
| "create_room_code ROOM_ERR_INVALID_NAME = ''INVALID_ROOM_NAME''"
| "create_room_code ROOM_ERR_MAX_ROOMS = ''MAX_ROOM_COUNT_REACHED''"
| "create_room_code _ = ''SERVER_ERROR''"

fun create_member_code :: "room_err \<Rightarrow> string" where
  "create_member_code ROOM_ERR_NULL = ''ROOM_NULL''"
| "create_member_code ROOM_ERR_INVALID_CLIENT = ''INVALID_CLIENT''"
| "create_member_code ROOM_ERR_MAX_MEMBERS = ''ROOM_MAX_MEMBERS_REACHED''"
| "create_member_code _ = ''SERVER_ERROR''"

definition handle_create :: handler where
  "handle_create e f ca c s =
     with_arg f ''INVALID_ROOM_NAME'' s (arg1 c) (\<lambda>nm.
       let (p, rc, g1) = create_room e (srv_db s) (srv_reg s) nm (Some ca); s1 = set_reg s g1 in
       if rc = ROOM_OK then
         with_client ''CREATE'' s1 ca (\<lambda>_.
           let (rc2, g2) = room_add_member g1 p (Some ca) in
           if rc2 = ROOM_OK then ok f ''CREATED'' (set_reg s (set_room g2 ca p))
           else err f (create_member_code rc2) (set_reg s g2))
       else err f (create_room_code rc) s1)"

fun join_member_code :: "room_err \<Rightarrow> string" where
  "join_member_code ROOM_ERR_NULL = ''ROOM_NULL''"
| "join_member_code ROOM_ERR_INVALID_CLIENT = ''INVALID_CLIENT''"
| "join_member_code ROOM_ERR_MAX_MEMBERS = ''ROOM_MAX_MEMBERS_REACHED''"
| "join_member_code ROOM_ERR_ALREADY_IN_A_ROOM = ''ALREADY_IN_A_ROOM''"
| "join_member_code _ = ''SERVER_ERROR''"

fun find_room_code :: "room_err \<Rightarrow> string" where
  "find_room_code ROOM_ERR_NOT_FOUND = ''ROOM_NOT_FOUND''"
| "find_room_code ROOM_ERR_INVALID_NAME = ''INVALID_ROOM_NAME''"
| "find_room_code _ = ''SERVER_ERROR''"

fun leave_code :: "room_err \<Rightarrow> string" where
  "leave_code ROOM_ERR_NULL = ''ROOM_NULL''"
| "leave_code ROOM_ERR_INVALID_CLIENT = ''INVALID_CLIENT''"
| "leave_code ROOM_ERR_CLIENT_NOT_FOUND = ''NOT_IN_ROOM''"
| "leave_code _ = ''SERVER_ERROR''"

text \<open>What the new member is sent, and the notice to the others.\<close>

definition joined_events :: "env \<Rightarrow> registry \<Rightarrow> addr \<Rightarrow> room \<Rightarrow> client \<Rightarrow> fd \<Rightarrow> event list" where
  "joined_events e g ra r c f =
     ok_reply f ''JOINED'' # room_send_history g (Some ra) f @
     room_broadcast e g (Some ra) (format_notice MAX_LINE_LEN (client_name c) ''JOINED'' (room_name r)) f"

text \<open>\<open>JOIN\<close> from \<open>find_room\<close> on; \<open>evs\<close> is what was sent before.\<close>

definition join_found :: "env \<Rightarrow> fd \<Rightarrow> addr \<Rightarrow> client \<Rightarrow> string \<Rightarrow> event list \<Rightarrow> server \<Rightarrow> response" where
  "join_found e f ca c nm evs s =
     (case find_room (srv_reg s) nm of
        (Some ra, rc) \<Rightarrow>
          with_room ''JOIN'' s ra (\<lambda>r.
            let (rc2, g2) = room_add_member (srv_reg s) (Some ra) (Some ca) in
            if rc2 = ROOM_OK then
              (let g3 = set_room g2 ca (Some ra) in (evs @ joined_events e g3 ra r c f, set_reg s g3))
            else (evs @ [err_reply f (join_member_code rc2)], set_reg s g2))
      | (None, rc) \<Rightarrow> (evs @ [err_reply f (find_room_code rc)], s))"

definition handle_join :: handler where
  "handle_join e f ca c s =
     with_arg f ''INVALID_ROOM_NAME'' s (arg1 c) (\<lambda>nm.
       with_client ''JOIN'' s ca (\<lambda>me.
         case current_room me of
           None \<Rightarrow> join_found e f ca me nm [] s
         | Some ra \<Rightarrow>
             with_room ''JOIN'' s ra (\<lambda>_.
               let (rc, g1) = room_remove_member (srv_reg s) (Some ra) (Some ca) in
               if rc = ROOM_OK then join_found e f ca me nm [] (set_reg s (set_room g1 ca None))
               else join_found e f ca me nm [err_reply f (leave_code rc)] s)))"

definition handle_leave :: handler where
  "handle_leave e f ca c s =
     in_room ''LEAVE'' f ca s (\<lambda>me ra. with_room ''LEAVE'' s ra (\<lambda>r.
       let (rc, g1) = room_remove_member (srv_reg s) (Some ra) (Some ca) in
       if rc \<noteq> ROOM_OK then err f ''SERVER_ERROR'' s
       else
         let g2 = set_room g1 ca None;
             notice = format_notice MAX_LINE_LEN (client_name me) ''LEFT'' (room_name r);
             g3 = room_delete_if_empty g2 (Some ra) in
         (ok_reply f ''LEFT'' # room_broadcast e g2 (Some ra) notice f @ log_room ''LEAVE'' g3 ra,
          set_reg s g3)))"

section \<open>The administrator's commands\<close>

text \<open>\<open>KICK\<close> once the target is found.\<close>

definition kick_target :: "env \<Rightarrow> fd \<Rightarrow> server \<Rightarrow> addr \<Rightarrow> room \<Rightarrow> string \<Rightarrow> addr \<Rightarrow> client \<Rightarrow> response" where
  "kick_target e f s ra r target_name ta t =
     (if current_room t \<noteq> Some ra then err f ''USER_NOT_IN_ROOM'' s
      else
        let (rc, g1) = room_remove_member (srv_reg s) (Some ra) (Some ta) in
        if rc \<noteq> ROOM_OK then err f ''SERVER_ERROR'' s
        else
          let g2 = set_room g1 ta None;
              notice = format_notice MAX_LINE_LEN target_name ''KICKED'' (room_name r);
              g3 = room_delete_if_empty g2 (Some ra) in
          (Send (socket_fd t) (format_err_reply MAX_LINE_LEN ''KICKED'') #
             room_broadcast e g2 (Some ra) notice (socket_fd t) @
             [ok_reply f ''KICKED''] @ log_room ''KICK'' g3 ra,
           set_reg s g3))"

definition handle_kick :: handler where
  "handle_kick e f ca c s =
     in_room ''KICK'' f ca s (\<lambda>me ra. with_room ''KICK'' s ra (\<lambda>r.
       if admin_client r \<noteq> Some ca then err f ''NOT_ADMIN'' s
       else with_arg f ''INVALID_COMMAND'' s (arg1 c) (\<lambda>target_name.
         if target_name = client_name me then err f ''CANNOT_KICK_SELF'' s
         else case fst (find_client (srv_reg s) target_name) of
           None \<Rightarrow> err f ''UNKNOWN_USER'' s
         | Some ta \<Rightarrow> with_client ''KICK'' s ta (kick_target e f s ra r target_name ta))))"

definition promote_target :: "env \<Rightarrow> fd \<Rightarrow> server \<Rightarrow> addr \<Rightarrow> room \<Rightarrow> string \<Rightarrow> addr \<Rightarrow> client \<Rightarrow> response" where
  "promote_target e f s ra r target_name ta t =
     (if current_room t \<noteq> Some ra then err f ''USER_NOT_IN_ROOM'' s
      else
        let g1 = update_room (srv_reg s) ra (\<lambda>r. r\<lparr>admin_client := Some ta\<rparr>);
            notice = format_notice MAX_LINE_LEN target_name ''PROMOTED'' (room_name r) in
        (Send (socket_fd t) (format_ok_reply MAX_LINE_LEN ''PROMOTED'') #
           room_broadcast e g1 (Some ra) notice (-1),
         set_reg s g1))"

definition handle_promote :: handler where
  "handle_promote e f ca c s =
     in_room ''PROMOTE'' f ca s (\<lambda>me ra. with_room ''PROMOTE'' s ra (\<lambda>r.
       if admin_client r \<noteq> Some ca then err f ''NOT_ADMIN'' s
       else with_arg f ''INVALID_COMMAND'' s (arg1 c) (\<lambda>target_name.
         case fst (find_client (srv_reg s) target_name) of
           None \<Rightarrow> err f ''UNKNOWN_USER'' s
         | Some ta \<Rightarrow> with_client ''PROMOTE'' s ta (promote_target e f s ra r target_name ta))))"

section \<open>Listings\<close>

text \<open>\<open>offset\<close>, \<open>limit\<close> (-1: none) and the number of entries shown.\<close>

definition page_offset :: "string option \<Rightarrow> int \<Rightarrow> int" where
  "page_offset a tot = (case a of None \<Rightarrow> 0 | Some t \<Rightarrow> min tot (max 0 (atoi t)))"

definition page_limit :: "string option \<Rightarrow> int" where
  "page_limit a = (case a of None \<Rightarrow> -1 | Some t \<Rightarrow> min 1000 (max 0 (atoi t)))"

definition page_count :: "int \<Rightarrow> int \<Rightarrow> int \<Rightarrow> int" where
  "page_count limit tot offset =
     (let remaining = tot - offset in
      if limit < 0 then remaining else if limit < remaining then limit else remaining)"

text \<open>
  The listing into a buffer of 512 bytes: a paginated one starts with the numbers and stops 32 bytes
  before the end, the other one appends every entry; both close with a newline.
\<close>

definition paged_listing :: "string \<Rightarrow> int \<Rightarrow> int \<Rightarrow> int \<Rightarrow> string list \<Rightarrow> memory_error + sbuf" where
  "paged_listing kw tot offset count entries =
     (case sn_append MAX_LINE_LEN ([], 0)
         (kw @ '' '' @ show_int tot @ '' '' @ show_int offset @ '' '' @ show_int count) of
        Inl er \<Rightarrow> Inl er
      | Inr b \<Rightarrow>
          (case sn_appends_until MAX_LINE_LEN (MAX_LINE_LEN - 32) b entries of
             Inl er \<Rightarrow> Inl er
           | Inr b2 \<Rightarrow> sn_append MAX_LINE_LEN b2 [NL]))"

definition plain_listing :: "string \<Rightarrow> string list \<Rightarrow> memory_error + sbuf" where
  "plain_listing kw entries = sn_appends MAX_LINE_LEN ([], 0) (kw # entries @ [[NL]])"

definition listing_reply :: "string \<Rightarrow> fd \<Rightarrow> server \<Rightarrow> memory_error + sbuf \<Rightarrow> response" where
  "listing_reply site f s b = (case b of Inl _ \<Rightarrow> ([Overflow site], s) | Inr (t, _) \<Rightarrow> ([Reply f t], s))"

definition window :: "'a list \<Rightarrow> int \<Rightarrow> int \<Rightarrow> 'a list" where
  "window xs offset count = take (nat count) (drop (nat offset) xs)"

text \<open>The texts of the listed objects; \<open>None\<close> if one of them has been freed.\<close>

definition all_some :: "'a option list \<Rightarrow> 'a list option" where
  "all_some xs = (if None \<in> set xs then None else Some (map the xs))"

text \<open>
  The two forms of a listing of the first \<open>n\<close> entries of an array: with arguments the page, without
  them everything.
\<close>

definition list_objects ::
  "string \<Rightarrow> string \<Rightarrow> fd \<Rightarrow> cmd \<Rightarrow> server \<Rightarrow> ('p \<Rightarrow> string option) \<Rightarrow> nat \<Rightarrow> 'p list \<Rightarrow> response" where
  "list_objects site kw f c s entry n ps =
     (let tot = int n;
          offset = page_offset (arg1 c) tot;
          count = page_count (page_limit (arg2 c)) tot offset in
      if arg1 c \<noteq> None \<or> arg2 c \<noteq> None
      then case all_some (map entry (window ps offset count)) of
          None \<Rightarrow> ([Use_after_free site], s)
        | Some es \<Rightarrow> listing_reply site f s (paged_listing kw tot offset count es)
      else case all_some (map entry (take n ps)) of
          None \<Rightarrow> ([Use_after_free site], s)
        | Some es \<Rightarrow> listing_reply site f s (plain_listing kw es))"

definition room_entry :: "registry \<Rightarrow> addr option \<Rightarrow> string option" where
  "room_entry g p = map_option (\<lambda>nm. SP # nm) (room_name_at g p)"

definition handle_rooms :: handler where
  "handle_rooms e f ca c s =
     (let g = srv_reg s in list_objects ''ROOMS'' ''ROOMS_REPLY'' f c s (room_entry g) (room_count g) (room_list g))"

fun status_text :: "presence_status \<Rightarrow> string" where
  "status_text PRESENCE_AWAY = ''AWAY''"
| "status_text PRESENCE_BUSY = ''BUSY''"
| "status_text PRESENCE_ONLINE = ''ONLINE''"

definition who_entry :: "registry \<Rightarrow> room \<Rightarrow> addr option \<Rightarrow> string option" where
  "who_entry g r p =
     (case p of None \<Rightarrow> None | Some a \<Rightarrow>
        map_option (\<lambda>m. SP # (if admin_client r = Some a then ''*'' else '''') @ client_name m @ ''/'' @
          status_text (status m)) (client_heap g a))"

definition handle_who :: handler where
  "handle_who e f ca c s =
     in_room ''WHO'' f ca s (\<lambda>me ra. with_room ''WHO'' s ra (\<lambda>r.
       list_objects ''WHO'' ''WHO_REPLY'' f c s (who_entry (srv_reg s) r) (member_count r) (members r)))"

section \<open>Presence\<close>

definition parse_status :: "string \<Rightarrow> presence_status option" where
  "parse_status t =
     (if t = ''ONLINE'' then Some PRESENCE_ONLINE
      else if t = ''AWAY'' then Some PRESENCE_AWAY
      else if t = ''BUSY'' then Some PRESENCE_BUSY
      else None)"

definition handle_status :: handler where
  "handle_status e f ca c s =
     with_arg f ''INVALID_COMMAND'' s (arg1 c) (\<lambda>new_status. with_client ''STATUS'' s ca (\<lambda>me.
       case parse_status new_status of
         None \<Rightarrow> err f ''INVALID_STATUS'' s
       | Some st \<Rightarrow>
           let g1 = update_client (srv_reg s) ca (\<lambda>c. c\<lparr>status := st\<rparr>); s1 = set_reg s g1 in
           (case current_room me of
              None \<Rightarrow> ok f ''STATUS_SET'' s1
            | Some ra \<Rightarrow>
                if status me = st then ok f ''STATUS_SET'' s1
                else (ok_reply f ''STATUS_SET'' #
                  (case room_heap g1 ra of
                     None \<Rightarrow> [Use_after_free ''STATUS'']
                   | Some r \<Rightarrow> room_broadcast e g1 (Some ra)
                       (format_notice MAX_LINE_LEN (client_name me) new_status (room_name r)) f), s1))))"

definition handle_typing :: handler where
  "handle_typing e f ca c s =
     in_room ''TYPING'' f ca s (\<lambda>me ra.
       let (started, t1) = presence_typing_start e (srv_typing s) (client_name me); s1 = s\<lparr>srv_typing := t1\<rparr> in
       if started then with_room ''TYPING'' s1 ra (\<lambda>_.
         (room_broadcast e (srv_reg s) (Some ra)
            (snprintf_out MAX_LINE_LEN (''TYPING '' @ client_name me @ [NL])) f @ [ok_reply f ''SENT''], s1))
       else ok f ''SENT'' s1)"

definition handle_stop_typing :: handler where
  "handle_stop_typing e f ca c s =
     with_client ''STOP_TYPING'' s ca (\<lambda>me.
       let s1 = s\<lparr>srv_typing := presence_typing_stop (srv_typing s) (client_name me)\<rparr> in
       (case current_room me of
          None \<Rightarrow> ok f ''SENT'' s1
        | Some ra \<Rightarrow> with_room ''STOP_TYPING'' s1 ra (\<lambda>_.
            (room_broadcast e (srv_reg s) (Some ra)
               (snprintf_out MAX_LINE_LEN (''STOP_TYPING '' @ client_name me @ [NL])) f @
             [ok_reply f ''SENT''], s1))))"


section \<open>The contract\<close>

lemma client_heap_add_member [simp]: "client_heap (snd (room_add_member g rp cp)) = client_heap g"
  by (simp add: room_add_member_def split: option.split)

lemma client_heap_remove_member [simp]: "client_heap (snd (room_remove_member g rp cp)) = client_heap g"
  by (simp add: room_remove_member_def Let_def split: option.split)

lemma idents_add_member: "room_add_member g rp cp = (rc, g') \<Longrightarrow> idents g' = idents g"
  using client_heap_add_member [of g rp cp] by (intro idents_heap) simp

lemma add_member_cases:
  assumes "registry_inv g" and "room_add_member g rp (Some ca) = (rc, g')"
  obtains (ok) "rc = ROOM_OK" "registry_inv (set_room g' ca rp)" | (error) "rc \<noteq> ROOM_OK" "g' = g"
proof (cases "rc = ROOM_OK")
  case True
  with assms(2) have "room_add_member g rp (Some ca) = (ROOM_OK, g')" by simp
  from room_add_member_OK [OF this] obtain ra where "rp = Some ra" by blast
  with True assms show thesis by (intro ok) (simp_all add: inv_enter)
next
  case False
  then show thesis using room_add_member_err [of g rp "Some ca"] assms(2) by (intro error) simp_all
qed

lemma leave_room:
  assumes "server_inv s" and "client_heap (srv_reg s) ca = Some c" and "current_room c = Some ra"
  obtains g1 r where "room_remove_member (srv_reg s) (Some ra) (Some ca) = (ROOM_OK, g1)"
    "registry_inv (set_room g1 ca None)" "idents g1 = idents (srv_reg s)"
    "client_heap (set_room g1 ca None) ca = Some (c\<lparr>current_room := None\<rparr>)"
    "room_heap (srv_reg s) ra = Some r"
    "\<exists>r'. room_heap g1 = (room_heap (srv_reg s))(ra \<mapsto> r') \<and> member_count r' < member_capacity r'"
proof (rule inv_leave [OF server_invD(1) [OF assms(1)] assms(2,3)])
  fix g' r
  assume g': "room_remove_member (srv_reg s) (Some ra) (Some ca) = (ROOM_OK, g')"
    "room_heap (srv_reg s) ra = Some r" "registry_inv (set_room g' ca None)"
    "client_heap g' = client_heap (srv_reg s)"
    and r': "\<exists>r'. room_heap g' = (room_heap (srv_reg s))(ra \<mapsto> r') \<and> room_name r' = room_name r \<and>
       admin_client r' = admin_client r \<and> history r' = history r \<and> member_count r' = member_count r - 1 \<and>
       member_capacity r' = member_capacity r \<and> 0 < member_count r"
  have "member_count r \<le> member_capacity r"
    using registry_invD(3) [OF server_invD(1) [OF assms(1)] g'(2)] by (simp add: room_ok_def counted_def)
  with r' have "\<exists>r'. room_heap g' = (room_heap (srv_reg s))(ra \<mapsto> r') \<and> member_count r' < member_capacity r'"
    by (metis diff_less less_le_trans zero_less_one)
  with g' show thesis
    using assms(2) idents_heap [OF g'(4)] by (intro that [of g' r]) (simp_all add: set_room_def update_client_def)
qed

lemma found_client_live:
  "registry_inv g \<Longrightarrow> fst (find_client g nm) = Some ta \<Longrightarrow> client_heap g ta \<noteq> None"
  by (rule find_client_cases [of g nm]) auto

lemma found_room:
  assumes "registry_inv g" and "find_room g nm = (Some ra, rc)"
  obtains r where "rc = ROOM_OK" "room_heap g ra = Some r" "room_name r = nm"
  by (rule find_room_cases [OF assms(1), of nm]) (use assms(2) that in auto)

lemmas deref_defs = with_arg_def in_room_def with_client_def with_room_def Let_def

lemma safe_create:
  assumes s: "server_inv s" and "fresh_blocks e (srv_reg s)" and live: "client_heap (srv_reg s) ca \<noteq> None"
  shows "safe_result s (handle_create e f ca c s)"
proof (cases "arg1 c")
  case (Some nm)
  obtain p rc g1 where mk: "create_room e (srv_db s) (srv_reg s) nm (Some ca) = (p, rc, g1)"
    by (cases "create_room e (srv_db s) (srv_reg s) nm (Some ca)") auto
  have g1: "registry_inv g1" "client_heap g1 = client_heap (srv_reg s)"
    using inv_create_room [OF server_invD(1) [OF s] assms(2) mk] by auto
  note g1i = idents_heap [OF g1(2)]
  obtain rc2 g2 where add: "room_add_member g1 p (Some ca) = (rc2, g2)" by force
  show ?thesis
    by (rule add_member_cases [OF g1(1) add])
      (use s live g1 g1i idents_add_member [OF add] mk add Some in \<open>auto simp: handle_create_def deref_defs\<close>)
qed (use s in \<open>simp add: handle_create_def deref_defs\<close>)

lemma safe_join_found:
  assumes s: "server_inv s" and "idents (srv_reg s) = idents (srv_reg s0)" and "no_uaf evs"
  shows "safe_result s0 (join_found e f ca me nm evs s)"
proof (cases "find_room (srv_reg s) nm")
  case (Pair p rc)
  show ?thesis
  proof (cases p)
    case (Some ra)
    with Pair obtain r where r: "room_heap (srv_reg s) ra = Some r"
      using found_room [OF server_invD(1) [OF s]] by blast
    obtain rc2 g2 where add: "room_add_member (srv_reg s) (Some ra) (Some ca) = (rc2, g2)" by force
    show ?thesis
      by (rule add_member_cases [OF server_invD(1) [OF s] add])
        (use assms Some Pair r add idents_add_member [OF add] in
          \<open>auto simp: join_found_def deref_defs safe_result_def joined_events_def\<close>)
  qed (use assms Pair in \<open>auto simp: join_found_def safe_result_def\<close>)
qed

lemma safe_join:
  assumes s: "server_inv s" and live: "client_heap (srv_reg s) ca \<noteq> None"
  shows "safe_result s (handle_join e f ca c s)"
proof (cases "arg1 c")
  case (Some nm)
  obtain me where me: "client_heap (srv_reg s) ca = Some me" using live by auto
  show ?thesis
  proof (cases "current_room me")
    case (Some ra)
    with leave_room [OF s me] obtain g1 r where
      "room_remove_member (srv_reg s) (Some ra) (Some ca) = (ROOM_OK, g1)"
      "registry_inv (set_room g1 ca None)" "idents g1 = idents (srv_reg s)"
      "room_heap (srv_reg s) ra = Some r" by blast
    with s me Some \<open>arg1 c = _\<close> show ?thesis by (simp add: handle_join_def deref_defs safe_join_found)
  qed (use s me Some in \<open>simp add: handle_join_def deref_defs safe_join_found\<close>)
qed (use s in \<open>simp add: handle_join_def deref_defs\<close>)

lemma safe_leave:
  assumes s: "server_inv s" and live: "client_heap (srv_reg s) ca \<noteq> None"
  shows "safe_result s (handle_leave e f ca c s)"
  unfolding handle_leave_def
proof (rule safe_in_room [OF s live])
  fix me ra assume me: "client_heap (srv_reg s) ca = Some me" "current_room me = Some ra"
  from leave_room [OF s me] obtain g1 r where
    "room_remove_member (srv_reg s) (Some ra) (Some ca) = (ROOM_OK, g1)"
    "registry_inv (set_room g1 ca None)" "idents g1 = idents (srv_reg s)"
    "room_heap (srv_reg s) ra = Some r" by blast
  with s show "safe_result s (with_room ''LEAVE'' s ra (\<lambda>r.
       let (rc, g1) = room_remove_member (srv_reg s) (Some ra) (Some ca) in
       if rc \<noteq> ROOM_OK then err f ''SERVER_ERROR'' s
       else let g2 = set_room g1 ca None;
             notice = format_notice MAX_LINE_LEN (client_name me) ''LEFT'' (room_name r);
             g3 = room_delete_if_empty g2 (Some ra) in
         (ok_reply f ''LEFT'' # room_broadcast e g2 (Some ra) notice f @ log_room ''LEAVE'' g3 ra,
          set_reg s g3)))"
    by (simp add: with_room_def Let_def safe_result_def inv_delete_if_empty)
qed

lemma safe_kick_target:
  assumes s: "server_inv s" and t: "client_heap (srv_reg s) ta = Some t"
  shows "safe_result s (kick_target e f s ra r target_name ta t)"
proof (cases "current_room t = Some ra")
  case True
  with leave_room [OF s t] obtain g1 where
    "room_remove_member (srv_reg s) (Some ra) (Some ta) = (ROOM_OK, g1)"
    "registry_inv (set_room g1 ta None)" "idents g1 = idents (srv_reg s)" by blast
  with True s show ?thesis by (simp add: kick_target_def Let_def inv_delete_if_empty)
qed (use s in \<open>simp add: kick_target_def\<close>)

lemma safe_kick:
  assumes s: "server_inv s" and live: "client_heap (srv_reg s) ca \<noteq> None"
  shows "safe_result s (handle_kick e f ca c s)"
  unfolding handle_kick_def using s live found_client_live [OF server_invD(1) [OF s]]
  by (auto intro!: safe_in_room safe_with_room safe_with_arg safe_with_client safe_kick_target split: option.split)

lemma safe_promote_target:
  assumes s: "server_inv s" and r: "room_heap (srv_reg s) ra = Some r"
  shows "safe_result s (promote_target e f s ra r target_name ta t)"
proof -
  have "registry_inv (update_room (srv_reg s) ra (\<lambda>r. r\<lparr>admin_client := Some ta\<rparr>))"
    using registry_invD(3) [OF server_invD(1) [OF s]] r
    by (intro inv_update_room [OF server_invD(1) [OF s]]) (auto simp: room_ok_def)
  moreover have "idents (update_room (srv_reg s) ra h) = idents (srv_reg s)" for h
    by (rule idents_heap) (simp add: update_room_def)
  ultimately show ?thesis using s by (simp add: promote_target_def Let_def)
qed

lemma safe_promote:
  assumes s: "server_inv s" and live: "client_heap (srv_reg s) ca \<noteq> None"
  shows "safe_result s (handle_promote e f ca c s)"
  unfolding handle_promote_def using s live found_client_live [OF server_invD(1) [OF s]]
  by (auto intro!: safe_in_room safe_with_room safe_with_arg safe_with_client safe_promote_target
      split: option.split)

subsection \<open>Listings\<close>

lemma page_offset_range: "0 \<le> tot \<Longrightarrow> 0 \<le> page_offset a tot \<and> page_offset a tot \<le> tot"
  by (simp add: page_offset_def split: option.split)

lemma page_count_range: "0 \<le> tot - offset \<Longrightarrow> page_count limit tot offset \<le> tot - offset"
  by (simp add: page_count_def Let_def)

lemma set_window:
  assumes "0 \<le> offset" and "count \<le> int n - offset"
  shows "set (window xs offset count) \<subseteq> set (take n xs)"
proof -
  have "nat count + nat offset \<le> n \<or> nat count = 0" using assms by linarith
  then show ?thesis
    using set_take_subset_set_take [of "nat count + nat offset" n xs] set_drop_subset
    by (fastforce simp: window_def take_drop)
qed

lemma set_page: "set (window xs (page_offset a (int n)) (page_count limit (int n) (page_offset a (int n)))) \<subseteq> set (take n xs)"
  using page_offset_range [of "int n" a] page_count_range by (intro set_window) auto

lemma all_some_live:
  "(\<And>x. x \<in> set xs \<Longrightarrow> h x \<noteq> None) \<Longrightarrow> \<exists>es. all_some (map h xs) = Some es"
  by (fastforce simp: all_some_def)

lemma safe_listing: "server_inv s \<Longrightarrow> safe_result s (listing_reply site f s b)"
  by (auto simp: listing_reply_def safe_result_def split: sum.split)

lemma safe_list_objects:
  assumes "server_inv s" and live: "\<And>p. p \<in> set (take n ps) \<Longrightarrow> h p \<noteq> None"
  shows "safe_result s (list_objects site kw f c s h n ps)"
proof -
  have "\<exists>es. all_some (map h qs) = Some es" if "set qs \<subseteq> set (take n ps)" for qs
    using that live by (intro all_some_live) blast
  from this [OF set_page [of ps "arg1 c" n "page_limit (arg2 c)"]] this [of "take n ps"] assms(1)
  show ?thesis by (auto simp: list_objects_def Let_def safe_listing)
qed

lemma safe_rooms:
  assumes s: "server_inv s"
  shows "safe_result s (handle_rooms e f ca c s)"
  unfolding handle_rooms_def Let_def
proof (rule safe_list_objects [OF s])
  fix p assume "p \<in> set (take (room_count (srv_reg s)) (room_list (srv_reg s)))"
  then show "room_entry (srv_reg s) p \<noteq> None"
    using counted_nth [OF registry_invD(1) [OF server_invD(1) [OF s]]]
    by (fastforce simp: in_set_conv_nth room_entry_def)
qed

lemma safe_who:
  assumes s: "server_inv s" and live: "client_heap (srv_reg s) ca \<noteq> None"
  shows "safe_result s (handle_who e f ca c s)"
  unfolding handle_who_def
proof (rule safe_in_room [OF s live], rule safe_with_room)
  fix ra r assume r: "room_heap (srv_reg s) ra = Some r"
  have "counted (members r) (member_count r) (member_capacity r) (occupants (srv_reg s) ra)"
    using registry_invD(3) [OF server_invD(1) [OF s] r] by (simp add: room_ok_def)
  then have "who_entry (srv_reg s) r p \<noteq> None" if "p \<in> set (take (member_count r) (members r))" for p
    using that by (auto simp: in_set_conv_nth who_entry_def occupants_def dest!: counted_nth)
  then show "safe_result s (list_objects ''WHO'' ''WHO_REPLY'' f c s (who_entry (srv_reg s) r) (member_count r) (members r))"
    by (rule safe_list_objects [OF s])
qed simp

subsection \<open>Presence\<close>

lemma safe_status:
  assumes s: "server_inv s" and live: "client_heap (srv_reg s) ca \<noteq> None"
  shows "safe_result s (handle_status e f ca c s)"
  unfolding handle_status_def
proof (intro safe_with_arg safe_with_client)
  fix t me assume me: "client_heap (srv_reg s) ca = Some me"
  have "registry_inv (update_client (srv_reg s) ca (\<lambda>c. c\<lparr>status := st\<rparr>))" for st
    by (rule inv_update_client [OF server_invD(1) [OF s]]) simp_all
  moreover have "idents (update_client (srv_reg s) ca (\<lambda>c. c\<lparr>status := st\<rparr>)) = idents (srv_reg s)" for st
    by (simp add: idents_update_client)
  ultimately show "safe_result s (case parse_status t of None \<Rightarrow> err f ''INVALID_STATUS'' s
       | Some st \<Rightarrow>
           let g1 = update_client (srv_reg s) ca (\<lambda>c. c\<lparr>status := st\<rparr>); s1 = set_reg s g1 in
           (case current_room me of
              None \<Rightarrow> ok f ''STATUS_SET'' s1
            | Some ra \<Rightarrow>
                if status me = st then ok f ''STATUS_SET'' s1
                else (ok_reply f ''STATUS_SET'' #
                  (case room_heap g1 ra of
                     None \<Rightarrow> [Use_after_free ''STATUS'']
                   | Some r \<Rightarrow> room_broadcast e g1 (Some ra)
                       (format_notice MAX_LINE_LEN (client_name me) t (room_name r)) f), s1)))"
    using s current_room_live [OF server_invD(1) [OF s] me]
    by (auto simp: Let_def split: option.split)
qed (use s live in auto)

lemma client_name_short: "server_inv s \<Longrightarrow> client_heap (srv_reg s) ca = Some me \<Longrightarrow> length (client_name me) < 32"
  using registry_invD(4) server_invD(1) by (fastforce simp: client_ok_def)

lemma safe_typing:
  assumes s: "server_inv s" and live: "client_heap (srv_reg s) ca \<noteq> None"
  shows "safe_result s (handle_typing e f ca c s)"
  unfolding handle_typing_def
proof (rule safe_in_room [OF s live])
  fix me ra r assume me: "client_heap (srv_reg s) ca = Some me" and r: "room_heap (srv_reg s) ra = Some r"
  have "typing_inv (snd (presence_typing_start e (srv_typing s) (client_name me)))"
    by (rule typing_inv_start [OF server_invD(3) [OF s] client_name_short [OF s me]])
  with s r show "safe_result s (let (started, t1) = presence_typing_start e (srv_typing s) (client_name me);
        s1 = s\<lparr>srv_typing := t1\<rparr> in
       if started then with_room ''TYPING'' s1 ra (\<lambda>_.
         (room_broadcast e (srv_reg s) (Some ra)
            (snprintf_out MAX_LINE_LEN (''TYPING '' @ client_name me @ [NL])) f @ [ok_reply f ''SENT''], s1))
       else ok f ''SENT'' s1)"
    by (simp add: split_beta Let_def with_room_def)
qed

lemma safe_stop_typing:
  assumes s: "server_inv s" and live: "client_heap (srv_reg s) ca \<noteq> None"
  shows "safe_result s (handle_stop_typing e f ca c s)"
  unfolding handle_stop_typing_def
proof (rule safe_with_client [OF live])
  fix me assume me: "client_heap (srv_reg s) ca = Some me"
  have "typing_inv (presence_typing_stop (srv_typing s) (client_name me))"
    by (rule typing_inv_stop [OF server_invD(3) [OF s] client_name_short [OF s me]])
  with s show "safe_result s (let s1 = s\<lparr>srv_typing := presence_typing_stop (srv_typing s) (client_name me)\<rparr> in
       (case current_room me of
          None \<Rightarrow> ok f ''SENT'' s1
        | Some ra \<Rightarrow> with_room ''STOP_TYPING'' s1 ra (\<lambda>_.
            (room_broadcast e (srv_reg s) (Some ra)
               (snprintf_out MAX_LINE_LEN (''STOP_TYPING '' @ client_name me @ [NL])) f @
             [ok_reply f ''SENT''], s1))))"
    using current_room_live [OF server_invD(1) [OF s] me] by (auto simp: Let_def with_room_def split: option.split)
qed

subsection \<open>The handlers as instances of the interface\<close>

abbreviation always :: "addr \<Rightarrow> cmd \<Rightarrow> server \<Rightarrow> bool" where
  "always \<equiv> \<lambda>_ _ _. True"

interpretation create: command handle_create always
  by unfold_locales (rule safe_create)

interpretation join: command handle_join always
  by unfold_locales (rule safe_join)

interpretation leave: command handle_leave always
  by unfold_locales (rule safe_leave)

interpretation kick: command handle_kick always
  by unfold_locales (rule safe_kick)

interpretation promote: command handle_promote always
  by unfold_locales (rule safe_promote)

interpretation rooms: command handle_rooms always
  by unfold_locales (rule safe_rooms)

interpretation who: command handle_who always
  by unfold_locales (rule safe_who)

interpretation set_status: command handle_status always
  by unfold_locales (rule safe_status)

interpretation start_typing: command handle_typing always
  by unfold_locales (rule safe_typing)

interpretation stop_typing: command handle_stop_typing always
  by unfold_locales (rule safe_stop_typing)

end
