(* ===== verification/Message_Commands.thy ===== *)
theory Message_Commands
  imports Room_Commands
begin

text \<open>
  The commands that carry or change messages: \<open>MSG\<close>, \<open>PM\<close>, \<open>EDIT\<close>, \<open>DELETE\<close>, \<open>HISTORY\<close> and
  \<open>READ\<close>, with the contract of each.
\<close>

definition send_to_room :: "env \<Rightarrow> fd \<Rightarrow> client \<Rightarrow> addr \<Rightarrow> string \<Rightarrow> server \<Rightarrow> response" where
  "send_to_room e f me ra t s =
     (let (mid, db1, g1) = room_add_history e (srv_db s) (srv_reg s) (Some ra) (client_name me) t;
          line = (if mid > 0 then format_msg_reply_id MAX_LINE_LEN mid (client_name me) t
                  else format_msg_reply MAX_LINE_LEN (client_name me) t) in
      (room_broadcast e g1 (Some ra) line f @ [ok_reply f ''SENT''], s\<lparr>srv_reg := g1, srv_db := db1\<rparr>))"

definition handle_msg :: handler where
  "handle_msg e f ca c s =
     in_room ''MSG'' f ca s (\<lambda>me ra.
       let (allowed, s1) = spend_token e s ca me in
       if \<not> allowed then err f ''RATE_LIMITED'' s1
       else case arg1 c of
         None \<Rightarrow> err f ''EMPTY_MESSAGE'' s1
       | Some t \<Rightarrow>
           if length t = 0 then err f ''EMPTY_MESSAGE'' s1
           else with_room ''MSG'' s1 ra (\<lambda>_. send_to_room e f me ra t s1))"

definition handle_pm :: handler where
  "handle_pm e f ca c s =
     with_arg f ''INVALID_COMMAND'' s (arg1 c) (\<lambda>target_name.
       case arg2 c of
         None \<Rightarrow> err f ''EMPTY_MESSAGE'' s
       | Some t \<Rightarrow>
           if length t = 0 then err f ''EMPTY_MESSAGE'' s
           else with_client ''PM'' s ca (\<lambda>me.
             let (allowed, s1) = spend_token e s ca me in
             if \<not> allowed then err f ''RATE_LIMITED'' s1
             else case fst (find_client (srv_reg s1) target_name) of
               None \<Rightarrow> err f ''UNKNOWN_USER'' s1
             | Some ta \<Rightarrow> with_client ''PM'' s1 ta (\<lambda>target.
                 ([Send (socket_fd target) (format_pm_reply MAX_LINE_LEN (client_name me) t), ok_reply f ''SENT''], s1))))"

text \<open>The replies to the results -1, -2 and -3 of editing and deleting; 0 is success.\<close>

definition change_reply :: "env \<Rightarrow> fd \<Rightarrow> addr \<Rightarrow> string \<Rightarrow> int \<times> store \<times> registry \<Rightarrow> server \<Rightarrow> response" where
  "change_reply e f ra line r s =
     (let (rc, db1, g1) = r; s1 = s\<lparr>srv_reg := g1, srv_db := db1\<rparr> in
      if rc = -1 then err f ''MSG_NOT_FOUND'' s1
      else if rc = -2 then err f ''MSG_DELETED'' s1
      else if rc = -3 then err f ''NOT_AUTHORIZED'' s1
      else (room_broadcast e g1 (Some ra) line (-1) @ [ok_reply f ''SENT''], s1))"

definition handle_edit :: handler where
  "handle_edit e f ca c s =
     in_room ''EDIT'' f ca s (\<lambda>me ra.
       case (arg1 c, arg2 c) of
         (Some id_str, Some new_text) \<Rightarrow>
           if length new_text = 0 then err f ''INVALID_COMMAND'' s
           else let mid = atoll id_str in
             if mid \<le> 0 then err f ''MSG_NOT_FOUND'' s
             else with_room ''EDIT'' s ra (\<lambda>_.
               change_reply e f ra (format_edited_reply MAX_LINE_LEN mid new_text)
                 (room_edit_message e (srv_db s) (srv_reg s) (Some ra) mid (client_name me) new_text) s)
       | _ \<Rightarrow> err f ''INVALID_COMMAND'' s)"

definition handle_delete :: handler where
  "handle_delete e f ca c s =
     in_room ''DELETE'' f ca s (\<lambda>me ra. with_arg f ''INVALID_COMMAND'' s (arg1 c) (\<lambda>id_str.
       let mid = atoll id_str in
       if mid \<le> 0 then err f ''MSG_NOT_FOUND'' s
       else with_room ''DELETE'' s ra (\<lambda>r.
         change_reply e f ra (format_deleted_reply MAX_LINE_LEN mid)
           (room_delete_message e (srv_db s) (srv_reg s) (Some ra) mid (client_name me)
              (admin_client r = Some ca)) s)))"

text \<open>One line of the answer to \<open>HISTORY\<close>.\<close>

definition history_row_line :: "msg_row \<Rightarrow> string" where
  "history_row_line r =
     (if row_deleted r
      then snprintf_out MAX_LINE_LEN (''MSG '' @ show_int (row_id r) @ '' '' @ row_sender r @ '' [deleted]'' @ [NL])
      else snprintf_out MAX_LINE_LEN (''MSG '' @ show_int (row_id r) @ '' '' @ row_sender r @ '' '' @ row_text r @ [NL]))"

definition history_limit :: "string option \<Rightarrow> int" where
  "history_limit a =
     (let limit = (case a of None \<Rightarrow> 20 | Some t \<Rightarrow> atoi t) in
      if limit \<le> 0 then 20 else if limit > 100 then 100 else limit)"

definition history_reply :: "env \<Rightarrow> fd \<Rightarrow> cmd \<Rightarrow> string \<Rightarrow> server \<Rightarrow> response" where
  "history_reply e f c nm s =
     (let cursor = (case arg2 c of None \<Rightarrow> 0 | Some t \<Rightarrow> atoll t);
          limit = history_limit (arg3 c) in
      if fst (find_room (srv_reg s) nm) = None then err f ''ROOM_NOT_FOUND'' s
      else
        let (hist, next_cursor) = db_load_history_before e (srv_db s) nm cursor limit 0 in
        (Reply f (snprintf_out MAX_LINE_LEN (''HISTORY_REPLY '' @ nm @ '' '' @ show_int next_cursor @ '' '' @
            show_int (int (length hist)) @ [NL])) #
         map (\<lambda>r. Reply f (history_row_line r)) hist @
         [Reply f (snprintf_out MAX_LINE_LEN (''END_HISTORY '' @ nm @ '' '' @ show_int next_cursor @ [NL]))], s))"

definition handle_history :: handler where
  "handle_history e f ca c s =
     (case arg1 c of
        Some nm \<Rightarrow> history_reply e f c nm s
      | None \<Rightarrow> in_room ''HISTORY'' f ca s (\<lambda>me ra. with_room ''HISTORY'' s ra (\<lambda>r.
          history_reply e f c (room_name r) s)))"

definition handle_read :: handler where
  "handle_read e f ca c s =
     with_arg f ''INVALID_COMMAND'' s (arg1 c) (\<lambda>id_str.
       let mid = atoll id_str in
       if mid \<le> 0 then err f ''MSG_NOT_FOUND'' s
       else with_client ''READ'' s ca (\<lambda>me.
         let (rc, db1) = receipt_mark_read e (srv_db s) mid (client_name me); s1 = set_db s db1 in
         if rc = 0
         then (case current_room me of
             None \<Rightarrow> ok f ''SENT'' s1
           | Some ra \<Rightarrow> with_room ''READ'' s1 ra (\<lambda>_.
               (room_broadcast e (srv_reg s) (Some ra)
                  (snprintf_out MAX_LINE_LEN (''READ_RECEIPT '' @ show_int mid @ '' '' @ client_name me @ [NL])) f @
                [ok_reply f ''SENT''], s1)))
         else err f ''SERVER_ERROR'' s1))"

section \<open>The contract\<close>

lemma safe_send_to_room:
  assumes s: "server_inv s"
  shows "safe_result s (send_to_room e f me ra t s)"
proof -
  obtain mid db1 g1 where add: "room_add_history e (srv_db s) (srv_reg s) (Some ra) (client_name me) t = (mid, db1, g1)"
    using prod_cases3 by blast
  from inv_add_history [OF server_invD(1,2) [OF s] this] s show ?thesis
    by (auto simp: send_to_room_def add Let_def server_inv_def intro: idents_heap)
qed

lemma safe_cong: "idents (srv_reg s1) = idents (srv_reg s) \<Longrightarrow> safe_result s1 r \<Longrightarrow> safe_result s r"
  by (simp add: safe_result_def)

lemma safe_msg:
  assumes s: "server_inv s" and live: "client_heap (srv_reg s) ca \<noteq> None"
  shows "safe_result s (handle_msg e f ca c s)"
  unfolding handle_msg_def
proof (rule safe_in_room [OF s live])
  fix me ra r assume r: "room_heap (srv_reg s) ra = Some r"
  obtain b s1 where sp: "spend_token e s ca me = (b, s1)" by force
  note s1 = inv_spend_token [OF s sp]
  show "safe_result s (let (allowed, s1) = spend_token e s ca me in
       if \<not> allowed then err f ''RATE_LIMITED'' s1
       else case arg1 c of
         None \<Rightarrow> err f ''EMPTY_MESSAGE'' s1
       | Some t \<Rightarrow>
           if length t = 0 then err f ''EMPTY_MESSAGE'' s1
           else with_room ''MSG'' s1 ra (\<lambda>_. send_to_room e f me ra t s1))"
    using s1(1-3) r safe_send_to_room [OF s1(1)]
    by (auto simp: sp with_room_def split: option.split intro: safe_cong [OF s1(2)])
qed

lemma safe_pm:
  assumes s: "server_inv s" and live: "client_heap (srv_reg s) ca \<noteq> None"
  shows "safe_result s (handle_pm e f ca c s)"
proof -
  have *: "safe_result s (let (allowed, s1) = spend_token e s ca me in
       if \<not> allowed then err f ''RATE_LIMITED'' s1
       else case fst (find_client (srv_reg s1) target_name) of
         None \<Rightarrow> err f ''UNKNOWN_USER'' s1
       | Some ta \<Rightarrow> with_client ''PM'' s1 ta (\<lambda>target.
           ([Send (socket_fd target) (format_pm_reply MAX_LINE_LEN (client_name me) t), ok_reply f ''SENT''], s1)))"
    for me target_name t
  proof -
    obtain b s1 where sp: "spend_token e s ca me = (b, s1)" by force
    note s1 = inv_spend_token [OF s sp]
    show ?thesis
      using s1(1,2) found_client_live [OF server_invD(1) [OF s1(1)], of target_name]
      by (auto simp: sp intro!: safe_with_client split: option.split)
  qed
  show ?thesis
    unfolding handle_pm_def using s live *
    by (auto intro!: safe_with_arg safe_with_client split: option.split)
qed

lemma safe_change_reply:
  assumes "server_inv s" and "registry_inv (snd (snd r)) \<and> store_inv (fst (snd r)) \<and> client_heap (snd (snd r)) = client_heap (srv_reg s)"
  shows "safe_result s (change_reply e f ra line r s)"
  using assms idents_heap [of "snd (snd r)" "srv_reg s"]
  by (simp add: change_reply_def split_beta Let_def server_inv_def)

lemma safe_edit:
  assumes s: "server_inv s" and live: "client_heap (srv_reg s) ca \<noteq> None"
  shows "safe_result s (handle_edit e f ca c s)"
proof -
  have "safe_result s (change_reply e f ra line (room_edit_message e (srv_db s) (srv_reg s) (Some ra) mid u t) s)"
    for line ra mid u t
    using inv_edit_message [OF server_invD(1,2) [OF s], of e "Some ra" mid u t]
    by (intro safe_change_reply [OF s]) (metis prod.collapse)
  then show ?thesis
    unfolding handle_edit_def Let_def using s live
    by (auto intro!: safe_in_room safe_with_room split: option.split)
qed

lemma safe_delete:
  assumes s: "server_inv s" and live: "client_heap (srv_reg s) ca \<noteq> None"
  shows "safe_result s (handle_delete e f ca c s)"
proof -
  have "safe_result s (change_reply e f ra line (room_delete_message e (srv_db s) (srv_reg s) (Some ra) mid u adm) s)"
    for line ra mid u adm
    using inv_delete_message [OF server_invD(1,2) [OF s], of e "Some ra" mid u adm]
    by (intro safe_change_reply [OF s]) (metis prod.collapse)
  then show ?thesis
    unfolding handle_delete_def Let_def using s live
    by (auto intro!: safe_in_room safe_with_room safe_with_arg)
qed

lemma safe_history_reply: "server_inv s \<Longrightarrow> safe_result s (history_reply e f c nm s)"
  by (simp add: history_reply_def Let_def split_beta)

lemma safe_history:
  "server_inv s \<Longrightarrow> client_heap (srv_reg s) ca \<noteq> None \<Longrightarrow> safe_result s (handle_history e f ca c s)"
  unfolding handle_history_def
  by (auto intro!: safe_in_room safe_with_room safe_history_reply split: option.split)

lemma safe_read:
  assumes s: "server_inv s" and live: "client_heap (srv_reg s) ca \<noteq> None"
  shows "safe_result s (handle_read e f ca c s)"
proof -
  obtain me where me: "client_heap (srv_reg s) ca = Some me" using live by auto
  have "store_inv (snd (receipt_mark_read e (srv_db s) mid u))" for mid u
    using reading.inv_add [OF server_invD(2) [OF s], where k = "(mid, u)"] by simp
  then show ?thesis
    using s me current_room_live [OF server_invD(1) [OF s] me]
    by (auto simp: handle_read_def deref_defs split_beta split: option.split)
qed

interpretation msg: command handle_msg always
  by unfold_locales (rule safe_msg)

interpretation pm: command handle_pm always
  by unfold_locales (rule safe_pm)

interpretation edit: command handle_edit always
  by unfold_locales (rule safe_edit)

interpretation delete: command handle_delete always
  by unfold_locales (rule safe_delete)

interpretation history: command handle_history always
  by unfold_locales (rule safe_history)

interpretation read: command handle_read always
  by unfold_locales (rule safe_read)

end
