(* ===== verification/Moderation_Commands.thy ===== *)
theory Moderation_Commands
  imports Room_Commands
begin

text \<open>
  The moderation commands: \<open>BLOCK\<close>, \<open>UNBLOCK\<close>, \<open>MUTE\<close>, \<open>UNMUTE\<close>, \<open>BAN\<close>, \<open>DEMOTE\<close>,
  \<open>CREATE_PRIVATE\<close>, \<open>INVITE\<close>, \<open>ACCEPT\<close> and \<open>DECLINE\<close>, with the contract of each.  \<open>ACCEPT\<close>
  fulfils it only when the room has space for the new member, which is its guard.
\<close>

text \<open>\<open>if (op(...) == 0) OK ... else ERR ...\<close> for an operation on the tables.\<close>

definition table_reply :: "fd \<Rightarrow> string \<Rightarrow> string \<Rightarrow> int \<times> store \<Rightarrow> server \<Rightarrow> response" where
  "table_reply f good bad r s =
     (let (rc, db1) = r; s1 = set_db s db1 in if rc = 0 then ok f good s1 else err f bad s1)"

definition handle_block :: handler where
  "handle_block e f ca c s =
     with_arg f ''INVALID_COMMAND'' s (arg1 c) (\<lambda>target. with_client ''BLOCK'' s ca (\<lambda>me.
       table_reply f ''BLOCKED'' ''SERVER_ERROR'' (block_add e (srv_db s) (client_name me) target) s))"

definition handle_unblock :: handler where
  "handle_unblock e f ca c s =
     with_arg f ''INVALID_COMMAND'' s (arg1 c) (\<lambda>target. with_client ''UNBLOCK'' s ca (\<lambda>me.
       table_reply f ''UNBLOCKED'' ''USER_NOT_BLOCKED'' (block_remove e (srv_db s) (client_name me) target) s))"

text \<open>\<open>if (!permission_check(room, me, action)) { ERR code; break; }\<close>\<close>

definition permitted ::
  "env \<Rightarrow> fd \<Rightarrow> server \<Rightarrow> room \<Rightarrow> client \<Rightarrow> string \<Rightarrow> string \<Rightarrow> (server \<Rightarrow> response) \<Rightarrow> response" where
  "permitted e f s r me action code k =
     (let (allowed, db1) = permission_check e (srv_db s) (room_name r) (client_name me) action; s1 = set_db s db1 in
      if allowed then k s1 else err f code s1)"

definition handle_mute :: handler where
  "handle_mute e f ca c s =
     in_room ''MUTE'' f ca s (\<lambda>me ra. with_room ''MUTE'' s ra (\<lambda>r.
       permitted e f s r me ''MUTE'' ''NOT_ADMIN'' (\<lambda>s1.
         with_arg f ''INVALID_COMMAND'' s1 (arg1 c) (\<lambda>target.
           table_reply f ''MUTED'' ''SERVER_ERROR''
             (mute_add e (srv_db s1) (room_name r) (client_name me) target) s1))))"

definition handle_unmute :: handler where
  "handle_unmute e f ca c s =
     in_room ''UNMUTE'' f ca s (\<lambda>me ra. with_arg f ''INVALID_COMMAND'' s (arg1 c) (\<lambda>target.
       with_room ''UNMUTE'' s ra (\<lambda>r.
         table_reply f ''UNMUTED'' ''USER_NOT_MUTED'' (mute_remove e (srv_db s) (room_name r) target) s)))"

text \<open>The ban, once permitted: the banned user is taken out of the room if present.\<close>

definition ban_target :: "env \<Rightarrow> fd \<Rightarrow> client \<Rightarrow> addr \<Rightarrow> room \<Rightarrow> string \<Rightarrow> server \<Rightarrow> response" where
  "ban_target e f me ra r target s =
     (let (rc, db1) = ban_add e (srv_db s) (room_name r) (client_name me) target; s1 = set_db s db1;
          counted_ban = srv_metrics_update metrics_increment_bans in
      if rc \<noteq> 0 then err f ''SERVER_ERROR'' s1
      else case fst (find_client (srv_reg s) target) of
        None \<Rightarrow> ok f ''BANNED'' (counted_ban s1)
      | Some ba \<Rightarrow> with_client ''BAN'' s1 ba (\<lambda>banned.
          if current_room banned = Some ra
          then
            let (_, g1) = room_remove_member (srv_reg s) (Some ra) (Some ba); g2 = set_room g1 ba None in
            ([Send (socket_fd banned) (snprintf_out MAX_LINE_LEN (''ERR BANNED'' @ [NL])), ok_reply f ''BANNED''],
             counted_ban (set_reg s1 g2))
          else ok f ''BANNED'' (counted_ban s1)))"

definition handle_ban :: handler where
  "handle_ban e f ca c s =
     in_room ''BAN'' f ca s (\<lambda>me ra. with_room ''BAN'' s ra (\<lambda>r.
       permitted e f s r me ''BAN'' ''NOT_ROOM_OWNER'' (\<lambda>s1.
         with_arg f ''INVALID_COMMAND'' s1 (arg1 c) (\<lambda>target. ban_target e f me ra r target s1))))"

definition handle_demote :: handler where
  "handle_demote e f ca c s =
     in_room ''DEMOTE'' f ca s (\<lambda>me ra. with_room ''DEMOTE'' s ra (\<lambda>r.
       permitted e f s r me ''DEMOTE'' ''NOT_ROOM_OWNER'' (\<lambda>s1.
         with_arg f ''INVALID_COMMAND'' s1 (arg1 c) (\<lambda>target.
           if target = client_name me then err f ''CANNOT_DEMOTE_SELF'' s1
           else
             let (target_role, db2) = permission_get_role e (srv_db s1) (room_name r) target; s2 = set_db s1 db2 in
             if target_role \<le> ROLE_MEMBER then err f ''INVALID_ROLE'' s2
             else ok f ''DEMOTED''
               (set_db s2 (snd (permission_set_role e db2 (room_name r) target (role_below target_role))))))))"

definition handle_create_private :: handler where
  "handle_create_private e f ca c s =
     with_arg f ''INVALID_ROOM_NAME'' s (arg1 c) (\<lambda>nm.
       let (p, rc, g1) = create_room e (srv_db s) (srv_reg s) nm (Some ca); s1 = set_reg s g1 in
       if rc \<noteq> ROOM_OK
       then err f (if rc = ROOM_ERR_ALREADY_EXISTS then ''ROOM_ALREADY_EXISTS'' else ''SERVER_ERROR'') s1
       else with_client ''CREATE_PRIVATE'' s1 ca (\<lambda>me.
         let (rc2, g2) = room_add_member g1 p (Some ca) in
         if rc2 \<noteq> ROOM_OK then err f ''SERVER_ERROR'' (set_reg s g2)
         else
           let db1 = snd (permission_set_role e (srv_db s) nm (client_name me) ROLE_OWNER);
               db2 = snd (db_create_room e db1 nm (client_name me)) in
           ok f ''CREATED_PRIVATE''
             (s\<lparr>srv_reg := set_room g2 ca p, srv_db := db2,
                srv_metrics := metrics_increment_rooms (srv_metrics s)\<rparr>)))"

definition handle_invite :: handler where
  "handle_invite e f ca c s =
     in_room ''INVITE'' f ca s (\<lambda>me ra. with_room ''INVITE'' s ra (\<lambda>r.
       permitted e f s r me ''INVITE'' ''NOT_ADMIN'' (\<lambda>s1.
         with_arg f ''INVALID_COMMAND'' s1 (arg1 c) (\<lambda>target.
           if \<not> db_user_exists e (srv_db s1) target then err f ''UNKNOWN_USER'' s1
           else
             let (rc, db2) = invite_create e (srv_db s1) (room_name r) (client_name me) target; s2 = set_db s1 db2 in
             if rc \<noteq> 0 then err f ''INVITE_FAILED'' s2
             else case fst (find_client (srv_reg s) target) of
               None \<Rightarrow> ok f ''INVITED'' s2
             | Some ia \<Rightarrow> with_client ''INVITE'' s2 ia (\<lambda>invitee.
                 ([ok_reply f ''INVITED'', Send (socket_fd invitee)
                     (snprintf_out MAX_LINE_LEN (''INVITE '' @ client_name me @ '' '' @ room_name r @ [NL]))], s2))))))"

text \<open>
  \<open>ACCEPT\<close> from the point where the client is in no room: the result of \<open>room_add_member\<close> is ignored
  and \<open>current_room\<close> is set in any case.
\<close>

definition accept_enter :: "env \<Rightarrow> fd \<Rightarrow> addr \<Rightarrow> client \<Rightarrow> addr \<Rightarrow> server \<Rightarrow> response" where
  "accept_enter e f ca me ra s = with_room ''ACCEPT'' s ra (\<lambda>r.
     let g1 = set_room (snd (room_add_member (srv_reg s) (Some ra) (Some ca))) ca (Some ra) in
     (joined_events e g1 ra r me f, set_reg s g1))"

definition accept_move :: "env \<Rightarrow> fd \<Rightarrow> addr \<Rightarrow> client \<Rightarrow> addr \<Rightarrow> server \<Rightarrow> response" where
  "accept_move e f ca me ra s =
     (case current_room me of
        None \<Rightarrow> accept_enter e f ca me ra s
      | Some old \<Rightarrow> with_room ''ACCEPT'' s old (\<lambda>_.
          accept_enter e f ca me ra (set_reg s
            (set_room (snd (room_remove_member (srv_reg s) (Some old) (Some ca))) ca None))))"

definition handle_accept :: handler where
  "handle_accept e f ca c s =
     with_arg f ''INVALID_COMMAND'' s (arg1 c) (\<lambda>nm. with_client ''ACCEPT'' s ca (\<lambda>me.
       let (invited, db1) = invite_find e (srv_db s) nm (client_name me); s1 = set_db s db1 in
       if \<not> invited then err f ''NOT_INVITED'' s1
       else
         let s2 = set_db s1 (snd (invite_accept e db1 nm (client_name me))) in
         (case fst (find_room (srv_reg s2) nm) of
            None \<Rightarrow> err f ''ROOM_NOT_FOUND'' s2
          | Some ra \<Rightarrow> accept_move e f ca me ra s2)))"

definition handle_decline :: handler where
  "handle_decline e f ca c s =
     with_arg f ''INVALID_COMMAND'' s (arg1 c) (\<lambda>nm. with_client ''DECLINE'' s ca (\<lambda>me.
       ok f ''INVITE_DECLINED'' (set_db s (snd (invite_decline e (srv_db s) nm (client_name me))))))"

section \<open>The contract\<close>

lemma safe_table_reply: "server_inv s \<Longrightarrow> store_inv (snd r) \<Longrightarrow> safe_result s (table_reply f good bad r s)"
  by (simp add: table_reply_def split_beta Let_def)

lemma store_inv_flag_ops:
  assumes "store_inv d"
  shows "store_inv (snd (block_add e d u v))" and "store_inv (snd (block_remove e d u v))"
    and "store_inv (snd (mute_add e d rm u v))" and "store_inv (snd (mute_remove e d rm v))"
    and "store_inv (snd (ban_add e d rm u v))"
    and "store_inv (snd (invite_create e d rm u v))" and "store_inv (snd (invite_accept e d rm v))"
    and "store_inv (snd (invite_find e d rm v))"
  using blocking.inv_add [OF assms, where k = "(u, v)"] blocking.inv_remove [OF assms, where k = "(u, v)"]
    muting.inv_add [OF assms, where k = "(rm, v)"] muting.inv_remove [OF assms, where k = "(rm, v)"]
    banning.inv_add [OF assms, where k = "(rm, v)"]
    inviting.inv_add [OF assms, where k = "(rm, v)"] inviting.inv_remove [OF assms, where k = "(rm, v)"]
    inviting.inv_check [OF assms, where k = "(rm, v)"]
  by simp_all

lemma safe_block: "server_inv s \<Longrightarrow> client_heap (srv_reg s) ca \<noteq> None \<Longrightarrow> safe_result s (handle_block e f ca c s)"
  unfolding handle_block_def
  by (intro safe_with_arg safe_with_client safe_table_reply) (auto intro: store_inv_flag_ops server_invD)

lemma safe_unblock: "server_inv s \<Longrightarrow> client_heap (srv_reg s) ca \<noteq> None \<Longrightarrow> safe_result s (handle_unblock e f ca c s)"
  unfolding handle_unblock_def
  by (intro safe_with_arg safe_with_client safe_table_reply) (auto intro: store_inv_flag_ops server_invD)

lemma safe_permitted:
  assumes s: "server_inv s"
    and "\<And>s1. server_inv s1 \<Longrightarrow> srv_reg s1 = srv_reg s \<Longrightarrow> safe_result s1 (k s1)"
  shows "safe_result s (permitted e f s r me action code k)"
proof -
  let ?s1 = "set_db s (snd (permission_check e (srv_db s) (room_name r) (client_name me) action))"
  have "server_inv ?s1" using s by (simp add: store_inv_permission_check server_invD)
  with assms(2) [of ?s1] show ?thesis
    by (auto simp: permitted_def split_beta Let_def safe_result_def err_def)
qed

lemma safe_mute: "server_inv s \<Longrightarrow> client_heap (srv_reg s) ca \<noteq> None \<Longrightarrow> safe_result s (handle_mute e f ca c s)"
  unfolding handle_mute_def
  by (intro safe_in_room safe_with_room safe_permitted safe_with_arg safe_table_reply)
    (auto intro: store_inv_flag_ops server_invD)

lemma safe_unmute: "server_inv s \<Longrightarrow> client_heap (srv_reg s) ca \<noteq> None \<Longrightarrow> safe_result s (handle_unmute e f ca c s)"
  unfolding handle_unmute_def
  by (intro safe_in_room safe_with_room safe_with_arg safe_table_reply)
    (auto intro: store_inv_flag_ops server_invD)

lemma safe_ban_target:
  assumes s: "server_inv s"
  shows "safe_result s (ban_target e f me ra r target s)"
proof -
  let ?ban = "ban_add e (srv_db s) (room_name r) (client_name me) target"
  let ?s1 = "set_db s (snd ?ban)"
  have s1: "server_inv ?s1" using s by (simp add: store_inv_flag_ops server_invD)
  show ?thesis
  proof (cases "\<exists>ba banned. fst (find_client (srv_reg s) target) = Some ba \<and>
      client_heap (srv_reg s) ba = Some banned \<and> current_room banned = Some ra")
    case True
    then obtain ba banned where b: "fst (find_client (srv_reg s) target) = Some ba"
      "client_heap (srv_reg s) ba = Some banned" "current_room banned = Some ra" by auto
    from leave_room [OF s b(2,3)] obtain g1 where
      "room_remove_member (srv_reg s) (Some ra) (Some ba) = (ROOM_OK, g1)"
      "registry_inv (set_room g1 ba None)" "idents g1 = idents (srv_reg s)" by blast
    with b s1 show ?thesis
      by (simp add: ban_target_def split_beta Let_def with_client_def server_inv_def)
  next
    case False
    with s1 found_client_live [OF server_invD(1) [OF s], of target] show ?thesis
      by (auto simp: ban_target_def split_beta Let_def with_client_def server_inv_def split: option.split)
  qed
qed

lemma safe_ban: "server_inv s \<Longrightarrow> client_heap (srv_reg s) ca \<noteq> None \<Longrightarrow> safe_result s (handle_ban e f ca c s)"
  unfolding handle_ban_def
  by (intro safe_in_room safe_with_room safe_permitted safe_with_arg safe_ban_target) auto

lemma safe_demote: "server_inv s \<Longrightarrow> client_heap (srv_reg s) ca \<noteq> None \<Longrightarrow> safe_result s (handle_demote e f ca c s)"
  unfolding handle_demote_def
  by (intro safe_in_room safe_with_room safe_permitted safe_with_arg)
    (auto simp: split_beta Let_def store_inv_get_role store_inv_set_role server_invD)

lemma safe_create_private:
  assumes s: "server_inv s" and "fresh_blocks e (srv_reg s)" and live: "client_heap (srv_reg s) ca \<noteq> None"
  shows "safe_result s (handle_create_private e f ca c s)"
proof (cases "arg1 c")
  case (Some nm)
  obtain p rc g1 where mk: "create_room e (srv_db s) (srv_reg s) nm (Some ca) = (p, rc, g1)"
    by (cases "create_room e (srv_db s) (srv_reg s) nm (Some ca)") auto
  have g1: "registry_inv g1" "client_heap g1 = client_heap (srv_reg s)"
    using inv_create_room [OF server_invD(1) [OF s] assms(2) mk] by auto
  have db: "store_inv (snd (db_create_room e (snd (permission_set_role e (srv_db s) nm u ROLE_OWNER)) nm u))" for u
    by (intro store_inv_create_room store_inv_set_role server_invD(2) [OF s])
  obtain rc2 g2 where add: "room_add_member g1 p (Some ca) = (rc2, g2)" by force
  show ?thesis
    by (rule add_member_cases [OF g1(1) add])
      (use s live g1 idents_heap [OF g1(2)] idents_add_member [OF add] mk add Some db in
        \<open>auto simp: handle_create_private_def deref_defs server_inv_def\<close>)
qed (use s in \<open>simp add: handle_create_private_def deref_defs\<close>)

lemma safe_invite:
  assumes s: "server_inv s" and live: "client_heap (srv_reg s) ca \<noteq> None"
  shows "safe_result s (handle_invite e f ca c s)"
  unfolding handle_invite_def using s live found_client_live [OF server_invD(1) [OF s]]
  by (intro safe_in_room safe_with_room safe_permitted safe_with_arg)
    (auto simp: split_beta Let_def store_inv_flag_ops server_invD intro!: safe_with_client split: option.split)

lemma safe_decline: "server_inv s \<Longrightarrow> client_heap (srv_reg s) ca \<noteq> None \<Longrightarrow> safe_result s (handle_decline e f ca c s)"
  unfolding handle_decline_def invite_decline_def
  by (intro safe_with_arg safe_with_client) (auto simp: store_inv_flag_ops server_invD)

subsection \<open>Accepting an invitation\<close>

text \<open>The room of the invitation, if it exists, has space or is the one the client is in.\<close>

definition accept_fits :: "addr \<Rightarrow> cmd \<Rightarrow> server \<Rightarrow> bool" where
  "accept_fits ca c s \<longleftrightarrow>
     (\<forall>nm ra r. arg1 c = Some nm \<longrightarrow> fst (find_room (srv_reg s) nm) = Some ra \<longrightarrow>
        room_heap (srv_reg s) ra = Some r \<longrightarrow>
        member_count r < member_capacity r \<or> map_option current_room (client_heap (srv_reg s) ca) = Some (Some ra))"

lemma add_member_fits:
  assumes inv: "registry_inv g" and c: "client_heap g ca = Some c" "current_room c = None"
    and r: "room_heap g ra = Some r" "member_count r < member_capacity r"
  obtains g' where "room_add_member g (Some ra) (Some ca) = (ROOM_OK, g')"
    "registry_inv (set_room g' ca (Some ra))" "idents g' = idents g"
proof -
  have "members r \<noteq> []" using registry_invD(3) [OF inv r(1)] r(2) by (auto simp: room_ok_def counted_def)
  with c r obtain g' where add: "room_add_member g (Some ra) (Some ca) = (ROOM_OK, g')"
    by (simp add: room_add_member_def)
  show thesis
    by (rule that [OF add inv_enter [OF inv add] idents_add_member [OF add]])
qed

lemma safe_accept_enter:
  assumes s: "server_inv s" and c: "client_heap (srv_reg s) ca = Some c" "current_room c = None"
    and r: "room_heap (srv_reg s) ra = Some r" "member_count r < member_capacity r"
  shows "safe_result s (accept_enter e f ca me ra s)"
  by (rule add_member_fits [OF server_invD(1) [OF s] c r])
    (use s r in \<open>simp add: accept_enter_def with_room_def joined_events_def Let_def\<close>)

lemma safe_accept_move:
  assumes s: "server_inv s" and me: "client_heap (srv_reg s) ca = Some me"
    and r: "room_heap (srv_reg s) ra = Some r"
    and fit: "member_count r < member_capacity r \<or> current_room me = Some ra"
  shows "safe_result s (accept_move e f ca me ra s)"
proof (cases "current_room me")
  case None
  then show ?thesis
    unfolding accept_move_def using safe_accept_enter [OF s me None r] fit by simp
next
  case (Some old)
  from leave_room [OF s me Some] obtain g1 ro r' where
    g1: "room_remove_member (srv_reg s) (Some old) (Some ca) = (ROOM_OK, g1)"
    "registry_inv (set_room g1 ca None)" "idents g1 = idents (srv_reg s)"
    "client_heap (set_room g1 ca None) ca = Some (me\<lparr>current_room := None\<rparr>)"
    "room_heap (srv_reg s) old = Some ro"
    "room_heap g1 = (room_heap (srv_reg s))(old \<mapsto> r')" "member_count r' < member_capacity r'" by blast
  let ?s = "set_reg s (set_room g1 ca None)"
  obtain r3 where "room_heap (srv_reg ?s) ra = Some r3" "member_count r3 < member_capacity r3"
    using g1(6,7) r fit Some by (cases "ra = old") auto
  then have "safe_result ?s (accept_enter e f ca me ra ?s)"
    using g1(2,4) s by (intro safe_accept_enter) auto
  with Some g1 show ?thesis by (simp add: accept_move_def safe_result_def with_room_def)
qed

lemma safe_accept:
  assumes s: "server_inv s" and live: "client_heap (srv_reg s) ca \<noteq> None" and fits: "accept_fits ca c s"
  shows "safe_result s (handle_accept e f ca c s)"
proof (cases "arg1 c")
  case (Some nm)
  obtain me where me: "client_heap (srv_reg s) ca = Some me" using live by auto
  define db1 where "db1 = snd (invite_find e (srv_db s) nm (client_name me))"
  have d1: "store_inv db1" unfolding db1_def by (rule store_inv_flag_ops(8) [OF server_invD(2) [OF s]])
  have d2: "store_inv (snd (invite_accept e db1 nm (client_name me)))" by (rule store_inv_flag_ops(7) [OF d1])
  define s2 where "s2 = set_db s (snd (invite_accept e db1 nm (client_name me)))"
  have s2: "server_inv s2" "srv_reg s2 = srv_reg s" using s d2 by (simp_all add: s2_def)
  have "safe_result s2 (accept_move e f ca me ra s2)" if ra: "fst (find_room (srv_reg s) nm) = Some ra" for ra
  proof -
    obtain r where r: "room_heap (srv_reg s) ra = Some r"
      using found_room [OF server_invD(1) [OF s], of nm ra] ra by (metis prod.collapse)
    with s2 me fits Some ra show ?thesis
      by (intro safe_accept_move [where r = r]) (auto simp: accept_fits_def)
  qed
  then have "safe_result s (case fst (find_room (srv_reg s2) nm) of None \<Rightarrow> err f ''ROOM_NOT_FOUND'' s2
      | Some ra \<Rightarrow> accept_move e f ca me ra s2)"
    using s2 by (auto simp: safe_result_def err_def split: option.split)
  then show ?thesis
    using Some me s d1 s2
    by (simp add: handle_accept_def deref_defs split_beta db1_def [symmetric] s2_def [symmetric])
qed (use s in \<open>simp add: handle_accept_def deref_defs\<close>)

interpretation block: command handle_block always
  by unfold_locales (rule safe_block)

interpretation unblock: command handle_unblock always
  by unfold_locales (rule safe_unblock)

interpretation mute: command handle_mute always
  by unfold_locales (rule safe_mute)

interpretation unmute: command handle_unmute always
  by unfold_locales (rule safe_unmute)

interpretation ban: command handle_ban always
  by unfold_locales (rule safe_ban)

interpretation demote: command handle_demote always
  by unfold_locales (rule safe_demote)

interpretation create_private: command handle_create_private always
  by unfold_locales (rule safe_create_private)

interpretation invite: command handle_invite always
  by unfold_locales (rule safe_invite)

interpretation accept: command handle_accept accept_fits
  by unfold_locales (rule safe_accept)

interpretation decline: command handle_decline always
  by unfold_locales (rule safe_decline)

end
