(* ===== verification/Account_Commands.thy ===== *)
theory Account_Commands
  imports Room_Commands
begin

text \<open>
  The commands that begin and end the life of a client object: \<open>REGISTER\<close>, \<open>LOGIN\<close>, \<open>RECONNECT\<close>,
  \<open>LOGOUT\<close>, \<open>LOGOUT_ALL\<close> and the clean-up of a closed connection, and the session commands
  \<open>SESSIONS\<close> and \<open>REVOKE_SESSION\<close>.  The first three return the new \<open>conn->me\<close> too and are partial:
  \<open>None\<close> is a run in which \<open>db_create_session\<close> does not return.
\<close>

section \<open>Beginning\<close>

type_synonym login = "(event list \<times> addr option \<times> server) option"

text \<open>\<open>create_client_force\<close>: no initialisation and no test for the name.\<close>

definition create_client_force :: "env \<Rightarrow> registry \<Rightarrow> fd \<Rightarrow> string \<Rightarrow> addr option \<times> client_err \<times> registry" where
  "create_client_force e g f nm =
     (if length nm = 0 \<or> length nm \<ge> MAX_USERNAME_LEN then (None, CLIENT_ERR_INVALID_NAME, g)
      else if client_capacity g = 0 \<or> client_list g = [] then (None, CLIENT_ERR_MAX_CLIENTS, g)
      else if client_count g \<ge> client_capacity g then (None, CLIENT_ERR_MAX_CLIENTS, g)
      else case env_alloc_client e of
        None \<Rightarrow> (None, CLIENT_ERR_ALLOC_FAILED, g)
      | Some a \<Rightarrow> (Some a, CLIENT_OK, add_client g a (new_client e f nm)))"

text \<open>The choice between the two at login and reconnect.\<close>

definition attach_client :: "env \<Rightarrow> registry \<Rightarrow> fd \<Rightarrow> string \<Rightarrow> addr option \<times> client_err \<times> registry" where
  "attach_client e g f nm =
     (if fst (find_client g nm) \<noteq> None then create_client_force e g f nm else create_client e g f nm)"

definition refuse :: "fd \<Rightarrow> string \<Rightarrow> server \<Rightarrow> addr option \<Rightarrow> login" where
  "refuse f code s me = Some ([err_reply f code], me, s)"

definition open_session :: "env \<Rightarrow> fd \<Rightarrow> string \<Rightarrow> string \<Rightarrow> addr option \<Rightarrow> server \<Rightarrow> login" where
  "open_session e f username code me s =
     map_option (\<lambda>(tok, db1).
         ([case tok of Some t \<Rightarrow> Reply f (format_ok_session MAX_LINE_LEN code t) | None \<Rightarrow> ok_reply f code],
          me, set_db s db1))
       (db_create_session e (srv_db s) 0 username 65)"

fun register_code :: "client_err \<Rightarrow> string" where
  "register_code CLIENT_ERR_ALREADY_EXISTS = ''USERNAME_TAKEN''"
| "register_code CLIENT_ERR_INVALID_NAME = ''INVALID_USERNAME''"
| "register_code CLIENT_ERR_MAX_CLIENTS = ''MAX_CLIENT_COUNT_REACHED''"
| "register_code _ = ''SERVER_ERROR''"

definition handle_register :: "env \<Rightarrow> fd \<Rightarrow> addr option \<Rightarrow> cmd \<Rightarrow> server \<Rightarrow> login" where
  "handle_register e f me c s =
     (if me \<noteq> None then refuse f ''ALREADY_REGISTERED'' s me
      else case (arg1 c, arg2 c) of
        (Some username, Some password) \<Rightarrow>
          (let (rc, db1) = db_register_user e (srv_db s) username password; s1 = set_db s db1 in
           if rc = -1 then refuse f ''USERNAME_TAKEN'' s1 None
           else if rc = -2 then refuse f ''SERVER_ERROR'' s1 None
           else if fst (find_client (srv_reg s1) username) \<noteq> None then refuse f ''USERNAME_TAKEN'' s1 None
           else
             let (p, cerr, g1) = create_client e (srv_reg s1) f username; s2 = set_reg s1 g1 in
             if cerr = CLIENT_OK then open_session e f username ''REGISTERED'' p s2
             else refuse f (register_code cerr) s2 p)
      | _ \<Rightarrow> refuse f ''INVALID_COMMAND'' s None)"

fun login_code :: "client_err \<Rightarrow> string" where
  "login_code CLIENT_ERR_ALREADY_EXISTS = ''USERNAME_TAKEN''"
| "login_code CLIENT_ERR_MAX_CLIENTS = ''MAX_CLIENT_COUNT_REACHED''"
| "login_code _ = ''SERVER_ERROR''"

definition handle_login :: "env \<Rightarrow> fd \<Rightarrow> addr option \<Rightarrow> cmd \<Rightarrow> server \<Rightarrow> login" where
  "handle_login e f me c s =
     (if me \<noteq> None then refuse f ''ALREADY_REGISTERED'' s me
      else case (arg1 c, arg2 c) of
        (Some username, Some password) \<Rightarrow>
          (let verify = db_verify_user e (srv_db s) username password in
           if verify = -1 then refuse f ''UNKNOWN_USER'' s None
           else if verify = -2 then refuse f ''WRONG_PASSWORD'' s None
           else if verify = -3 then refuse f ''SERVER_ERROR'' s None
           else
             let (p, cerr, g1) = attach_client e (srv_reg s) f username; s1 = set_reg s g1 in
             if cerr = CLIENT_OK then open_session e f username ''LOGGED_IN'' p s1
             else refuse f (login_code cerr) s1 None)
      | _ \<Rightarrow> refuse f ''INVALID_COMMAND'' s None)"

text \<open>\<open>RECONNECT\<close> once the token has been validated for \<open>username\<close>.\<close>

definition reconnect_as :: "env \<Rightarrow> fd \<Rightarrow> string \<Rightarrow> string \<Rightarrow> server \<Rightarrow> login" where
  "reconnect_as e f tok username s =
     (if \<not> db_user_exists e (srv_db s) username
      then refuse f ''UNKNOWN_USER'' (set_db s (snd (db_delete_session e (srv_db s) tok))) None
      else
        let (p, cerr, g1) = attach_client e (srv_reg s) f username; s1 = set_reg s g1 in
        if cerr \<noteq> CLIENT_OK
        then refuse f (if cerr = CLIENT_ERR_MAX_CLIENTS then ''MAX_CLIENT_COUNT_REACHED'' else ''SERVER_ERROR'') s1 None
        else open_session e f username ''RECONNECTED'' p (set_db s1 (snd (db_delete_session e (srv_db s) tok))))"

definition handle_reconnect :: "env \<Rightarrow> fd \<Rightarrow> addr option \<Rightarrow> cmd \<Rightarrow> server \<Rightarrow> login" where
  "handle_reconnect e f me c s =
     (if me \<noteq> None then refuse f ''ALREADY_REGISTERED'' s me
      else case arg1 c of
        None \<Rightarrow> refuse f ''INVALID_COMMAND'' s None
      | Some tok \<Rightarrow>
          (let db1 = snd (db_cleanup_expired_sessions e (srv_db s));
               (valid, who, db2) = db_validate_session e db1 tok MAX_USERNAME_LEN; s2 = set_db s db2 in
           if valid = -1 then refuse f ''INVALID_TOKEN'' s2 None
           else if valid = -2 then refuse f ''SESSION_EXPIRED'' s2 None
           else if valid \<noteq> 0 then refuse f ''SERVER_ERROR'' s2 None
           else reconnect_as e f tok (case who of None \<Rightarrow> '''' | Some u \<Rightarrow> u) s2))"

section \<open>Ending\<close>

text \<open>Taking the client out of its room, without looking at the result, and telling the others.\<close>

definition quit_room :: "string \<Rightarrow> env \<Rightarrow> fd \<Rightarrow> addr \<Rightarrow> server \<Rightarrow> (event list \<Rightarrow> client \<Rightarrow> server \<Rightarrow> response) \<Rightarrow> response" where
  "quit_room site e f ca s k = with_client site s ca (\<lambda>me.
     case current_room me of
       None \<Rightarrow> k [] me s
     | Some ra \<Rightarrow> with_room site s ra (\<lambda>r.
         let g1 = set_room (snd (room_remove_member (srv_reg s) (Some ra) (Some ca))) ca None;
             notice = format_notice MAX_LINE_LEN (client_name me) ''LEFT'' (room_name r) in
         k (room_broadcast e g1 (Some ra) notice f) me (set_reg s (room_delete_if_empty g1 (Some ra)))))"

definition handle_logout :: handler where
  "handle_logout e f ca c s = quit_room ''LOGOUT'' e f ca s (\<lambda>evs me s1.
     (evs @ [ok_reply f ''LOGOUT_OK''],
      s1\<lparr>srv_typing := presence_typing_stop (srv_typing s1) (client_name me),
         srv_reg := snd (delete_client (srv_reg s1) (Some ca))\<rparr>))"

definition handle_logout_all :: handler where
  "handle_logout_all e f ca c s = quit_room ''LOGOUT_ALL'' e f ca s (\<lambda>evs me s1.
     (evs @ [ok_reply f ''LOGOUT_OK''],
      s1\<lparr>srv_typing := presence_typing_stop (srv_typing s1) (client_name me),
         srv_db := snd (session_revoke_all e (srv_db s1) (client_name me)),
         srv_reg := snd (delete_client (srv_reg s1) (Some ca))\<rparr>))"

text \<open>The log line reads \<open>me->client_name\<close> after \<open>delete_client\<close> has freed \<open>me\<close>.\<close>

definition log_client :: "string \<Rightarrow> registry \<Rightarrow> addr \<Rightarrow> event list" where
  "log_client site g ca = (if client_heap g ca = None then [Log_freed site] else [])"

definition disconnect_cleanup :: "env \<Rightarrow> fd \<Rightarrow> addr option \<Rightarrow> server \<Rightarrow> response" where
  "disconnect_cleanup e f me s =
     (case me of
        None \<Rightarrow> ([Close f], s)
      | Some ca \<Rightarrow> quit_room ''DISCONNECT'' e f ca s (\<lambda>evs _ s1.
          let g1 = snd (delete_client (srv_reg s1) (Some ca)) in
          (evs @ log_client ''DISCONNECT'' g1 ca @ [Close f], set_reg s1 g1)))"

section \<open>Sessions\<close>

definition sessions_listing :: "session_info list \<Rightarrow> memory_error + sbuf" where
  "sessions_listing infos =
     (case sn_append MAX_LINE_LEN ([], 0) (''SESSIONS_REPLY '' @ show_int (int (length infos))) of
        Inl er \<Rightarrow> Inl er
      | Inr b \<Rightarrow>
          (case sn_appends_until MAX_LINE_LEN (MAX_LINE_LEN - 32) b
              (map (\<lambda>i. SP # take 8 (si_token i) @ ''...'') infos) of
             Inl er \<Rightarrow> Inl er
           | Inr b2 \<Rightarrow> sn_append MAX_LINE_LEN b2 [NL]))"

definition handle_sessions :: handler where
  "handle_sessions e f ca c s = with_client ''SESSIONS'' s ca (\<lambda>me.
     let (infos, db1) = session_list_for_user e (srv_db s) (client_name me) MAX_SESSIONS_PER_USER in
     listing_reply ''SESSIONS'' f (set_db s db1) (sessions_listing infos))"

fun revoke_code :: "session_err \<Rightarrow> string" where
  "revoke_code SESSION_ERR_NOT_FOUND = ''SESSION_NOT_FOUND''"
| "revoke_code _ = ''SERVER_ERROR''"

definition handle_revoke_session :: handler where
  "handle_revoke_session e f ca c s =
     with_arg f ''INVALID_COMMAND'' s (arg1 c) (\<lambda>target_token.
       let (serr, db1) = session_revoke e (srv_db s) target_token; s1 = set_db s db1 in
       if serr = SESSION_OK then with_client ''REVOKE_SESSION'' s1 ca (\<lambda>_. ok f ''SENT'' s1)
       else err f (revoke_code serr) s1)"

section \<open>The contracts\<close>

text \<open>
  Beginning: the connection keeps its client, or has none and gets a new one that carries its descriptor.
  Ending: the client disappears and nobody else.
\<close>

definition safe_login :: "server \<Rightarrow> fd \<Rightarrow> addr option \<Rightarrow> event list \<times> addr option \<times> server \<Rightarrow> bool" where
  "safe_login s f me r \<longleftrightarrow>
     (let (evs, me', s') = r; i = idents (srv_reg s); i' = idents (srv_reg s') in
      server_inv s' \<and> no_uaf evs \<and>
      (me' = me \<and> i' = i \<or> me = None \<and> (\<exists>ca u. me' = Some ca \<and> i ca = None \<and> i' = i(ca \<mapsto> (f, u)))))"

definition safe_quit :: "server \<Rightarrow> addr \<Rightarrow> response \<Rightarrow> bool" where
  "safe_quit s ca r \<longleftrightarrow> server_inv (snd r) \<and> no_uaf (fst r) \<and>
     idents (srv_reg (snd r)) = (idents (srv_reg s))(ca := None)"

text \<open>What a creation of a client does to the registry.\<close>

definition attached :: "fd \<Rightarrow> registry \<Rightarrow> addr option \<times> client_err \<times> registry \<Rightarrow> bool" where
  "attached f g r \<longleftrightarrow>
     (let (p, cerr, g') = r in registry_inv g' \<and>
      (if cerr = CLIENT_OK then \<exists>ca u. p = Some ca \<and> idents g ca = None \<and> idents g' = (idents g)(ca \<mapsto> (f, u))
       else p = None \<and> idents g' = idents g))"

lemma idents_new_client:
  "client_heap g ca = None \<Longrightarrow> client_heap g' = (client_heap g)(ca \<mapsto> new_client e f nm) \<Longrightarrow>
     idents g ca = None \<and> idents g' = (idents g)(ca \<mapsto> (f, strncpy_term MAX_USERNAME_LEN nm))"
  by (auto simp: idents_def fun_eq_iff new_client_def)

lemma attached_create:
  assumes "registry_inv g" and "fresh_blocks e g"
  shows "attached f g (create_client e g f nm)"
proof -
  obtain p cerr g' where mk: "create_client e g f nm = (p, cerr, g')" using prod_cases3 by blast
  note i = inv_create_client [OF assms mk]
  show ?thesis
  proof (cases "cerr = CLIENT_OK")
    case True
    with i obtain ca where "p = Some ca" "client_heap g ca = None"
      "client_heap g' = (client_heap g)(ca \<mapsto> new_client e f nm)" by auto
    with idents_new_client i True show ?thesis by (auto simp: attached_def mk)
  next
    case False
    with i show ?thesis by (auto simp: attached_def mk intro: idents_heap)
  qed
qed

lemma attached_force:
  assumes inv: "registry_inv g" and fr: "fresh_blocks e g"
  shows "attached f g (create_client_force e g f nm)"
proof (cases "\<exists>ca. create_client_force e g f nm = (Some ca, CLIENT_OK, add_client g ca (new_client e f nm))")
  case True
  then obtain ca where mk: "create_client_force e g f nm = (Some ca, CLIENT_OK, add_client g ca (new_client e f nm))" by auto
  then have c: "env_alloc_client e = Some ca" "client_count g < client_capacity g" "0 < length nm" "length nm < MAX_USERNAME_LEN"
    by (auto simp: create_client_force_def split: if_splits option.splits)
  have "client_heap g ca = None" using fr c(1) by (auto simp: fresh_blocks_def)
  from idents_new_client [OF this, of "add_client g ca (new_client e f nm)"] inv_new_client [OF inv fr c, of f]
  show ?thesis by (auto simp: attached_def mk add_client_def)
next
  case False
  then show ?thesis using inv
    by (auto simp: attached_def create_client_force_def split: if_splits option.splits)
qed

lemma attached_client: "registry_inv g \<Longrightarrow> fresh_blocks e g \<Longrightarrow> attached f g (attach_client e g f nm)"
  by (simp add: attach_client_def attached_create attached_force)

lemma safe_refuse:
  "server_inv s' \<Longrightarrow> idents (srv_reg s') = idents (srv_reg s) \<Longrightarrow> refuse f code s' me = Some r \<Longrightarrow> safe_login s f me r"
  by (auto simp: refuse_def safe_login_def)

lemma safe_open_session:
  assumes att: "attached f (srv_reg s) (p, CLIENT_OK, srv_reg s1)" and s1: "server_inv s1"
    and r: "open_session e f u code p s1 = Some r"
  shows "safe_login s f None r"
proof -
  from r obtain tok db1 where db1: "db_create_session e (srv_db s1) 0 u 65 = Some (tok, db1)"
    and r': "r = ([case tok of Some t \<Rightarrow> Reply f (format_ok_session MAX_LINE_LEN code t) | None \<Rightarrow> ok_reply f code],
        p, set_db s1 db1)"
    by (auto simp: open_session_def)
  have "store_inv db1" using store_inv_create_session [OF server_invD(2) [OF s1] db1] by simp
  with att s1 show ?thesis by (auto simp: safe_login_def r' attached_def split: option.split)
qed

text \<open>A session for the new client, or an error without one.\<close>

lemma safe_attach:
  assumes att: "attached f (srv_reg s) (p, cerr, g)" and "server_inv s1" "srv_reg s1 = g" and "server_inv s2" "srv_reg s2 = g"
    and r: "(if cerr = CLIENT_OK then open_session e f u code p s1 else refuse f code2 s2 q) = Some r"
    and "q = p \<or> q = None"
  shows "safe_login s f None r"
proof (cases "cerr = CLIENT_OK")
  case True
  with assms show ?thesis by (intro safe_open_session [of f s p s1 e u code]) simp_all
next
  case False
  with assms show ?thesis by (intro safe_refuse [of s2 s f code2]) (auto simp: attached_def)
qed

lemma attached_inv: "server_inv s \<Longrightarrow> attached f (srv_reg s) (p, cerr, g) \<Longrightarrow> server_inv (set_reg s g)"
  by (simp add: attached_def)

lemma safe_register:
  assumes s: "server_inv s" and fr: "fresh_blocks e (srv_reg s)" and r: "handle_register e f me c s = Some r"
  shows "safe_login s f me r"
proof (cases "\<exists>u pw. me = None \<and> arg1 c = Some u \<and> arg2 c = Some pw")
  case False
  with r s show ?thesis
    by (auto simp: handle_register_def split: if_splits option.splits intro: safe_refuse)
next
  case True
  then obtain u pw where args: "me = None" "arg1 c = Some u" "arg2 c = Some pw" by auto
  obtain rc db1 where db1: "db_register_user e (srv_db s) u pw = (rc, db1)" by force
  obtain p cerr g1 where mk: "create_client e (srv_reg s) f u = (p, cerr, g1)" using prod_cases3 by blast
  have s1: "server_inv (set_db s db1)"
    using s store_inv_register [OF server_invD(2) [OF s], of e u pw] db1 by simp
  have att: "attached f (srv_reg s) (p, cerr, g1)"
    using attached_create [OF server_invD(1) [OF s] fr, of f u] mk by simp
  note s2 = attached_inv [OF s1, of f p cerr g1]
  have last: "safe_login s f None r" if "(if cerr = CLIENT_OK then open_session e f u ''REGISTERED'' p (set_reg (set_db s db1) g1)
      else refuse f (register_code cerr) (set_reg (set_db s db1) g1) p) = Some r"
    using safe_attach [OF att _ _ _ _ that] att s2 by simp
  show ?thesis
    using r args s1 last
    by (auto simp: handle_register_def db1 mk Let_def split: if_splits intro: safe_refuse)
qed

lemma safe_login_cmd:
  assumes s: "server_inv s" and fr: "fresh_blocks e (srv_reg s)" and r: "handle_login e f me c s = Some r"
  shows "safe_login s f me r"
proof (cases "\<exists>u pw. me = None \<and> arg1 c = Some u \<and> arg2 c = Some pw")
  case False
  with r s show ?thesis
    by (auto simp: handle_login_def split: if_splits option.splits intro: safe_refuse)
next
  case True
  then obtain u pw where args: "me = None" "arg1 c = Some u" "arg2 c = Some pw" by auto
  obtain p cerr g1 where mk: "attach_client e (srv_reg s) f u = (p, cerr, g1)" using prod_cases3 by blast
  have att: "attached f (srv_reg s) (p, cerr, g1)"
    using attached_client [OF server_invD(1) [OF s] fr, of f u] mk by simp
  have last: "safe_login s f None r" if "(if cerr = CLIENT_OK then open_session e f u ''LOGGED_IN'' p (set_reg s g1)
      else refuse f (login_code cerr) (set_reg s g1) None) = Some r"
    using safe_attach [OF att _ _ _ _ that] attached_inv [OF s att] by simp
  show ?thesis
    using r args s last
    by (auto simp: handle_login_def mk Let_def split: if_splits intro: safe_refuse)
qed

lemma safe_reconnect_as:
  assumes s: "server_inv s" and fr: "fresh_blocks e (srv_reg s)" and r: "reconnect_as e f tok u s = Some r"
  shows "safe_login s f None r"
proof -
  obtain p cerr g1 where mk: "attach_client e (srv_reg s) f u = (p, cerr, g1)" using prod_cases3 by blast
  have att: "attached f (srv_reg s) (p, cerr, g1)"
    using attached_client [OF server_invD(1) [OF s] fr, of f u] mk by simp
  let ?d = "snd (db_delete_session e (srv_db s) tok)"
  have d: "server_inv (set_db s ?d)" using s by (simp add: store_inv_delete_session server_invD)
  have last: "safe_login s f None r" if "(if cerr = CLIENT_OK then open_session e f u ''RECONNECTED'' p (set_db (set_reg s g1) ?d)
      else refuse f (if cerr = CLIENT_ERR_MAX_CLIENTS then ''MAX_CLIENT_COUNT_REACHED'' else ''SERVER_ERROR'') (set_reg s g1) None) = Some r"
    using safe_attach [OF att _ _ _ _ that] attached_inv [OF s att] server_invD(2) [OF d] by simp
  show ?thesis
    using r d last
    by (auto simp: reconnect_as_def mk Let_def split: if_splits intro: safe_refuse)
qed

lemma safe_reconnect:
  assumes s: "server_inv s" and fr: "fresh_blocks e (srv_reg s)" and r: "handle_reconnect e f me c s = Some r"
  shows "safe_login s f me r"
proof (cases "\<exists>tok. me = None \<and> arg1 c = Some tok")
  case False
  with r s show ?thesis
    by (auto simp: handle_reconnect_def split: if_splits option.splits intro: safe_refuse)
next
  case True
  then obtain tok where args: "me = None" "arg1 c = Some tok" by auto
  let ?db1 = "snd (db_cleanup_expired_sessions e (srv_db s))"
  obtain valid who db2 where v: "db_validate_session e ?db1 tok 32 = (valid, who, db2)" using prod_cases3 by blast
  have "store_inv db2"
    using store_inv_validate [OF store_inv_cleanup [OF server_invD(2) [OF s], of e], of e tok 32] v by simp
  then have s2: "server_inv (set_db s db2)" using s by simp
  have "safe_login s f None r" if "reconnect_as e f tok u (set_db s db2) = Some r" for u
    using safe_reconnect_as [OF s2 _ that] fr by (simp add: safe_login_def)
  then show ?thesis
    using r args s2
    by (auto simp: handle_reconnect_def v Let_def split: if_splits intro: safe_refuse)
qed

subsection \<open>Ending\<close>

text \<open>After leaving its room the client can be deleted.\<close>

lemma safe_quit_room:
  assumes s: "server_inv s" and live: "client_heap (srv_reg s) ca \<noteq> None"
    and k: "\<And>evs me me' s1. client_heap (srv_reg s) ca = Some me \<Longrightarrow> client_heap (srv_reg s1) ca = Some me' \<Longrightarrow>
      current_room me' = None \<Longrightarrow> server_inv s1 \<Longrightarrow> idents (srv_reg s1) = idents (srv_reg s) \<Longrightarrow>
      no_uaf evs \<Longrightarrow> safe_quit s ca (k evs me s1)"
  shows "safe_quit s ca (quit_room site e f ca s k)"
proof -
  obtain me where me: "client_heap (srv_reg s) ca = Some me" using live by auto
  show ?thesis
  proof (cases "current_room me")
    case None
    with k [OF me me None s] me show ?thesis by (simp add: quit_room_def with_client_def)
  next
    case (Some ra)
    from leave_room [OF s me Some] obtain g1 r where
      g1: "room_remove_member (srv_reg s) (Some ra) (Some ca) = (ROOM_OK, g1)"
      "registry_inv (set_room g1 ca None)" "idents g1 = idents (srv_reg s)"
      "client_heap (set_room g1 ca None) ca = Some (me\<lparr>current_room := None\<rparr>)"
      "room_heap (srv_reg s) ra = Some r" by blast
    let ?s1 = "set_reg s (room_delete_if_empty (set_room g1 ca None) (Some ra))"
    have "client_heap (room_delete_if_empty g rp) = client_heap g" for g rp
      by (auto simp: room_delete_if_empty_def delete_room_def room_destroy_def Let_def split: option.split)
    with g1(4) have "client_heap (srv_reg ?s1) ca = Some (me\<lparr>current_room := None\<rparr>)" by simp
    from k [OF me this] s g1(2,3) have "no_uaf evs \<Longrightarrow> safe_quit s ca (k evs me ?s1)" for evs
      by (simp add: inv_delete_if_empty)
    with me Some g1 show ?thesis by (simp add: quit_room_def deref_defs)
  qed
qed

lemma idents_delete_client:
  assumes "registry_inv g" and "client_heap g ca = Some c" and "current_room c = None"
  shows "idents (snd (delete_client g (Some ca))) = (idents g)(ca := None)"
  using inv_delete_client(3) [OF assms] by (auto simp: idents_def fun_eq_iff)

lemma safe_logout:
  assumes s: "server_inv s" and live: "client_heap (srv_reg s) ca \<noteq> None"
  shows "safe_quit s ca (handle_logout e f ca c s)"
  unfolding handle_logout_def
proof (rule safe_quit_room [OF s live])
  fix evs me me' s1
  assume me: "client_heap (srv_reg s) ca = Some me" and s1: "client_heap (srv_reg s1) ca = Some me'" "current_room me' = None"
    "server_inv s1" "idents (srv_reg s1) = idents (srv_reg s)" "no_uaf evs"
  note reg = server_invD(1) [OF s1(3)]
  show "safe_quit s ca (evs @ [ok_reply f ''LOGOUT_OK''],
      s1\<lparr>srv_typing := presence_typing_stop (srv_typing s1) (client_name me),
         srv_reg := snd (delete_client (srv_reg s1) (Some ca))\<rparr>)"
    using s1 inv_delete_client(1) [OF reg s1(1,2)] idents_delete_client [OF reg s1(1,2)]
      typing_inv_stop [OF server_invD(3) [OF s1(3)] client_name_short [OF s me]]
    by (simp add: safe_quit_def server_inv_def)
qed

lemma safe_logout_all:
  assumes s: "server_inv s" and live: "client_heap (srv_reg s) ca \<noteq> None"
  shows "safe_quit s ca (handle_logout_all e f ca c s)"
  unfolding handle_logout_all_def
proof (rule safe_quit_room [OF s live])
  fix evs me me' s1
  assume me: "client_heap (srv_reg s) ca = Some me" and s1: "client_heap (srv_reg s1) ca = Some me'" "current_room me' = None"
    "server_inv s1" "idents (srv_reg s1) = idents (srv_reg s)" "no_uaf evs"
  note reg = server_invD(1) [OF s1(3)]
  show "safe_quit s ca (evs @ [ok_reply f ''LOGOUT_OK''],
      s1\<lparr>srv_typing := presence_typing_stop (srv_typing s1) (client_name me),
         srv_db := snd (session_revoke_all e (srv_db s1) (client_name me)),
         srv_reg := snd (delete_client (srv_reg s1) (Some ca))\<rparr>)"
    using s1 inv_delete_client(1) [OF reg s1(1,2)] idents_delete_client [OF reg s1(1,2)]
      store_inv_revoke_all [OF server_invD(2) [OF s1(3)]]
      typing_inv_stop [OF server_invD(3) [OF s1(3)] client_name_short [OF s me]]
    by (simp add: safe_quit_def server_inv_def)
qed

lemma safe_disconnect:
  assumes s: "server_inv s" and live: "client_heap (srv_reg s) ca \<noteq> None"
  shows "safe_quit s ca (disconnect_cleanup e f (Some ca) s)"
  unfolding disconnect_cleanup_def option.case Let_def
proof (rule safe_quit_room [OF s live])
  fix evs me' s1
  assume s1: "client_heap (srv_reg s1) ca = Some me'" "current_room me' = None"
    "server_inv s1" "idents (srv_reg s1) = idents (srv_reg s)" "no_uaf evs"
  note reg = server_invD(1) [OF s1(3)]
  show "safe_quit s ca (evs @ log_client ''DISCONNECT'' (snd (delete_client (srv_reg s1) (Some ca))) ca @ [Close f],
      set_reg s1 (snd (delete_client (srv_reg s1) (Some ca))))"
    using s1 inv_delete_client(1) [OF reg s1(1,2)] idents_delete_client [OF reg s1(1,2)]
    by (simp add: safe_quit_def log_client_def)
qed

subsection \<open>Sessions\<close>

lemma safe_sessions:
  assumes s: "server_inv s" and live: "client_heap (srv_reg s) ca \<noteq> None"
  shows "safe_result s (handle_sessions e f ca c s)"
proof -
  obtain me where me: "client_heap (srv_reg s) ca = Some me" using live by auto
  let ?l = "session_list_for_user e (srv_db s) (client_name me) 16"
  have "server_inv (set_db s (snd ?l))" using s by (simp add: store_inv_list server_invD)
  from safe_listing [OF this] me show ?thesis
    by (simp add: handle_sessions_def with_client_def split_beta safe_result_def)
qed

lemma safe_revoke_session:
  assumes s: "server_inv s" and live: "client_heap (srv_reg s) ca \<noteq> None"
  shows "safe_result s (handle_revoke_session e f ca c s)"
  unfolding handle_revoke_session_def using s live
  by (auto simp: split_beta Let_def store_inv_revoke server_invD intro!: safe_with_arg safe_with_client)

interpretation list_sessions: command handle_sessions always
  by unfold_locales (rule safe_sessions)

interpretation revoke_session: command handle_revoke_session always
  by unfold_locales (rule safe_revoke_session)

end
