(* ===== verification/Client_Handler.thy ===== *)
theory Client_Handler
  imports Message_Commands Moderation_Commands Account_Commands
begin

text \<open>
  The command dispatcher \<open>process_line\<close>, the reading and line splitting of \<open>handle_client\<close>
  (\<open>src/client_handler.c\<close>) and the system of all connections as a step relation: a connection is
  accepted, a line of it is processed, it is closed, or the stale typing states are cleaned up.
\<close>

section \<open>Dispatch\<close>

definition handle_invalid :: handler where
  "handle_invalid e f ca c s = err f ''INVALID_COMMAND'' s"

text \<open>The cases of the switch that are entered with a client and leave \<open>conn->me\<close> alone.\<close>

definition handler_of :: "cmd_type \<Rightarrow> handler" where
  "handler_of ty = (case ty of
     TYPE_CREATE \<Rightarrow> handle_create | TYPE_JOIN \<Rightarrow> handle_join | TYPE_LEAVE \<Rightarrow> handle_leave
   | TYPE_KICK \<Rightarrow> handle_kick | TYPE_PROMOTE \<Rightarrow> handle_promote | TYPE_MSG \<Rightarrow> handle_msg
   | TYPE_EDIT \<Rightarrow> handle_edit | TYPE_DELETE \<Rightarrow> handle_delete | TYPE_HISTORY \<Rightarrow> handle_history
   | TYPE_PM \<Rightarrow> handle_pm | TYPE_ROOMS \<Rightarrow> handle_rooms | TYPE_STATUS \<Rightarrow> handle_status
   | TYPE_WHO \<Rightarrow> handle_who | TYPE_SESSIONS \<Rightarrow> handle_sessions
   | TYPE_REVOKE_SESSION \<Rightarrow> handle_revoke_session | TYPE_READ \<Rightarrow> handle_read
   | TYPE_TYPING \<Rightarrow> handle_typing | TYPE_STOP_TYPING \<Rightarrow> handle_stop_typing
   | TYPE_BLOCK \<Rightarrow> handle_block | TYPE_UNBLOCK \<Rightarrow> handle_unblock | TYPE_MUTE \<Rightarrow> handle_mute
   | TYPE_UNMUTE \<Rightarrow> handle_unmute | TYPE_BAN \<Rightarrow> handle_ban | TYPE_DEMOTE \<Rightarrow> handle_demote
   | TYPE_CREATE_PRIVATE \<Rightarrow> handle_create_private | TYPE_INVITE \<Rightarrow> handle_invite
   | TYPE_ACCEPT \<Rightarrow> handle_accept | TYPE_DECLINE \<Rightarrow> handle_decline
   | _ \<Rightarrow> handle_invalid)"

definition health_reply :: "env \<Rightarrow> server \<Rightarrow> string" where
  "health_reply e s = snprintf_out MAX_LINE_LEN
     (''OK HEALTH uptime='' @ show_int (env_now e - sint (uptime_start (srv_metrics s))) @
      '' active='' @ show_int (signed_take_bit 31 (sint (active_connections (srv_metrics s)))) @ [NL])"

text \<open>
  \<open>process_line\<close>: what is sent, the result (1: the connection should be closed), the connection and
  the shared state; \<open>None\<close> when the call does not return.
\<close>

definition process_line :: "env \<Rightarrow> conn \<Rightarrow> server \<Rightarrow> string \<Rightarrow> (event list \<times> int \<times> conn \<times> server) option" where
  "process_line e c s line =
     (let command = parse_line line; f = conn_fd c; ty = ctype command;
          began = map_option (\<lambda>(evs, me, s'). (evs, 0, c\<lparr>conn_me := me\<rparr>, s'));
          ended = (\<lambda>(evs, s'). Some (evs, 1, c\<lparr>conn_me := None\<rparr>, s')) in
      if ty = TYPE_INVALID \<and> arg1 command = Some ''HEALTH'' then Some ([Reply f (health_reply e s)], 0, c, s)
      else if ty = TYPE_INVALID \<and> arg1 command = Some ''READY''
      then Some ([Reply f (snprintf_out MAX_LINE_LEN (''OK READY ok'' @ [NL]))], 0, c, s)
      else if ty = TYPE_REGISTER then began (handle_register e f (conn_me c) command s)
      else if ty = TYPE_LOGIN then began (handle_login e f (conn_me c) command s)
      else if ty = TYPE_RECONNECT then began (handle_reconnect e f (conn_me c) command s)
      else case conn_me c of
        None \<Rightarrow> Some ([err_reply f ''NOT_REGISTERED''], 0, c, s)
      | Some ca \<Rightarrow>
          if ty = TYPE_LOGOUT then ended (handle_logout e f ca command s)
          else if ty = TYPE_LOGOUT_ALL then ended (handle_logout_all e f ca command s)
          else let (evs, s') = handler_of ty e f ca command s in Some (evs, 0, c, s'))"

section \<open>Reading and splitting into lines\<close>

text \<open>The results of \<open>conn_recv\<close>: data, 0, -1 with \<open>EAGAIN\<close>, -1 with another error.\<close>

datatype recv_result = Received "char list" | Peer_closed | Would_block | Recv_error

text \<open>The read loop: whether it ends disconnected, and the connection with the longer buffer.\<close>

fun recv_loop :: "recv_result list \<Rightarrow> conn \<Rightarrow> bool \<times> conn" where
  "recv_loop [] c = (False, c)"
| "recv_loop (r # rs) c =
     (if length (conn_buf c) < CONN_BUF_SIZE - 1
      then case r of
          Received bs \<Rightarrow> recv_loop rs (c\<lparr>conn_buf := conn_buf c @ bs\<rparr>)
        | Peer_closed \<Rightarrow> (True, c)
        | Would_block \<Rightarrow> (False, c)
        | Recv_error \<Rightarrow> (True, c)
      else (False, c))"

text \<open>
  The line before the newline at \<open>nl\<close>: a final carriage return is overwritten with \<open>NUL\<close>, and
  the handlers read up to the first \<open>NUL\<close>.
\<close>

definition line_of :: "char list \<Rightarrow> string" where
  "line_of raw = cstr (if raw \<noteq> [] \<and> last raw = CR then butlast raw else raw)"

function process_lines ::
  "(nat \<Rightarrow> env) \<Rightarrow> nat \<Rightarrow> conn \<Rightarrow> server \<Rightarrow> (event list \<times> conn \<times> server) option" where
  "process_lines es i c s =
     (let buf = conn_buf c; raw = takeWhile (\<lambda>x. x \<noteq> NL) buf in
      if NL \<notin> set buf then Some ([], c, s)
      else case process_line (es i) c s (line_of raw) of
        None \<Rightarrow> None
      | Some (evs, _, c1, s1) \<Rightarrow>
          map_option (\<lambda>(evs2, r). (evs @ evs2, r))
            (process_lines es (Suc i) (c1\<lparr>conn_buf := drop (length raw + 1) buf\<rparr>) s1))"
  by pat_completeness auto
termination
  by (relation "measure (\<lambda>(es, i, c, s). length (conn_buf c))")
    (auto simp: length_greater_0_conv [symmetric] simp del: length_greater_0_conv dest: length_pos_if_in_set)

declare process_lines.simps [simp del]

text \<open>\<open>handle_client\<close>: \<open>None\<close> as third component is the freed connection.\<close>

definition handle_client ::
  "(nat \<Rightarrow> env) \<Rightarrow> recv_result list \<Rightarrow> conn \<Rightarrow> server \<Rightarrow> (event list \<times> conn option \<times> server) option" where
  "handle_client es rs c s =
     (let (disconnected, c1) = (if conn_closing c then (True, c) else recv_loop rs c) in
      if disconnected
      then let (evs, s') = disconnect_cleanup (es 0) (conn_fd c) (conn_me c1) s in Some (evs, None, s')
      else map_option (\<lambda>(evs, c2, s'). (evs, Some c2, s')) (process_lines es 0 c1 s))"

end
