(* ===== verification/System.thy ===== *)
theory System
  imports Client_Handler
begin

text \<open>
  The server as a whole: the open connections beside the shared state, and the steps that a worker
  thread and the main loop (\<open>src/server.c\<close>, \<open>run_server\<close>) take one after the other.  The invariant of
  the system ties connections to client objects; every reachable state satisfies it and no
  step from one uses a freed object.
\<close>

section \<open>The dispatcher fulfils the contract\<close>

interpretation invalid: command handle_invalid always
  by unfold_locales (simp add: handle_invalid_def)

definition dispatch_guard :: "cmd_type \<Rightarrow> addr \<Rightarrow> cmd \<Rightarrow> server \<Rightarrow> bool" where
  "dispatch_guard ty ca c s \<longleftrightarrow> (ty = TYPE_ACCEPT \<longrightarrow> accept_fits ca c s)"

lemmas handlers_safe = create.safe join.safe leave.safe kick.safe promote.safe msg.safe edit.safe
  delete.safe history.safe pm.safe rooms.safe set_status.safe who.safe list_sessions.safe
  revoke_session.safe read.safe start_typing.safe stop_typing.safe block.safe unblock.safe mute.safe
  unmute.safe ban.safe demote.safe create_private.safe invite.safe accept.safe decline.safe invalid.safe

interpretation dispatched: command "handler_of ty" "dispatch_guard ty" for ty
proof (unfold_locales, goal_cases)
  case (1 s e ca c f)
  then show ?case
    by (cases ty) (simp_all only: handler_of_def cmd_type.case handlers_safe dispatch_guard_def simp_thms)
qed

section \<open>One line\<close>

text \<open>How a line can change who is connected.\<close>

definition conn_change :: "conn \<Rightarrow> server \<Rightarrow> conn \<Rightarrow> server \<Rightarrow> bool" where
  "conn_change c s c' s' \<longleftrightarrow> conn_fd c' = conn_fd c \<and>
     (let i = idents (srv_reg s); i' = idents (srv_reg s') in
      conn_me c' = conn_me c \<and> i' = i \<or>
      conn_me c = None \<and> (\<exists>ca u. conn_me c' = Some ca \<and> i ca = None \<and> i' = i(ca \<mapsto> (conn_fd c, u))) \<or>
      (\<exists>ca. conn_me c = Some ca \<and> conn_me c' = None \<and> i' = i(ca := None)))"

definition line_guard :: "conn \<Rightarrow> server \<Rightarrow> string \<Rightarrow> bool" where
  "line_guard c s line \<longleftrightarrow>
     (\<forall>ca. conn_me c = Some ca \<longrightarrow> dispatch_guard (ctype (parse_line line)) ca (parse_line line) s)"

lemma began_safe:
  assumes "\<And>r. h = Some r \<Longrightarrow> safe_login s (conn_fd c) (conn_me c) r"
    and "map_option (\<lambda>(evs, me, s'). (evs, 0, c\<lparr>conn_me := me\<rparr>, s')) h = Some (evs, rc, c', s')"
  shows "server_inv s' \<and> no_uaf evs \<and> conn_change c s c' s'"
  using assms by (fastforce simp: safe_login_def conn_change_def Let_def)

lemma ended_safe:
  assumes "safe_quit s ca h" and "conn_me c = Some ca"
    and "(\<lambda>(evs, s'). Some (evs, 1, c\<lparr>conn_me := None\<rparr>, s')) h = Some (evs, rc, c', s')"
  shows "server_inv s' \<and> no_uaf evs \<and> conn_change c s c' s'"
  using assms by (auto simp: safe_quit_def conn_change_def split_beta)

lemma process_line_safe:
  assumes s: "server_inv s" and fr: "fresh_blocks e (srv_reg s)"
    and live: "\<And>ca. conn_me c = Some ca \<Longrightarrow> client_heap (srv_reg s) ca \<noteq> None"
    and guard: "line_guard c s line"
    and run: "process_line e c s line = Some (evs, rc, c', s')"
  shows "server_inv s' \<and> no_uaf evs \<and> conn_change c s c' s'"
proof -
  define command where "command = parse_line line"
  define ty where "ty = ctype command"
  note run' = run [unfolded process_line_def command_def [symmetric] Let_def ty_def [symmetric]]
  have same: "server_inv s \<and> no_uaf [Reply f t] \<and> conn_change c s c s" for f t
    using s by (simp add: conn_change_def)
  let ?special = "ty = TYPE_INVALID \<and> (arg1 command = Some ''HEALTH'' \<or> arg1 command = Some ''READY'')"
  consider (special) ?special | (register) "ty = TYPE_REGISTER" | (login) "ty = TYPE_LOGIN"
    | (reconnect) "ty = TYPE_RECONNECT" | (nobody) "conn_me c = None" "\<not> ?special" "ty \<notin> {TYPE_REGISTER, TYPE_LOGIN, TYPE_RECONNECT}"
    | (logout) ca where "ty = TYPE_LOGOUT" "conn_me c = Some ca"
    | (logout_all) ca where "ty = TYPE_LOGOUT_ALL" "conn_me c = Some ca"
    | (command) ca where "conn_me c = Some ca" "\<not> ?special"
        "ty \<notin> {TYPE_REGISTER, TYPE_LOGIN, TYPE_RECONNECT, TYPE_LOGOUT, TYPE_LOGOUT_ALL}"
    by (cases "conn_me c") blast+
  then show ?thesis
  proof cases
    case special
    then have "\<exists>t. evs = [Reply (conn_fd c) t] \<and> c' = c \<and> s' = s" using run' by auto
    with same show ?thesis by auto
  next
    case register
    with run' show ?thesis by (intro began_safe [OF safe_register [OF s fr]]) simp_all
  next
    case login
    with run' show ?thesis by (intro began_safe [OF safe_login_cmd [OF s fr]]) simp_all
  next
    case reconnect
    with run' show ?thesis by (intro began_safe [OF safe_reconnect [OF s fr]]) simp_all
  next
    case nobody
    with run' have "evs = [err_reply (conn_fd c) ''NOT_REGISTERED''] \<and> c' = c \<and> s' = s" by auto
    with same show ?thesis by (simp add: err_reply_def)
  next
    case (logout ca)
    with run' show ?thesis by (intro ended_safe [OF safe_logout [OF s live]]) simp_all
  next
    case (logout_all ca)
    with run' show ?thesis by (intro ended_safe [OF safe_logout_all [OF s live]]) simp_all
  next
    case (command ca)
    with run' have "handler_of ty e (conn_fd c) ca command s = (evs, s')" "c' = c"
      by (auto simp: split_beta)
    moreover have "safe_result s (handler_of ty e (conn_fd c) ca command s)"
      using dispatched.safe [OF s fr live, of ca ty command "conn_fd c"] guard command(1)
      by (simp add: line_guard_def command_def ty_def)
    ultimately show ?thesis by (simp add: conn_change_def)
  qed
qed

section \<open>The system\<close>

record system =
  sys_conns :: "fd \<rightharpoonup> conn"
  sys_srv :: server

definition conn_create :: "fd \<Rightarrow> conn" where
  "conn_create f = \<lparr>conn_fd = f, conn_buf = [], conn_me = None, conn_closing = False\<rparr>"

text \<open>
  The state \<open>run_server\<close> sets up before its loop, on the contents \<open>d\<close> of the database file; \<open>None\<close>: it exits because
  the registry cannot be allocated or the database not be opened.  The modules initialised afterwards may
  fail; the server then runs without them.
\<close>

definition server_start :: "env \<Rightarrow> server_config \<Rightarrow> store \<Rightarrow> server option" where
  "server_start e cfg d =
     (let (rc, g) = registry_init e cfg registry0; (rc2, d1) = db_open e d in
      if rc \<noteq> 0 then None
      else if rc2 \<noteq> 0 then None
      else
        let d2 = snd (receipt_init e d1); d3 = snd (ensure_block_db e d2);
            d4 = snd (ensure_perm_db e d3); d5 = snd (ensure_invite_db e d4) in
        Some \<lparr>srv_reg = g, srv_db = d5, srv_typing = presence_init [], srv_metrics = metrics_init e\<rparr>)"

text \<open>
  What a worker does with the connection \<open>f\<close> in \<open>handle_client\<close>: data arriving in the buffer, the
  first complete line of the buffer processed, the end of the connection.  Each is one step: a line is processed
  as a whole.  That is what happens when a single worker serves all connections (theory \<open>Deployment\<close>, where the steps are
  those of the worker that has the connection in hand).  With several workers the program takes its locks inside
  the calls to the registry only, so that commands of different connections may overlap; such runs are not runs of
  this relation.  What the outside gives in a step (\<open>e\<close>) is arbitrary but for the
  allocator, which returns no block in use.
\<close>

inductive serve_step :: "fd \<Rightarrow> system \<Rightarrow> event list \<Rightarrow> system \<Rightarrow> bool" where
  received: "sys_conns sy f = Some c \<Longrightarrow> recv_loop rs c = (False, c') \<Longrightarrow>
    serve_step f sy [] (sy\<lparr>sys_conns := (sys_conns sy)(f \<mapsto> c')\<rparr>)"
| line: "sys_conns sy f = Some c \<Longrightarrow> NL \<in> set (conn_buf c) \<Longrightarrow> raw = takeWhile (\<lambda>x. x \<noteq> NL) (conn_buf c) \<Longrightarrow>
    fresh_blocks e (srv_reg (sys_srv sy)) \<Longrightarrow> line_guard c (sys_srv sy) (line_of raw) \<Longrightarrow>
    process_line e c (sys_srv sy) (line_of raw) = Some (evs, rc, c', s') \<Longrightarrow>
    serve_step f sy evs \<lparr>sys_conns = (sys_conns sy)(f \<mapsto> c'\<lparr>conn_buf := drop (length raw + 1) (conn_buf c)\<rparr>), sys_srv = s'\<rparr>"
| closed: "sys_conns sy f = Some c \<Longrightarrow> disconnect_cleanup e (conn_fd c) (conn_me c) (sys_srv sy) = (evs, s') \<Longrightarrow>
    serve_step f sy evs \<lparr>sys_conns = (sys_conns sy)(f := None), sys_srv = s'\<rparr>"

text \<open>
  The steps of the server: \<open>accept\<close> in the main loop with the greeting, a step of a connection, the periodic
  clean-up of the typing states.
\<close>

inductive sys_step :: "system \<Rightarrow> event list \<Rightarrow> system \<Rightarrow> bool" where
  accepted: "sys_conns sy f = None \<Longrightarrow>
    sys_step sy [Send f [if tls then CHR ''T'' else CHR ''P'']]
      (sy\<lparr>sys_conns := (sys_conns sy)(f \<mapsto> conn_create f)\<rparr>)"
| served: "serve_step f sy evs sy' \<Longrightarrow> sys_step sy evs sy'"
| tick: "sys_step sy [] (sy\<lparr>sys_srv := (sys_srv sy)\<lparr>srv_typing := snd (presence_cleanup_stale e (srv_typing (sys_srv sy)))\<rparr>\<rparr>)"

text \<open>
  The states reached from the start, on a database whose tables respect their keys and whose message ids ascend
  (\<open>store_inv\<close>) and with a configured \<open>history_size\<close> of at most one million (a larger one breaks the
  history buffer, theory \<open>History\<close>).
\<close>

inductive reachable :: "system \<Rightarrow> bool" where
  start: "server_start e cfg d = Some s \<Longrightarrow> store_inv d \<Longrightarrow> history_size cfg \<le> 1000000 \<Longrightarrow>
    reachable \<lparr>sys_conns = Map.empty, sys_srv = s\<rparr>"
| step: "reachable sy \<Longrightarrow> sys_step sy evs sy' \<Longrightarrow> reachable sy'"

text \<open>Partial functions that are inverse to each other.\<close>

definition inverse_maps :: "('a \<rightharpoonup> 'b) \<Rightarrow> ('b \<rightharpoonup> 'a) \<Rightarrow> bool" where
  "inverse_maps p q \<longleftrightarrow> (\<forall>x y. p x = Some y \<longleftrightarrow> q y = Some x)"

lemma inverse_maps_add:
  assumes inv: "inverse_maps p q" and "p x = None" and "q y = None"
  shows "inverse_maps (p(x \<mapsto> y)) (q(y \<mapsto> x))"
proof -
  have "p a \<noteq> Some y" "q b \<noteq> Some x" for a b using assms by (auto simp: inverse_maps_def) (metis option.distinct(1))
  with inv show ?thesis by (auto simp: inverse_maps_def)
qed

lemma inverse_maps_remove:
  assumes inv: "inverse_maps p q" and "q y = Some x"
  shows "inverse_maps (p(x := None)) (q(y := None))"
proof -
  have "p a = Some y \<Longrightarrow> a = x" "q b = Some x \<Longrightarrow> b = y" for a b
    using assms unfolding inverse_maps_def by (metis option.inject)+
  with inv show ?thesis by (auto simp: inverse_maps_def)
qed

text \<open>The descriptor of each client object, and the client of each connection.\<close>

definition fd_of :: "registry \<Rightarrow> addr \<rightharpoonup> fd" where
  "fd_of g ca = map_option fst (idents g ca)"

definition me_of :: "(fd \<rightharpoonup> conn) \<Rightarrow> fd \<rightharpoonup> addr" where
  "me_of cs f = Option.bind (cs f) conn_me"

text \<open>
  The invariant of the system: every connection is found under its descriptor, and the client objects are
  exactly the clients of the connections.
\<close>

definition system_inv :: "system \<Rightarrow> bool" where
  "system_inv sy \<longleftrightarrow> server_inv (sys_srv sy) \<and>
     (\<forall>f c. sys_conns sy f = Some c \<longrightarrow> conn_fd c = f) \<and>
     inverse_maps (fd_of (srv_reg (sys_srv sy))) (me_of (sys_conns sy))"

lemma me_of_update [simp]: "me_of (cs(f := v)) = (me_of cs)(f := Option.bind v conn_me)"
  by (simp add: me_of_def fun_eq_iff)

lemma me_of_Some: "cs f = Some c \<Longrightarrow> me_of cs f = conn_me c"
  by (simp add: me_of_def)

lemma fd_of_change:
  "idents g' = idents g \<Longrightarrow> fd_of g' = fd_of g"
  "idents g' = (idents g)(ca := v) \<Longrightarrow> fd_of g' = (fd_of g)(ca := map_option fst v)"
  by (simp_all add: fd_of_def fun_eq_iff)

lemma owned_live:
  assumes "system_inv sy" and "sys_conns sy f = Some c" and "conn_me c = Some ca"
  shows "client_heap (srv_reg (sys_srv sy)) ca \<noteq> None"
proof -
  have "fd_of (srv_reg (sys_srv sy)) ca = Some f"
    using assms by (simp add: system_inv_def inverse_maps_def me_of_Some)
  then show ?thesis by (auto simp: fd_of_def idents_def)
qed

lemma inverse_maps_conn:
  assumes "inverse_maps (fd_of (srv_reg s)) (me_of cs)" and "cs f = Some c" and "conn_fd c = f"
    and "conn_change c s c' s'" and "conn_me c'' = conn_me c'"
  shows "inverse_maps (fd_of (srv_reg s')) (me_of (cs(f \<mapsto> c'')))"
proof -
  note me = me_of_Some [of cs f c, OF assms(2)]
  consider (same) "conn_me c' = conn_me c" "idents (srv_reg s') = idents (srv_reg s)"
    | (login) ca u where "conn_me c = None" "conn_me c' = Some ca" "idents (srv_reg s) ca = None"
        "idents (srv_reg s') = (idents (srv_reg s))(ca \<mapsto> (f, u))"
    | (quit) ca where "conn_me c = Some ca" "conn_me c' = None" "idents (srv_reg s') = (idents (srv_reg s))(ca := None)"
    using assms(3,4) unfolding conn_change_def Let_def by blast
  then show ?thesis
  proof cases
    case same
    then have "me_of (cs(f \<mapsto> c'')) = me_of cs" using assms(5) me by (simp add: fun_upd_idem)
    with assms(1) fd_of_change(1) [OF same(2)] show ?thesis by simp
  next
    case (login ca u)
    have "fd_of (srv_reg s) ca = None" using login(3) by (simp add: fd_of_def)
    with inverse_maps_add [OF assms(1) this, of f] login assms(5) me fd_of_change(2) [OF login(4)]
    show ?thesis by simp
  next
    case (quit ca)
    with inverse_maps_remove [OF assms(1), of f ca] assms(5) me fd_of_change(2) [OF quit(3)]
    show ?thesis by simp
  qed
qed

lemma recv_loop_same: "recv_loop rs c = (b, c') \<Longrightarrow> conn_fd c' = conn_fd c \<and> conn_me c' = conn_me c"
proof (induction rs arbitrary: c)
  case (Cons r rs)
  show ?case
  proof (cases r)
    case (Received bs)
    then show ?thesis using Cons.prems Cons.IH [of "c\<lparr>conn_buf := conn_buf c @ bs\<rparr>"] by (auto split: if_splits)
  qed (use Cons.prems in \<open>auto split: if_splits\<close>)
qed simp

text \<open>One step keeps the invariant and uses no freed object.\<close>

lemma serve_step_safe:
  assumes "serve_step f sy evs sy'" and inv: "system_inv sy"
  shows "system_inv sy' \<and> no_uaf evs"
  using assms(1)
proof cases
  case (received c rs c')
  have "conn_fd c' = f" "conn_me c' = conn_me c" "me_of (sys_conns sy) f = conn_me c"
    using recv_loop_same [OF received(4)] received inv by (auto simp: system_inv_def me_of_Some)
  with received inv show ?thesis by (auto simp: system_inv_def fun_upd_idem split: if_splits)
next
  case (line c raw e rc c' s')
  have fd: "conn_fd c = f" using line inv by (simp add: system_inv_def)
  have safe: "server_inv s' \<and> no_uaf evs \<and> conn_change c (sys_srv sy) c' s'"
    using inv owned_live [OF inv line(2)]
    by (intro process_line_safe [OF _ line(5) _ line(6,7)]) (simp_all add: system_inv_def)
  then have "inverse_maps (fd_of (srv_reg s'))
      (me_of ((sys_conns sy)(f \<mapsto> c'\<lparr>conn_buf := drop (length raw + 1) (conn_buf c)\<rparr>)))"
    using inv line(2) fd by (intro inverse_maps_conn [where c = c and s = "sys_srv sy" and c' = c']) (simp_all add: system_inv_def)
  with line safe inv fd show ?thesis by (simp add: system_inv_def conn_change_def)
next
  case (closed c e s')
  show ?thesis
  proof (cases "conn_me c")
    case None
    have "me_of (sys_conns sy) f = None" using closed None by (simp add: me_of_Some)
    with closed None inv show ?thesis
      by (auto simp: system_inv_def disconnect_cleanup_def fun_upd_idem split: if_splits)
  next
    case (Some ca)
    have safe: "safe_quit (sys_srv sy) ca (evs, s')"
      using safe_disconnect [OF _ owned_live [OF inv closed(2) Some], of e "conn_fd c"] closed(3) Some inv
      by (simp add: system_inv_def)
    then have fds: "fd_of (srv_reg s') = (fd_of (srv_reg (sys_srv sy)))(ca := None)"
      using fd_of_change(2) [of "srv_reg s'" "srv_reg (sys_srv sy)" ca None] by (simp add: safe_quit_def)
    have "inverse_maps (fd_of (srv_reg s')) ((me_of (sys_conns sy))(f := None))"
      unfolding fds using inv Some closed(2) by (intro inverse_maps_remove) (simp_all add: system_inv_def me_of_Some)
    with closed safe inv show ?thesis by (auto simp: system_inv_def safe_quit_def split: if_splits)
  qed
qed

lemma sys_step_safe:
  assumes "sys_step sy evs sy'" and inv: "system_inv sy"
  shows "system_inv sy' \<and> no_uaf evs"
  using assms(1)
proof cases
  case (accepted f tls)
  have "me_of (sys_conns sy) f = None" using accepted by (simp add: me_of_def)
  with accepted inv show ?thesis by (auto simp: system_inv_def conn_create_def fun_upd_idem split: if_splits)
next
  case (served f)
  then show ?thesis by (rule serve_step_safe [OF _ inv])
next
  case (tick e)
  with inv show ?thesis by (simp add: system_inv_def typing_inv_cleanup server_invD)
qed

lemma store_inv_start:
  assumes "store_inv d"
  shows "store_inv (snd (db_open e d))" and "store_inv (snd (receipt_init e d))" and "store_inv (snd (ensure_block_db e d))"
    and "store_inv (snd (ensure_perm_db e d))" and "store_inv (snd (ensure_invite_db e d))"
  using assms
  by (simp_all add: db_open_def receipt_init_def ensure_block_db_def ensure_perm_db_def ensure_invite_db_def split_beta store_inv_def
      split: open_outcome.split)

lemma system_inv_start:
  assumes "server_start e cfg d = Some s" and "store_inv d" and "history_size cfg \<le> 1000000"
  shows "system_inv \<lparr>sys_conns = Map.empty, sys_srv = s\<rparr>"
proof -
  let ?g = "snd (registry_init e cfg registry0)"
  obtain d' where s: "s = \<lparr>srv_reg = ?g, srv_db = d', srv_typing = presence_init [], srv_metrics = metrics_init e\<rparr>"
    and d': "store_inv d'"
    using assms(1,2) by (auto simp: server_start_def split_beta Let_def store_inv_start split: if_splits)
  have heap: "client_heap ?g = Map.empty"
    by (simp add: registry_init_def registry0_def Let_def registry_destroy_def)
  have "registry_inv ?g" by (rule inv_init [OF inv_registry0 assms(3)])
  with d' heap show ?thesis
    by (simp add: s system_inv_def server_inv_def inverse_maps_def fd_of_def me_of_def idents_def
        typing_inv_def presence_init_def)
qed

lemma reachable_system_inv: "reachable sy \<Longrightarrow> system_inv sy"
  by (induction rule: reachable.induct) (auto simp: system_inv_start dest: sys_step_safe)

text \<open>A small system that has been reached: the default configuration, an empty database, one connection.\<close>

definition sample_server :: server where
  "sample_server = the (server_start (sample_env 1 2) config_defaults empty_store)"

definition sample_system :: system where
  "sample_system = \<lparr>sys_conns = [5 \<mapsto> conn_create 5], sys_srv = sample_server\<rparr>"

lemma server_start_sample: "server_start (sample_env 1 2) config_defaults empty_store = Some sample_server"
  by (simp add: sample_server_def server_start_def registry_init_def sample_env_def db_open_def split_beta Let_def)

lemma reachable_sample: "reachable sample_system"
proof -
  let ?sy = "\<lparr>sys_conns = Map.empty, sys_srv = sample_server\<rparr>"
  have "reachable ?sy"
    by (rule start [OF server_start_sample store_inv_empty]) (simp add: config_defaults_def)
  moreover have "sys_step ?sy [Send 5 [if False then CHR ''T'' else CHR ''P'']] sample_system"
    using accepted [of ?sy 5 False] by (simp add: sample_system_def)
  ultimately show ?thesis by (rule step)
qed

end
