(* ===== verification/Scenario.thy ===== *)
theory Scenario
  imports System
begin

text \<open>
  Running the server on given input: a connection is opened, a line arrives on it and is processed.  Every
  state such a run leads to is reachable; the concrete chat below is the state in which the properties
  about rooms with several members are evaluated.
\<close>

definition may_feed :: "env \<Rightarrow> conn \<Rightarrow> string \<Rightarrow> server \<Rightarrow> bool" where
  "may_feed e c line s \<longleftrightarrow>
     conn_buf c = [] \<and> NL \<notin> set line \<and> CR \<notin> set line \<and> NUL \<notin> set line \<and> ctype (parse_line line) \<noteq> TYPE_ACCEPT \<and>
     (case env_alloc_room e of None \<Rightarrow> True | Some a \<Rightarrow> room_heap (srv_reg s) a = None) \<and>
     (case env_alloc_client e of None \<Rightarrow> True | Some a \<Rightarrow> client_heap (srv_reg s) a = None)"

definition feed :: "env \<Rightarrow> fd \<Rightarrow> string \<Rightarrow> system \<Rightarrow> system" where
  "feed e f line sy = (case sys_conns sy f of None \<Rightarrow> sy | Some c \<Rightarrow>
     (if may_feed e c line (sys_srv sy)
      then case process_line e (c\<lparr>conn_buf := line @ [NL]\<rparr>) (sys_srv sy) line of None \<Rightarrow> sy
        | Some (evs, rc, c', s') \<Rightarrow> \<lparr>sys_conns = (sys_conns sy)(f \<mapsto> c'\<lparr>conn_buf := []\<rparr>), sys_srv = s'\<rparr>
      else sy))"

definition open_conn :: "fd \<Rightarrow> system \<Rightarrow> system" where
  "open_conn f sy = (if sys_conns sy f = None then sy\<lparr>sys_conns := (sys_conns sy)(f \<mapsto> conn_create f)\<rparr> else sy)"

lemma reachable_open: "reachable sy \<Longrightarrow> reachable (open_conn f sy)"
  using reachable.step [OF _ sys_step.accepted [where tls = False]] by (simp add: open_conn_def)

lemma reachable_feed:
  assumes "reachable sy"
  shows "reachable (feed e f line sy)"
proof (cases "\<exists>c. sys_conns sy f = Some c \<and> may_feed e c line (sys_srv sy) \<and> process_line e (c\<lparr>conn_buf := line @ [NL]\<rparr>) (sys_srv sy) line \<noteq> None")
  case False
  then show ?thesis using assms by (auto simp: feed_def split: option.split)
next
  case True
  then obtain c evs rc c' s' where c: "sys_conns sy f = Some c" and may: "may_feed e c line (sys_srv sy)"
    and run: "process_line e (c\<lparr>conn_buf := line @ [NL]\<rparr>) (sys_srv sy) line = Some (evs, rc, c', s')"
    by auto
  let ?c = "c\<lparr>conn_buf := line @ [NL]\<rparr>"
  let ?sy = "sy\<lparr>sys_conns := (sys_conns sy)(f \<mapsto> ?c)\<rparr>"
  have buf: "conn_buf c = []" and nl: "NL \<notin> set line" "CR \<notin> set line" "NUL \<notin> set line"
    and noaccept: "ctype (parse_line line) \<noteq> TYPE_ACCEPT"
    and fresh: "fresh_blocks e (srv_reg (sys_srv sy))"
    using may by (auto simp: may_feed_def fresh_blocks_def split: option.splits)
  have "recv_loop [Received (line @ [NL])] c = (False, ?c)" by (simp add: buf)
  then have mid: "reachable ?sy" by (rule reachable.step [OF assms sys_step.served [OF serve_step.received [OF c]]])
  have line: "line_of line = line"
    using nl cstr_id [of line] by (auto simp: line_of_def dest: last_in_set)
  have whole: "takeWhile (\<lambda>x. x \<noteq> NL) (line @ [NL]) = line" using nl by (simp add: takeWhile_append)
  have "serve_step f ?sy evs \<lparr>sys_conns = (sys_conns ?sy)(f \<mapsto> c'\<lparr>conn_buf := drop (length line + 1) (conn_buf ?c)\<rparr>), sys_srv = s'\<rparr>"
    using run noaccept fresh by (intro serve_step.line) (simp_all add: whole line line_guard_def dispatch_guard_def)
  then have "reachable \<lparr>sys_conns = (sys_conns sy)(f \<mapsto> c'\<lparr>conn_buf := []\<rparr>), sys_srv = s'\<rparr>"
    using reachable.step [OF mid sys_step.served] by simp
  then show ?thesis by (simp add: feed_def c may run)
qed

text \<open>Two users in one room of a server with small limits; the random source fails, so no sessions are opened.\<close>

definition small_config :: server_config where
  "small_config = config_defaults\<lparr>max_rooms := 2, max_clients := 3, max_members := 2, history_size := 2\<rparr>"

definition chat_env :: "addr \<Rightarrow> addr \<Rightarrow> env" where
  "chat_env ra ca = (sample_env ra ca)\<lparr>env_sha256 := (\<lambda>_. replicate 32 0), env_rand_bytes := (\<lambda>_. None)\<rparr>"

definition small_server :: system where
  "small_server = \<lparr>sys_conns = Map.empty, sys_srv = the (server_start (sample_env 1 2) small_config empty_store)\<rparr>"

definition sample_chat :: system where
  "sample_chat = feed (chat_env 9 9) 6 ''JOIN pub'' (feed (chat_env 1 9) 5 ''CREATE pub''
     (feed (chat_env 1 3) 6 ''REGISTER bob pw'' (feed (chat_env 1 2) 5 ''REGISTER al pw''
       (open_conn 6 (open_conn 5 small_server)))))"

lemma reachable_small_server: "reachable small_server"
proof -
  have "server_start (sample_env 1 2) small_config empty_store \<noteq> None"
    by (simp add: server_start_def small_config_def registry_init_def sample_env_def db_open_def split_beta Let_def config_defaults_def)
  then show ?thesis unfolding small_server_def
    by (intro reachable.start [OF _ store_inv_empty]) (auto simp: small_config_def)
qed

lemma reachable_sample_chat: "reachable sample_chat"
  unfolding sample_chat_def by (intro reachable_feed reachable_open reachable_small_server)

text \<open>The connection \<open>f\<close> belongs to the client at \<open>ca\<close>, who is in the room at \<open>ra\<close> with a full bucket.\<close>

definition seated :: "addr \<Rightarrow> system \<Rightarrow> fd \<times> addr \<Rightarrow> bool" where
  "seated ra sy = (\<lambda>(f, ca).
     case sys_conns sy f of None \<Rightarrow> False | Some c \<Rightarrow> conn_me c = Some ca \<and>
       (case client_heap (srv_reg (sys_srv sy)) ca of None \<Rightarrow> False | Some me \<Rightarrow>
          current_room me = Some ra \<and> tokens me = 5 \<and> last_refill me = (50, 0) \<and> socket_fd me = f))"

lemma sample_chat_seated: "list_all (seated 1 sample_chat) [(5, 2), (6, 3)]"
  by code_simp

end
