(* ===== verification/Delivery.thy ===== *)
theory Delivery
  imports Scenario
begin

text \<open>
  What the users of a room get: who receives a message, with which line, and what is stored of it.  The statement holds in
  every state the system can reach.
\<close>

section \<open>The descriptors of a room\<close>

definition room_fds :: "registry \<Rightarrow> addr \<Rightarrow> fd set" where
  "room_fds g ra = {socket_fd d |cb d. client_heap g cb = Some d \<and> current_room d = Some ra}"

lemma set_member_fds:
  assumes inv: "registry_inv g" and r: "room_heap g ra = Some r"
  shows "set (member_fds g r) = room_fds g ra"
proof -
  have mem: "counted (members r) (member_count r) (member_capacity r) (occupants g ra)"
    using registry_invD(3) [OF inv r] by (simp add: room_ok_def)
  then have set: "set (take (member_count r) (members r)) = Some ` occupants g ra" by (simp add: counted_def)
  show ?thesis
    unfolding member_fds_def set_map set room_fds_def occupants_def by (force split: option.splits)
qed

lemma distinct_member_fds:
  assumes inv: "registry_inv g" and r: "room_heap g ra = Some r"
    and inj: "\<And>ca cb c d. client_heap g ca = Some c \<Longrightarrow> client_heap g cb = Some d \<Longrightarrow> socket_fd c = socket_fd d \<Longrightarrow> ca = cb"
  shows "distinct (member_fds g r)"
proof -
  have mem: "counted (members r) (member_count r) (member_capacity r) (occupants g ra)"
    using registry_invD(3) [OF inv r] by (simp add: room_ok_def)
  then have set: "set (take (member_count r) (members r)) = Some ` occupants g ra"
    and "distinct (take (member_count r) (members r))" by (simp_all add: counted_def)
  moreover have "inj_on (\<lambda>p. case p of None \<Rightarrow> -1 | Some a \<Rightarrow> (case client_heap g a of None \<Rightarrow> -1 | Some c \<Rightarrow> socket_fd c))
      (Some ` occupants g ra)"
    using inj by (auto simp: inj_on_def occupants_def)
  ultimately show ?thesis by (simp add: member_fds_def distinct_map)
qed

lemma broadcast_events:
  assumes inv: "registry_inv g" and r: "room_heap g ra = Some r" and "env_alloc_fds e"
  shows "room_broadcast e g (Some ra) line x = map (\<lambda>f. Send f line) (filter (\<lambda>f. f \<noteq> x) (member_fds g r))"
proof (cases "member_count r")
  case 0
  then show ?thesis using r by (simp add: room_broadcast_def member_fds_def)
next
  case (Suc n)
  have "members r \<noteq> []"
    using registry_invD(3) [OF inv r] Suc by (auto simp: room_ok_def counted_def)
  with Suc assms show ?thesis by (simp add: room_broadcast_def)
qed

lemma system_fds_inj:
  assumes "system_inv sy" and "client_heap (srv_reg (sys_srv sy)) ca = Some c"
    and "client_heap (srv_reg (sys_srv sy)) cb = Some d" and "socket_fd c = socket_fd d"
  shows "ca = cb"
proof -
  let ?g = "srv_reg (sys_srv sy)"
  have "fd_of ?g ca = Some (socket_fd c)" "fd_of ?g cb = Some (socket_fd c)"
    using assms(2-4) by (simp_all add: fd_of_def idents_def)
  with assms(1) have "me_of (sys_conns sy) (socket_fd c) = Some ca" "me_of (sys_conns sy) (socket_fd c) = Some cb"
    by (simp_all add: system_inv_def inverse_maps_def)
  then show ?thesis by simp
qed

text \<open>Changes that keep where every client is and under which descriptor keep the receivers.\<close>

lemma update_client_fds:
  assumes "\<And>c. current_room (h c) = current_room c \<and> socket_fd (h c) = socket_fd c"
  shows "room_fds (update_client g ca h) ra = room_fds g ra"
    and "member_fds (update_client g ca h) r = member_fds g r"
proof -
  have heap: "client_heap (update_client g ca h) cb = map_option (if cb = ca then h else id) (client_heap g cb)" for cb
    by (simp add: update_client_def option.map_id)
  have case_fd: "(case map_option (if cb = ca then h else id) p of None \<Rightarrow> -1 | Some c \<Rightarrow> socket_fd c) =
      (case p of None \<Rightarrow> -1 | Some c \<Rightarrow> socket_fd c)" for cb p
    using assms by (cases p) simp_all
  show "room_fds (update_client g ca h) ra = room_fds g ra"
    unfolding room_fds_def heap using assms by (auto split: if_splits) metis+
  show "member_fds (update_client g ca h) r = member_fds g r"
    unfolding member_fds_def heap case_fd ..
qed

section \<open>Sending to a room\<close>

definition stored_message :: "env \<Rightarrow> int \<Rightarrow> string \<Rightarrow> string \<Rightarrow> message" where
  "stored_message e mid u t = \<lparr>msg_id = mid, msg_sender = strncpy_term MAX_USERNAME_LEN u,
     msg_text = strncpy_term MAX_TEXT_LEN t, msg_timestamp = env_now e, msg_deleted = False, msg_edited_at = 0\<rparr>"

definition message_line :: "int \<Rightarrow> string \<Rightarrow> string \<Rightarrow> string" where
  "message_line mid u t = (if mid > 0 then format_msg_reply_id MAX_LINE_LEN mid u t else format_msg_reply MAX_LINE_LEN u t)"

text \<open>The state in which the message is put into the history: the token is spent.\<close>

lemma handle_msg_accepted:
  assumes "client_heap (srv_reg s) ca = Some me" and "current_room me = Some ra"
    and "room_heap (srv_reg s) ra = Some r" and "fst (rate_limit_check e me)" and "arg1 c = Some t" and "t \<noteq> []"
  shows "handle_msg e f ca c s = send_to_room e f me ra t (snd (spend_token e s ca me))"
  using assms by (simp add: handle_msg_def in_room_def with_client_def spend_token_def with_room_def)

lemma send_to_room_effect:
  assumes s: "server_inv s" and r: "room_heap (srv_reg s) ra = Some r" and fds: "env_alloc_fds e"
  obtains mid where
    "fst (send_to_room e f me ra t s) =
       map (\<lambda>x. Send x (message_line mid (client_name me) t)) (filter (\<lambda>x. x \<noteq> f) (member_fds (srv_reg s) r)) @ [ok_reply f ''SENT'']"
    "map_option (\<lambda>r. ring_walk (history r)) (room_heap (srv_reg (snd (send_to_room e f me ra t s))) ra) =
       Some (lastn (history_capacity (history r)) (ring_walk (history r) @ [stored_message e mid (client_name me) t]))"
    "sql_works e Insert_message \<longrightarrow> db_handle (srv_db s) \<longrightarrow> msg_seq (srv_db s) < 2 ^ 63 - 1 \<longrightarrow>
       (\<exists>row \<in> set (msgs (srv_db (snd (send_to_room e f me ra t s)))). row_id row = mid \<and> row_room row = room_name r \<and>
          row_sender row = client_name me \<and> row_text row = t \<and> \<not> row_deleted row)"
proof -
  let ?g = "srv_reg s" and ?u = "client_name me"
  obtain mid db1 g1 where add: "room_add_history e (srv_db s) ?g (Some ra) ?u t = (mid, db1, g1)"
    using prod_cases3 by blast
  then have g1: "g1 = update_room ?g ra (\<lambda>r. r\<lparr>history := ring_add (history r) (stored_message e mid ?u t)\<rparr>)"
    and db1: "db1 = snd (db_save_message e (srv_db s) (room_name r) ?u t)"
    and mid: "0 < fst (db_save_message e (srv_db s) (room_name r) ?u t) \<Longrightarrow>
       mid = fst (db_save_message e (srv_db s) (room_name r) ?u t)"
    using r by (auto simp: room_add_history_def stored_message_def split_beta Let_def)
  let ?r1 = "r\<lparr>history := ring_add (history r) (stored_message e mid ?u t)\<rparr>"
  have inv: "registry_inv g1" using inv_add_history [OF server_invD(1,2) [OF s] add] by simp
  have r1: "room_heap g1 ra = Some ?r1" using r by (simp add: g1 update_room_def)
  have heap: "client_heap g1 = client_heap ?g" by (simp add: g1 update_room_def split: option.split)
  have "member_fds g1 ?r1 = member_fds ?g r" unfolding member_fds_def heap by simp
  then have "fst (send_to_room e f me ra t s) =
       map (\<lambda>x. Send x (message_line mid ?u t)) (filter (\<lambda>x. x \<noteq> f) (member_fds ?g r)) @ [ok_reply f ''SENT'']"
    by (simp add: send_to_room_def add broadcast_events [OF inv r1 fds] message_line_def Let_def)
  moreover have "ring_inv (history r)" using registry_invD(3) [OF server_invD(1) [OF s] r] by (simp add: room_ok_def)
  then have "map_option (\<lambda>r. ring_walk (history r)) (room_heap (srv_reg (snd (send_to_room e f me ra t s))) ra) =
       Some (lastn (history_capacity (history r)) (ring_walk (history r) @ [stored_message e mid ?u t]))"
    by (simp add: send_to_room_def add Let_def r1 ring_walk_add)
  moreover have "\<exists>row \<in> set (msgs (srv_db (snd (send_to_room e f me ra t s)))). row_id row = mid \<and> row_room row = room_name r \<and>
          row_sender row = ?u \<and> row_text row = t \<and> \<not> row_deleted row"
    if "sql_works e Insert_message" "db_handle (srv_db s)" "msg_seq (srv_db s) < 2 ^ 63 - 1"
  proof -
    have "0 \<le> msg_seq (srv_db s)" using server_invD(2) [OF s] by (simp add: store_inv_def)
    with that mid show ?thesis
      by (simp add: send_to_room_def add Let_def db1 db_save_message_def sql_works_def)
  qed
  ultimately show thesis by (intro that) blast+
qed

text \<open>C2: In every reachable state, a \<open>MSG\<close> line of a client that is in a room and has a token is answered with
  \<open>OK SENT\<close>; the line with the message goes to the descriptor of every other client in the
  room, exactly once each, and to nobody else; the history of the room becomes the last \<open>history_capacity\<close>
  of its old messages followed by this one; and the message is a row of the database under the id the
  receivers see, unless the database refuses the insertion.\<close>

theorem msg_delivery:
  assumes "reachable sy" and c: "sys_conns sy f = Some c" "conn_me c = Some ca"
    and me: "client_heap (srv_reg (sys_srv sy)) ca = Some me" "current_room me = Some ra"
    and tok: "fst (rate_limit_check e me)"
    and cmd: "ctype (parse_line line) = TYPE_MSG" "arg1 (parse_line line) = Some t" "t \<noteq> []"
    and fds: "env_alloc_fds e"
  shows "\<exists>r mid xs s'. room_heap (srv_reg (sys_srv sy)) ra = Some r \<and>
     process_line e c (sys_srv sy) line =
       Some (map (\<lambda>x. Send x (message_line mid (client_name me) t)) xs @ [ok_reply f ''SENT''], 0, c, s') \<and>
     distinct xs \<and> set xs = room_fds (srv_reg (sys_srv sy)) ra - {f} \<and>
     map_option (\<lambda>r. ring_walk (history r)) (room_heap (srv_reg s') ra) =
       Some (lastn (history_capacity (history r)) (ring_walk (history r) @ [stored_message e mid (client_name me) t])) \<and>
     (sql_works e Insert_message \<longrightarrow> db_handle (srv_db (sys_srv sy)) \<longrightarrow> msg_seq (srv_db (sys_srv sy)) < 2 ^ 63 - 1 \<longrightarrow>
       (\<exists>row \<in> set (msgs (srv_db s')). row_id row = mid \<and> row_room row = room_name r \<and>
          row_sender row = client_name me \<and> row_text row = t \<and> \<not> row_deleted row))"
proof -
  let ?s = "sys_srv sy" and ?u = "client_name me"
  let ?g = "srv_reg ?s"
  have inv: "system_inv sy" using reachable_system_inv [OF assms(1)] .
  then have s: "server_inv ?s" and fd: "conn_fd c = f" using c(1) by (simp_all add: system_inv_def)
  note g = server_invD(1) [OF s]
  obtain r where r: "room_heap ?g ra = Some r" using current_room_live [OF g me] by blast
  obtain s1 where spend: "spend_token e ?s ca me = (True, s1)" using tok by (simp add: spend_token_def)
  note s1 = inv_spend_token [OF s spend]
  have "srv_reg s1 = update_client ?g ca (\<lambda>c. snd (rate_limit_check e c))" using spend by (auto simp: spend_token_def)
  then have same: "member_fds (srv_reg s1) r = member_fds ?g r"
    by (simp add: update_client_fds(2) rate_limit_check_def Let_def)
  have run: "process_line e c ?s line = (let (evs, s') = send_to_room e f me ra t s1 in Some (evs, 0, c, s'))"
    using handle_msg_accepted [OF me r tok cmd(2,3), of f] cmd(1) c(2) spend fd
    by (simp add: process_line_def handler_of_def Let_def)
  let ?send = "send_to_room e f me ra t s1"
  have r1: "room_heap (srv_reg s1) ra = Some r" using r s1(3) by simp
  obtain mid where effect:
    "fst ?send = map (\<lambda>x. Send x (message_line mid ?u t)) (filter (\<lambda>x. x \<noteq> f) (member_fds ?g r)) @ [ok_reply f ''SENT'']"
    "map_option (\<lambda>r. ring_walk (history r)) (room_heap (srv_reg (snd ?send)) ra) =
       Some (lastn (history_capacity (history r)) (ring_walk (history r) @ [stored_message e mid ?u t]))"
    "sql_works e Insert_message \<longrightarrow> db_handle (srv_db ?s) \<longrightarrow> msg_seq (srv_db ?s) < 2 ^ 63 - 1 \<longrightarrow>
       (\<exists>row \<in> set (msgs (srv_db (snd ?send))). row_id row = mid \<and> row_room row = room_name r \<and>
          row_sender row = ?u \<and> row_text row = t \<and> \<not> row_deleted row)"
    by (rule send_to_room_effect [OF s1(1) r1 fds, of f me t, unfolded same s1(4)])
  let ?xs = "filter (\<lambda>x. x \<noteq> f) (member_fds ?g r)"
  have "distinct ?xs" using distinct_member_fds [OF g r system_fds_inj [OF inv]] by simp
  moreover have "set ?xs = room_fds ?g ra - {f}" using set_member_fds [OF g r] by auto
  moreover have "process_line e c ?s line = Some (fst ?send, 0, c, snd ?send)" using run by (simp add: split_beta)
  ultimately show ?thesis using r effect
    by (intro exI [of _ r] exI [of _ mid] exI [of _ ?xs] exI [of _ "snd ?send"]) simp
qed

theorem msg_delivery_witness:
  "\<exists>c evs mid u s'. process_line (sample_env 9 9) c (sys_srv sample_chat) ''MSG hi'' = Some (evs, 0, c, s') \<and>
     Send 6 (message_line mid u ''hi'') \<in> set evs \<and> ok_reply 5 ''SENT'' \<in> set evs"
proof -
  obtain c me where c: "sys_conns sample_chat 5 = Some c" "conn_me c = Some 2"
    and me: "client_heap (srv_reg (sys_srv sample_chat)) 2 = Some me" "current_room me = Some 1"
    and "tokens me = 5" "last_refill me = (50, 0)"
    using sample_chat_seated by (auto simp: seated_def split: option.splits)
  then have tok: "fst (rate_limit_check (sample_env 9 9) me)"
    by (simp add: rate_limit_check_def elapsed_since_def sample_env_def Let_def)
  have cmd: "ctype (parse_line ''MSG hi'') = TYPE_MSG" "arg1 (parse_line ''MSG hi'') = Some ''hi''"
    by code_simp+
  have six: "6 \<in> room_fds (srv_reg (sys_srv sample_chat)) 1 - {5}"
    using sample_chat_seated by (auto simp: room_fds_def seated_def split: option.splits)
  have "env_alloc_fds (sample_env 9 9)" "''hi'' \<noteq> []" by (simp_all add: sample_env_def)
  from msg_delivery [OF reachable_sample_chat c me tok cmd this(2,1)] obtain mid xs s' where
    run: "process_line (sample_env 9 9) c (sys_srv sample_chat) ''MSG hi'' =
      Some (map (\<lambda>x. Send x (message_line mid (client_name me) ''hi'')) xs @ [ok_reply 5 ''SENT''], 0, c, s')"
    and xs: "set xs = room_fds (srv_reg (sys_srv sample_chat)) 1 - {5}" by (elim exE conjE)
  have "Send 6 (message_line mid (client_name me) ''hi'') \<in> set (map (\<lambda>x. Send x (message_line mid (client_name me) ''hi'')) xs)"
    using six unfolding xs [symmetric] by simp
  then show ?thesis using run by fastforce
qed

end
