(* ===== verification/Server_Loop.thy ===== *)
theory Server_Loop
  imports Threadpool Delivery
begin

text \<open>
  The main thread (\<open>src/server.c\<close>): sending on a non-blocking socket, accepting a connection, handing ready
  connections to the thread pool under \<open>EPOLLONESHOT\<close>, and shutting down.  The event loop and the pool together
  never let two workers handle one connection.
\<close>

section \<open>Sending\<close>

text \<open>The results of \<open>send\<close>: bytes taken, 0, -1 with \<open>EINTR\<close>, with \<open>EAGAIN\<close>, with another error.\<close>

datatype send_result = Sent nat | Sent_zero | Send_interrupted | Send_again | Send_failed

text \<open>
  The loop of \<open>conn_send\<close> without TLS: the bytes that left, and the result; \<open>None\<close> while the outcomes given do not
  end the loop.  The kernel takes at most what it is offered.
\<close>

fun send_loop :: "string \<Rightarrow> nat \<Rightarrow> send_result list \<Rightarrow> string \<times> int option" where
  "send_loop buf n [] = ([], if n \<ge> length buf then Some (int n) else None)"
| "send_loop buf n (r # rs) =
     (if n \<ge> length buf then ([], Some (int n))
      else case r of
        Sent k \<Rightarrow> let j = min k (length buf - n); (out, res) = send_loop buf (n + j) rs in (take j (drop n buf) @ out, res)
      | Sent_zero \<Rightarrow> ([], Some (if n > 0 then int n else -1))
      | Send_interrupted \<Rightarrow> send_loop buf n rs
      | Send_again \<Rightarrow> send_loop buf n rs
      | Send_failed \<Rightarrow> ([], Some (-1)))"

text \<open>With TLS the call is one \<open>SSL_write\<close>, whose effect is a parameter.\<close>

definition conn_send :: "(string \<Rightarrow> string \<times> int) option \<Rightarrow> string \<Rightarrow> send_result list \<Rightarrow> string \<times> int option" where
  "conn_send ssl buf rs = (case ssl of Some wr \<Rightarrow> (case wr buf of (out, n) \<Rightarrow> (out, Some n)) | None \<Rightarrow> send_loop buf 0 rs)"

lemma send_loop_prefix: "\<exists>m. fst (send_loop buf n rs) = take m (drop n buf)"
proof (induction rs arbitrary: n)
  case (Cons r rs)
  show ?case
  proof (cases r)
    case (Sent k)
    let ?j = "min k (length buf - n)"
    obtain m where "fst (send_loop buf (n + ?j) rs) = take m (drop (n + ?j) buf)" using Cons by blast
    then have "take ?j (drop n buf) @ fst (send_loop buf (n + ?j) rs) = take (?j + m) (drop n buf)"
      by (metis take_add drop_drop add.commute)
    then show ?thesis using Sent by (auto simp: Let_def split_beta intro: exI [of _ 0])
  qed (use Cons in \<open>auto intro: exI [of _ 0]\<close>)
qed (simp add: exI [of _ 0])

lemma send_loop_complete:
  assumes "n \<le> length buf" and "Sent_zero \<notin> set rs" and "Send_failed \<notin> set rs"
    and "length buf \<le> n + length (filter (\<lambda>r. \<exists>k > 0. r = Sent k) rs)"
  shows "send_loop buf n (rs @ qs) = (drop n buf, Some (int (length buf)))"
  using assms
proof (induction rs arbitrary: n)
  case Nil
  then show ?case by (cases qs) auto
next
  case (Cons r rs)
  show ?case
  proof (cases "n = length buf")
    case False
    then have lt: "n < length buf" using Cons.prems by simp
    show ?thesis
    proof (cases r)
      case (Sent k)
      let ?j = "min k (length buf - n)"
      have "send_loop buf (n + ?j) (rs @ qs) = (drop (n + ?j) buf, Some (int (length buf)))"
        using Cons.prems Sent lt by (intro Cons.IH) (auto split: if_splits)
      moreover have "take ?j (drop n buf) @ drop (n + ?j) buf = drop n buf"
        by (metis append_take_drop_id drop_drop add.commute)
      ultimately show ?thesis using Sent lt by (simp add: Let_def)
    qed (use Cons lt in auto)
  qed simp
qed

text \<open>C20: \<open>conn_send\<close> without TLS never sends anything but a prefix of the buffer, and it has sent all of it and returns
  its length as soon as the socket has accepted data as often as the buffer has bytes,
  however small the pieces and however often it was interrupted or told to try again.\<close>

theorem conn_send_complete:
  assumes "Sent_zero \<notin> set rs" and "Send_failed \<notin> set rs"
    and "length buf \<le> length (filter (\<lambda>r. \<exists>k > 0. r = Sent k) rs)"
  shows "conn_send None buf (rs @ qs) = (buf, Some (int (length buf))) \<and> (\<exists>m. fst (conn_send None buf os) = take m buf)"
  using send_loop_complete [OF _ assms(1,2), where n = 0 and buf = buf] send_loop_prefix [of buf 0 os] assms(3)
  by (simp add: conn_send_def)

theorem conn_send_complete_witness:
  "conn_send None ''abc'' [Send_again, Sent 1, Sent 5, Send_interrupted, Sent 1] = (''abc'', Some 3)"
  using conn_send_complete [of "[Send_again, Sent 1, Sent 5, Send_interrupted, Sent 1]" "''abc''" "[]"] by simp

section \<open>Connections\<close>

text \<open>
  What the main loop does with a descriptor from \<open>accept\<close>: the connection object may not be allocated, the greeting
  may not be sent, the TLS handshake may fail; then the descriptor is closed again.
\<close>

definition accept_connection :: "bool \<Rightarrow> bool \<Rightarrow> bool \<Rightarrow> bool \<Rightarrow> fd \<Rightarrow> (fd \<rightharpoonup> conn) \<Rightarrow> event list \<times> (fd \<rightharpoonup> conn)" where
  "accept_connection alloc tls greeted handshake f cs =
     (let greeting = Send f [if tls then CHR ''T'' else CHR ''P''] in
      if \<not> alloc then ([Close f], cs)
      else if \<not> greeted then ([Close f], cs)
      else if tls \<and> \<not> handshake then ([greeting, Close f], cs)
      else ([greeting], cs(f \<mapsto> conn_create f)))"

text \<open>
  The connections whose descriptors are armed, beside the pool.  \<open>EPOLLONESHOT\<close>: an event disarms its descriptor;
  \<open>epoll_rearm\<close> at the end of \<open>handle_client\<close> (the connection is \<open>kept\<close>) arms it again.
\<close>

record main_loop =
  armed :: "fd set"
  crew :: pool_run

definition epoll_add :: "fd \<Rightarrow> main_loop \<Rightarrow> main_loop" where
  [simp]: "epoll_add f m = m\<lparr>armed := insert f (armed m)\<rparr>"

definition epoll_rearm :: "fd \<Rightarrow> main_loop \<Rightarrow> main_loop" where
  [simp]: "epoll_rearm f m = m\<lparr>armed := insert f (armed m)\<rparr>"

text \<open>The jobs in the queue and in the hands of workers, and their connections.\<close>

definition carriers :: "pool_run \<Rightarrow> addr set" where
  "carriers st = set (queue_addrs (queue_of st)) \<union> {a. \<exists>t. holds (workers st) t a}"

definition carried :: "pool_run \<Rightarrow> fd set" where
  "carried st = job_at (job_heap st) ` carriers st"

definition dispatch_event :: "bool \<Rightarrow> addr option \<Rightarrow> nat \<Rightarrow> (nat \<Rightarrow> bool) \<Rightarrow> fd \<Rightarrow> main_loop \<Rightarrow> main_loop" where
  "dispatch_event closing block t cr f m =
     (let (rc, st) = threadpool_submit block t cr f (crew m) in
      m\<lparr>crew := st, armed := (if rc \<noteq> 0 \<and> \<not> closing then armed m else armed m - {f})\<rparr>)"

inductive loop_step :: "main_loop \<Rightarrow> main_loop \<Rightarrow> bool" where
  connected: "f \<notin> armed m \<Longrightarrow> f \<notin> carried (crew m) \<Longrightarrow> loop_step m (epoll_add f m)"
| event: "f \<in> armed m \<Longrightarrow> (\<And>a. block = Some a \<Longrightarrow> job_heap (crew m) a = None) \<Longrightarrow> signal_ok t (crew m) \<Longrightarrow>
    loop_step m (dispatch_event closing block t cr f m)"
| handled: "holds (workers (crew m)) t a \<Longrightarrow> worker_section t (crew m) = Some st \<Longrightarrow>
    loop_step m (if kept then epoll_rearm (job_at (job_heap (crew m)) a) (m\<lparr>crew := st\<rparr>) else m\<lparr>crew := st\<rparr>)"
| other_section: "t < length (workers (crew m)) \<Longrightarrow> runnable (workers (crew m) ! t) \<Longrightarrow> (\<And>a. \<not> holds (workers (crew m)) t a) \<Longrightarrow>
    worker_section t (crew m) = Some st \<Longrightarrow> loop_step m (m\<lparr>crew := st\<rparr>)"
| woken: "t < length (workers (crew m)) \<Longrightarrow> workers (crew m) ! t = Waiting \<Longrightarrow> loop_step m (m\<lparr>crew := set_worker t Woken (crew m)\<rparr>)"
| shrink_check: "loop_step m (m\<lparr>crew := threadpool_maybe_shrink (crew m)\<rparr>)"

inductive loop_reachable :: "main_loop \<Rightarrow> bool" where
  began: "0 < n \<Longrightarrow> 0 < k \<Longrightarrow> loop_reachable \<lparr>armed = {}, crew = start_pool n k\<rparr>"
| continued: "loop_reachable m \<Longrightarrow> loop_step m m' \<Longrightarrow> loop_reachable m'"

definition flight_inv :: "main_loop \<Rightarrow> bool" where
  "flight_inv m \<longleftrightarrow> pool_inv (crew m) \<and> armed m \<inter> carried (crew m) = {} \<and>
     inj_on (job_at (job_heap (crew m))) (carriers (crew m))"

lemma holds_set_worker:
  "t < length (workers st) \<Longrightarrow> (\<And>a. w \<noteq> Handling a) \<Longrightarrow> {a. \<exists>u. holds (workers (set_worker t w st)) u a} \<subseteq> {a. \<exists>u. holds (workers st) u a}"
  by (auto split: if_splits)

lemma proceed_carriers:
  assumes inv: "jobs_inv st" and t: "t < length (workers st)" and run: "proceed t st = Some st'"
  shows "carriers st' \<subseteq> carriers st \<and> job_heap st' = job_heap st"
  using inv run
proof (cases rule: proceed_cases)
  case (out p)
  have "workers st' = (workers st)[t := Exited]" "job_heap st' = job_heap st" using out(1) by simp_all
  then show ?thesis using t out(4) by (auto simp: carriers_def split: if_splits)
next
  case (job a q x)
  have ok: "queue_ok (queue_of st)" using inv by (simp add: jobs_inv_def)
  from dequeue_rel(2) [OF queue_ok_rel [OF ok] job(3)] obtain bs where
    "fst q = job_heap st" "queue_addrs (queue_of st) = a # bs" "queue_rel q bs" by auto
  moreover have "workers st' = (workers st)[t := Handling a]" "queue_of st' = q" "job_heap st' = fst q" using job(1) by simp_all
  ultimately show ?thesis using t queue_rel_addrs [of q bs] by (auto simp: carriers_def split: if_splits)
qed

lemma section_carriers:
  assumes inv: "pool_inv st" and t: "t < length (workers st)" "\<And>a. \<not> holds (workers st) t a" and run: "worker_section t st = Some st'"
  shows "carriers st' \<subseteq> carriers st \<and> job_heap st' = job_heap st"
proof -
  have jobs: "jobs_inv (add_idle k st)" for k
    using inv by (intro jobs_inv_other [of st "add_idle k st"]) (simp_all add: pool_inv_def)
  have idle: "carriers (add_idle k st) = carriers st" for k by (simp add: carriers_def)
  have zero: "add_idle 0 st = st" by (simp add: add_idle_def)
  have p: "carriers st' \<subseteq> carriers st \<and> job_heap st' = job_heap st" if "proceed t (add_idle k st) = Some st'" for k
    using proceed_carriers [OF jobs _ that] t(1) idle by simp
  have other: "carriers (set_worker t w st1) \<subseteq> carriers st1"
    if "t < length (workers st1)" "\<And>a. w \<noteq> Handling a" for w st1
    using holds_set_worker [of t st1 w] that by (auto simp: carriers_def)
  have leave: "carriers (st\<lparr>pool := leave_pool (pool st)\<rparr>) = carriers st" by (simp add: carriers_def)
  show ?thesis
    using run t p [of 0] p [of "-1"] zero other [of st] other [of "add_idle 1 st"]
      other [of "st\<lparr>pool := leave_pool (pool st)\<rparr>" Exited] leave idle
    by (cases "workers st ! t") (auto simp: worker_section_def holds_def split: if_splits)
qed

lemma handled_carriers:
  assumes inv: "pool_inv st" and h: "holds (workers st) t a" and run: "worker_section t st = Some st'"
  shows "carriers st' \<subseteq> carriers st - {a} \<and> (\<forall>b \<in> carriers st'. job_at (job_heap st') b = job_at (job_heap st) b) \<and> a \<in> carriers st"
proof -
  have t: "t < length (workers st)" "workers st ! t = Handling a" using h by (auto simp: holds_def)
  let ?h = "(job_heap st)(a := None)"
  have st': "st' = set_worker t Checking (st\<lparr>job_heap := ?h\<rparr>)" using run t by (simp add: worker_section_def)
  have ok: "queue_ok (queue_of st)" and hold: "holders_ok (job_heap st) (queue_addrs (queue_of st)) (workers st)"
    using inv by (simp_all add: pool_inv_def jobs_inv_def)
  then have out: "a \<notin> set (queue_addrs (queue_of st))" and one: "\<And>u. holds (workers st) u a \<Longrightarrow> u = t"
    using h by (auto simp: holders_ok_def)
  have rel: "queue_rel (queue_of st') (queue_addrs (queue_of st))"
    using queue_rel_free [OF queue_ok_rel [OF ok] out] by (simp add: st' queue_of_def)
  have "queue_addrs (queue_of st') = queue_addrs (queue_of st)" by (rule queue_rel_addrs [OF rel])
  moreover have "workers st' = (workers st)[t := Checking]" by (simp add: st')
  ultimately have "carriers st' \<subseteq> carriers st - {a}" using t(1) out one by (auto simp: carriers_def split: if_splits)
  moreover from this have "\<forall>b \<in> carriers st'. job_at (job_heap st') b = job_at (job_heap st) b"
    by (auto simp: st' job_at_def)
  moreover have "a \<in> carriers st" using h by (auto simp: carriers_def)
  ultimately show ?thesis by blast
qed

lemma submit_carriers:
  assumes inv: "pool_inv st" and fresh: "job_heap st a = None"
    and run: "threadpool_submit (Some a) t cr f st = (0, st')"
  shows "carriers st' \<subseteq> insert a (carriers st) \<and> job_at (job_heap st') a = f \<and>
     (\<forall>b \<in> carriers st. job_at (job_heap st') b = job_at (job_heap st) b)"
proof -
  let ?q = "queue_of st"
  let ?st = "put_queue (enqueue a f ?q) (st\<lparr>accepted := accepted st @ [f]\<rparr>)"
  have ok: "queue_ok ?q" and hold: "holders_ok (job_heap st) (queue_addrs ?q) (workers st)"
    using inv by (simp_all add: pool_inv_def jobs_inv_def)
  have room: "queue_room ?q a" using fresh by (simp add: queue_room_def)
  note rel = enqueue_rel [OF queue_ok_rel [OF ok] room, where x = f]
  have st': "st' = scale_up cr (cond_signal t ?st)" using run by (auto simp: threadpool_submit_def split: if_splits)
  have q': "queue_of st' = enqueue a f ?q" by (auto simp: st' scale_up_def cond_signal_def Let_def)
  obtain n where "workers st' = workers (cond_signal t ?st) @ replicate n Top"
    unfolding st' using scale_up_spawn [of cr "cond_signal t ?st"] spawn_loop_workers by metis
  then have hs: "holds (workers st') u b \<longleftrightarrow> holds (workers st) u b" for u b
    using holds_append [of b "replicate n Top"] by (auto simp: cond_signal_def holds_def nth_list_update)
  have addrs: "queue_addrs (queue_of st') = queue_addrs ?q @ [a]" unfolding q' by (rule queue_rel_addrs [OF rel(1)])
  have heap: "job_heap st' = fst (enqueue a f ?q)" using q' fst_queue_of [of st'] by simp
  have "carriers st \<subseteq> dom (job_heap st)"
    using queue_ok_addrs(2) [OF ok] hold by (auto simp: carriers_def holders_ok_def)
  then have "job_at (job_heap st') b = job_at (job_heap st) b" if "b \<in> carriers st" for b
    using that fresh job_at_enqueue [of b a f ?q] by (auto simp: heap)
  then show ?thesis using rel(3) by (auto simp: carriers_def addrs hs heap)
qed

lemma flight_inv_shrink:
  assumes "pool_inv st'" and "carriers st' \<subseteq> carriers (crew m)"
    and "\<And>a. a \<in> carriers st' \<Longrightarrow> job_at (job_heap st') a = job_at (job_heap (crew m)) a"
    and "flight_inv m"
  shows "flight_inv (m\<lparr>crew := st'\<rparr>)"
proof -
  have "carried st' \<subseteq> carried (crew m)" using assms(2,3) by (auto simp: carried_def)
  moreover have "inj_on (job_at (job_heap st')) (carriers st')"
  proof (rule inj_onI)
    fix x y assume xy: "x \<in> carriers st'" "y \<in> carriers st'" "job_at (job_heap st') x = job_at (job_heap st') y"
    then have "job_at (job_heap (crew m)) x = job_at (job_heap (crew m)) y" using assms(3) by simp
    moreover have "inj_on (job_at (job_heap (crew m))) (carriers (crew m))" using assms(4) by (simp add: flight_inv_def)
    ultimately show "x = y" using xy assms(2) by (meson inj_onD subsetD)
  qed
  ultimately show ?thesis using assms(1,4) by (auto simp: flight_inv_def)
qed

lemma broadcast_carriers [simp]: "carriers (cond_broadcast st) = carriers st" "job_heap (cond_broadcast st) = job_heap st"
  by (auto simp: carriers_def cond_broadcast_def holds_def split: if_splits)

lemma marked_carriers [simp]: "carriers (st\<lparr>pool := (pool st)\<lparr>marked_exits := k\<rparr>\<rparr>) = carriers st"
  by (simp add: carriers_def queue_of_def)

lemma flight_inv_event:
  assumes m: "flight_inv m" and f: "f \<in> armed m"
    and fresh: "\<And>a. block = Some a \<Longrightarrow> job_heap (crew m) a = None" and sig: "signal_ok t (crew m)"
  shows "flight_inv (dispatch_event closing block t cr f m)"
proof -
  obtain rc st where run: "threadpool_submit block t cr f (crew m) = (rc, st)" by fastforce
  have inv: "pool_inv (crew m)" using m by (simp add: flight_inv_def)
  show ?thesis
  proof (cases "rc = 0")
    case False
    then have "st = crew m" using run by (auto simp: threadpool_submit_def split: if_splits option.splits)
    then show ?thesis using m run by (auto simp: dispatch_event_def flight_inv_def)
  next
    case True
    then obtain a where a: "block = Some a" using run by (auto simp: threadpool_submit_def split: if_splits option.splits)
    note sub = submit_carriers [OF inv fresh [OF a] run [unfolded a True]]
    have "pool_inv st" using submit_inv [OF inv fresh sig, of block cr f] run by simp
    moreover have old: "b \<in> carriers (crew m) \<Longrightarrow> job_at (job_heap st) b \<in> carried (crew m)" for b
      using sub by (auto simp: carried_def)
    then have "carried st \<subseteq> insert f (carried (crew m))" using sub by (auto simp: carried_def)
    then have "(armed m - {f}) \<inter> carried st = {}" using m by (auto simp: flight_inv_def)
    moreover have "inj_on (job_at (job_heap st)) (carriers st)"
    proof (rule inj_on_subset [of _ "insert a (carriers (crew m))"])
      have "inj_on (job_at (job_heap st)) (carriers (crew m))"
        using m inj_on_cong [of "carriers (crew m)" "job_at (job_heap st)"] sub by (auto simp: flight_inv_def)
      moreover have "f \<notin> carried (crew m)" using m f by (auto simp: flight_inv_def)
      ultimately show "inj_on (job_at (job_heap st)) (insert a (carriers (crew m)))" using old sub by (auto simp: inj_on_insert)
    qed (use sub in blast)
    ultimately show ?thesis using run True by (simp add: dispatch_event_def flight_inv_def)
  qed
qed

lemma loop_step_inv: "loop_step m m' \<Longrightarrow> flight_inv m \<Longrightarrow> flight_inv m'"
proof (induction rule: loop_step.induct)
  case (connected f m)
  then show ?case by (auto simp: flight_inv_def)
next
  case (event f m block t closing cr)
  then show ?case by (intro flight_inv_event)
next
  case (handled m t a st kept)
  let ?f = "job_at (job_heap (crew m)) a"
  have inv: "pool_inv (crew m)" using handled by (simp add: flight_inv_def)
  have t: "t < length (workers (crew m))" "workers (crew m) ! t = Handling a" using handled(1) by (auto simp: holds_def)
  have "section_step (crew m) st" unfolding section_step_def using handled(2) t by (intro exI [of _ t]) (simp add: runnable_def)
  then have "pool_inv st" by (rule section_inv [OF inv])
  moreover note h = handled_carriers [OF inv handled(1,2)]
  ultimately have "flight_inv (m\<lparr>crew := st\<rparr>)" using handled by (intro flight_inv_shrink) auto
  moreover have "?f \<notin> carried st"
  proof
    assume "?f \<in> carried st"
    then obtain b where b: "b \<in> carriers st" "job_at (job_heap st) b = ?f" by (auto simp: carried_def)
    then have "b \<in> carriers (crew m)" "b \<noteq> a" "job_at (job_heap (crew m)) b = ?f" using h by auto
    with handled(3) h show False by (auto simp: flight_inv_def inj_on_def)
  qed
  ultimately show ?case by (auto simp: flight_inv_def)
next
  case (other_section t m st)
  have inv: "pool_inv (crew m)" using other_section by (simp add: flight_inv_def)
  have "pool_inv st" using section_inv [OF inv, of st] other_section by (auto simp: section_step_def)
  with section_carriers [OF inv other_section(1,3,4)] other_section show ?case by (intro flight_inv_shrink) auto
next
  case (woken t m)
  have "pool_inv (set_worker t Woken (crew m))"
    using woken by (intro pool_step_inv [OF pool_step.spurious]) (simp_all add: flight_inv_def)
  moreover have "carriers (set_worker t Woken (crew m)) \<subseteq> carriers (crew m)"
    using woken holds_set_worker [of t "crew m" Woken] by (auto simp: carriers_def)
  ultimately show ?case using woken by (intro flight_inv_shrink) auto
next
  case (shrink_check m)
  have "carriers (threadpool_maybe_shrink (crew m)) = carriers (crew m) \<and>
      job_heap (threadpool_maybe_shrink (crew m)) = job_heap (crew m)"
    by (simp add: threadpool_maybe_shrink_def Let_def)
  with shrink_check show ?case by (intro flight_inv_shrink) (auto simp: flight_inv_def shrink_inv)
qed

lemma loop_reachable_inv: "loop_reachable m \<Longrightarrow> flight_inv m"
proof (induction rule: loop_reachable.induct)
  case (began n k)
  have inv: "pool_inv (start_pool n k)" by (rule pool_reachable_inv [OF reachable_run(1) [OF began]])
  have "workers (start_pool n k) = replicate n Top" "queue_of (start_pool n k) = (Map.empty, None, None, 0)"
    by (simp_all add: start_pool_def threadpool_create_def queue_of_def)
  then have "carriers (start_pool n k) = {}" by (auto simp: carriers_def holds_def queue_addrs_def)
  then show ?case using inv by (simp add: flight_inv_def carried_def)
qed (rule loop_step_inv)

text \<open>C3: While a worker handles a connection, its descriptor is not armed, the connection is not queued, and no other
  worker handles it: the one-shot events and the re-arming at the end of \<open>handle_client\<close> give every
  connection to one worker at a time.\<close>

theorem one_worker_per_connection:
  assumes "loop_reachable m" and "holds (workers (crew m)) t a" and "holds (workers (crew m)) u b"
    and "job_at (job_heap (crew m)) a = job_at (job_heap (crew m)) b"
  shows "t = u \<and> job_at (job_heap (crew m)) a \<notin> armed m \<and> job_at (job_heap (crew m)) a \<notin> set (queue_items (queue_of (crew m)))"
proof -
  let ?j = "job_at (job_heap (crew m))"
  have inv: "flight_inv m" by (rule loop_reachable_inv [OF assms(1)])
  then have hold: "holders_ok (job_heap (crew m)) (queue_addrs (queue_of (crew m))) (workers (crew m))"
    by (simp add: flight_inv_def pool_inv_def jobs_inv_def)
  have mem: "a \<in> carriers (crew m)" "b \<in> carriers (crew m)" using assms(2,3) by (auto simp: carriers_def)
  then have "a = b" using inv assms(4) by (auto simp: flight_inv_def inj_on_def)
  then have "t = u" using hold assms(2,3) by (auto simp: holders_ok_def)
  moreover have "?j a \<notin> armed m" using inv mem by (auto simp: flight_inv_def carried_def)
  moreover have "?j a \<notin> set (queue_items (queue_of (crew m)))"
  proof
    assume "?j a \<in> set (queue_items (queue_of (crew m)))"
    then obtain c where "c \<in> set (queue_addrs (queue_of (crew m)))" "?j c = ?j a" by (auto simp: queue_items_def)
    moreover from this have "c = a" using inv mem by (auto simp: flight_inv_def inj_on_def carriers_def)
    ultimately show False using hold assms(2) by (auto simp: holders_ok_def)
  qed
  ultimately show ?thesis by blast
qed

text \<open>Connection 5 is accepted, becomes readable and is taken by the only worker.\<close>

definition sample_event :: main_loop where
  "sample_event = dispatch_event False (Some 7) 0 (\<lambda>_. True) 5 \<lparr>armed = {5}, crew = start_pool 1 1\<rparr>"

definition sample_loop :: main_loop where
  "sample_loop = sample_event\<lparr>crew := run_section 0 (crew sample_event)\<rparr>"

lemma sample_loop_steps: "loop_step \<lparr>armed = {5}, crew = start_pool 1 1\<rparr> sample_event" "loop_step sample_event sample_loop"
proof -
  let ?m = "\<lparr>armed = {5}, crew = start_pool 1 1\<rparr> :: main_loop"
  have "signal_ok 0 (crew ?m)" "job_heap (crew ?m) 7 = None"
    by (simp_all add: signal_ok_def start_pool_def threadpool_create_def)
  then show "loop_step ?m sample_event" unfolding sample_event_def by (intro event) auto
  have top: "length (workers (crew sample_event)) = 1 \<and> workers (crew sample_event) ! 0 = Top \<and>
      Option.is_none (worker_section 0 (crew sample_event)) = False"
    by code_simp
  then have "worker_section 0 (crew sample_event) = Some (run_section 0 (crew sample_event))"
    by (auto simp: run_section_def runnable_def Option.is_none_def)
  then show "loop_step sample_event sample_loop"
    unfolding sample_loop_def using top by (intro other_section [where t = 0]) (auto simp: runnable_def holds_def)
qed

lemma reachable_sample_loop: "loop_reachable sample_loop"
proof -
  let ?m0 = "\<lparr>armed = {}, crew = start_pool 1 1\<rparr> :: main_loop"
  have "loop_reachable ?m0" by (rule began) simp_all
  moreover have "5 \<notin> carried (crew ?m0)"
    by (auto simp: carried_def carriers_def holds_def start_pool_def threadpool_create_def queue_of_def queue_addrs_def)
  ultimately have "loop_reachable \<lparr>armed = {5}, crew = start_pool 1 1\<rparr>" using continued [OF _ connected [of 5 ?m0]] by simp
  then show ?thesis using sample_loop_steps by (metis continued)
qed

theorem one_worker_per_connection_witness: "job_at (job_heap (crew sample_loop)) 7 \<notin> armed sample_loop"
proof -
  have "length (workers (crew sample_loop)) = 1 \<and> workers (crew sample_loop) ! 0 = Handling 7" by code_simp
  then have "holds (workers (crew sample_loop)) 0 7" by (simp add: holds_def)
  from one_worker_per_connection [OF reachable_sample_loop this this] show ?thesis by simp
qed

section \<open>Shutdown\<close>

text \<open>
  The end of \<open>run_server\<close>: every client is told, the database handle and the registry are released.  In between the
  server waits for half a second and destroys the pool, whose workers still serve what is queued; these commands are not part of this
  definition (the end of the pool is in theory \<open>Threadpool\<close>, the order of the calls in \<open>Startup\<close>).
\<close>

definition server_shutdown :: "env \<Rightarrow> server \<Rightarrow> event list \<times> server" where
  "server_shutdown e s =
     (notify_all_clients e (srv_reg s) (snprintf_out MAX_LINE_LEN (''ERR SERVER_SHUTDOWN'' @ [NL])),
      s\<lparr>srv_db := db_close (srv_db s), srv_reg := registry_destroy (srv_reg s)\<rparr>)"

text \<open>C19: On shutdown every connection with a logged-in client, and no other, is sent the notice \<open>ERR SERVER_SHUTDOWN\<close> exactly
  once, on which the client program ends; afterwards no client and no room is left allocated.\<close>

theorem shutdown_notifies_all:
  assumes "reachable sy" and "env_alloc_fds e"
  shows "\<exists>xs s'. server_shutdown e (sys_srv sy) = (map (\<lambda>x. Send x (''ERR SERVER_SHUTDOWN'' @ [NL])) xs, s') \<and> distinct xs \<and>
     set xs = {f. \<exists>c ca. sys_conns sy f = Some c \<and> conn_me c = Some ca} \<and>
     client_heap (srv_reg s') = Map.empty \<and> room_heap (srv_reg s') = Map.empty"
proof -
  have inv: "system_inv sy" by (rule reachable_system_inv [OF assms(1)])
  let ?g = "srv_reg (sys_srv sy)"
  let ?fd = "\<lambda>p. case p of None \<Rightarrow> -1 | Some a \<Rightarrow> (case client_heap ?g a of None \<Rightarrow> -1 | Some c \<Rightarrow> socket_fd c)"
  let ?xs = "map ?fd (take (client_count ?g) (client_list ?g))"
  have g: "registry_inv ?g" using inv by (simp add: system_inv_def server_inv_def)
  have cl: "distinct (take (client_count ?g) (client_list ?g))" "set (take (client_count ?g) (client_list ?g)) = Some ` dom (client_heap ?g)"
    and rm: "set (take (room_count ?g) (room_list ?g)) = Some ` dom (room_heap ?g)"
    using registry_invD(1,2) [OF g] by (simp_all add: counted_def)
  have "inj_on ?fd (Some ` dom (client_heap ?g))" using system_fds_inj [OF inv] by (auto simp: inj_on_def)
  then have "distinct ?xs" using cl by (simp add: distinct_map)
  moreover have "set ?xs = {f. \<exists>c ca. sys_conns sy f = Some c \<and> conn_me c = Some ca}"
  proof -
    have "set ?xs = {f. \<exists>ca. fd_of ?g ca = Some f}"
      unfolding set_map cl(2) by (force simp: fd_of_def idents_def)
    also have "\<dots> = {f. \<exists>ca. me_of (sys_conns sy) f = Some ca}"
      using inv by (auto simp: system_inv_def inverse_maps_def)
    finally show ?thesis by (auto simp: me_of_def Option.bind_eq_Some_conv)
  qed
  moreover have "client_heap (registry_destroy ?g) = Map.empty" "room_heap (registry_destroy ?g) = Map.empty"
    using cl rm by (auto simp: registry_destroy_def fun_eq_iff)
  moreover have "notify_all_clients e ?g msg = map (\<lambda>x. Send x msg) ?xs" for msg
    using assms(2) by (cases "client_count ?g") (auto simp: notify_all_clients_def)
  then have "server_shutdown e (sys_srv sy) = (map (\<lambda>x. Send x (''ERR SERVER_SHUTDOWN'' @ [NL])) ?xs,
      (sys_srv sy)\<lparr>srv_db := db_close (srv_db (sys_srv sy)), srv_reg := registry_destroy ?g\<rparr>)"
    unfolding server_shutdown_def by simp
  ultimately show ?thesis by (intro exI conjI) (assumption | simp)+
qed

theorem shutdown_notifies_all_witness:
  "\<exists>xs s'. server_shutdown (sample_env 9 9) (sys_srv sample_chat) = (map (\<lambda>x. Send x (''ERR SERVER_SHUTDOWN'' @ [NL])) xs, s') \<and> 5 \<in> set xs"
proof -
  have "\<exists>c ca. sys_conns sample_chat 5 = Some c \<and> conn_me c = Some ca"
    using sample_chat_seated by (auto simp: seated_def split: option.splits)
  moreover have "env_alloc_fds (sample_env 9 9)" by (simp add: sample_env_def)
  ultimately show ?thesis using shutdown_notifies_all [OF reachable_sample_chat] by blast
qed

end
