(* ===== verification/Chat_Client.thy ===== *)
theory Chat_Client
  imports Protocol History
begin

text \<open>
  The terminal client (\<open>replies/client.c\<close>, \<open>src/display.c\<close>): what it shows for each line of the server
  (\<open>handle_server_line\<close>), how it cuts the received bytes into lines (\<open>receiver_thread\<close>) and what it
  sends for each line the user types (\<open>main\<close>).
\<close>

section \<open>State and screen\<close>

record chat_client =
  cl_room :: string       \<comment> \<open>\<open>current_room\<close>\<close>
  cl_running :: bool

text \<open>The calls of \<open>src/display.c\<close>; \<open>Screen_overflow\<close>: an append behind the end of the local buffer.\<close>

datatype shown =
    Shown_system string | Shown_error string | Shown_notice string
  | Shown_message string string string | Shown_pm string string | Screen_overflow

text \<open>What the terminal prints after the time stamp \<open>[hh:mm]\<close>.\<close>

definition ESC :: char where "ESC = CHR 0x1B"

definition colour :: "string \<Rightarrow> string" where
  "colour code = ESC # ''['' @ code @ ''m''"

definition COLOR_RESET :: string where "COLOR_RESET = colour ''0''"

definition display :: "string \<Rightarrow> shown \<Rightarrow> string" where
  "display stamp x = (case x of
     Shown_message r u t \<Rightarrow> stamp @ colour ''1;34'' @ r @ '' '' @ COLOR_RESET @ ''| '' @ colour ''1;32'' @ u @ '':'' @ COLOR_RESET @ '' '' @ t @ [NL]
   | Shown_pm u t \<Rightarrow> stamp @ colour ''3;35'' @ ''[DM from '' @ u @ '']'' @ COLOR_RESET @ '': '' @ t @ [NL]
   | Shown_notice t \<Rightarrow> stamp @ colour ''2;33'' @ ''*** NOTICE : '' @ t @ '' ***'' @ COLOR_RESET @ [NL]
   | Shown_error t \<Rightarrow> stamp @ colour ''1;31'' @ ''[error] '' @ t @ '' !!!'' @ COLOR_RESET @ [NL]
   | Shown_system t \<Rightarrow> stamp @ colour ''2;33'' @ ''[system] '' @ t @ COLOR_RESET @ [NL]
   | Screen_overflow \<Rightarrow> [])"

type_synonym screen = "shown list \<times> chat_client"

definition show1 :: "chat_client \<Rightarrow> shown \<Rightarrow> screen" where
  "show1 cl x = ([x], cl)"

section \<open>Scanning\<close>

text \<open>\<open>strtol(t, &end, 10); *end == 0\<close> for a token: it is a number to its last character.\<close>

definition whole_number :: "string \<Rightarrow> bool" where
  "whole_number t \<longleftrightarrow>
     (let s1 = dropWhile isspace t; s2 = (if s1 \<noteq> [] \<and> hd s1 \<in> {CHR ''-'', CHR ''+''} then tl s1 else s1) in
      s2 \<noteq> [] \<and> list_all isdigit s2)"

lemma strtok_rest_shorter: "strtok d s = (Some t, r) \<Longrightarrow> length r < length s"
proof -
  assume "strtok d s = (Some t, r)"
  then have ne: "dropWhile (\<lambda>c. c \<in> set d) s \<noteq> []"
    and r: "r = drop 1 (dropWhile (\<lambda>c. c \<notin> set d) (dropWhile (\<lambda>c. c \<in> set d) s))"
    by (auto simp: strtok_def Let_def split: if_splits)
  let ?s = "dropWhile (\<lambda>c. c \<in> set d) s"
  have "hd ?s \<notin> set d" using ne by (rule hd_dropWhile)
  then have "length r < length ?s" using ne length_dropWhile_le [of "\<lambda>c. c \<notin> set d" "tl ?s"] by (cases ?s) (auto simp: r)
  then show ?thesis using length_dropWhile_le [of "\<lambda>c. c \<in> set d" s] by linarith
qed

text \<open>\<open>while ((tok = next_token(&rest, " ")) != NULL)\<close>\<close>

function tokens_of :: "char list \<Rightarrow> string \<Rightarrow> string list" where
  "tokens_of d s = (case strtok d s of (None, _) \<Rightarrow> [] | (Some t, r) \<Rightarrow> t # tokens_of d r)"
  by pat_completeness auto
termination by (relation "measure (\<lambda>(d, s). length s)") (auto dest: strtok_rest_shorter [OF sym])

declare tokens_of.simps [simp del]

text \<open>
  The optional header \<open><total> <offset> <count>\<close>.  Without it the scan starts again at \<open>save\<close>, where \<open>strtok_r\<close> has
  put a terminator behind the first word: what follows that word is out of reach.
\<close>

definition page_header :: "string \<Rightarrow> (int \<times> int \<times> int) option \<times> string" where
  "page_header save =
     (let (t1, r1) = strtok [SP] save; (t2, r2) = strtok [SP] r1; (t3, r3) = strtok [SP] r2;
          rewound = (case t1 of None \<Rightarrow> [] | Some a \<Rightarrow> a) in
      case (t1, t2, t3) of
        (Some a, Some b, Some c) \<Rightarrow>
          if whole_number a \<and> whole_number b \<and> whole_number c then (Some (atoi a, atoi b, atoi c), r3) else (None, rewound)
      | _ \<Rightarrow> (None, rewound))"

text \<open>The appends \<open>off += snprintf(buf + off, sizeof(buf) - off, ...)\<close> and the display of the buffer.\<close>

definition show_listing :: "chat_client \<Rightarrow> string list \<Rightarrow> screen" where
  "show_listing cl parts = (case sn_appends MAX_LINE_LEN ([], 0) parts of
     Inl _ \<Rightarrow> ([Screen_overflow], cl) | Inr (buf, _) \<Rightarrow> ([Shown_system buf], cl))"

section \<open>The replies\<close>

definition with_token :: "chat_client \<Rightarrow> string option \<Rightarrow> string \<Rightarrow> string \<Rightarrow> string \<Rightarrow> screen" where
  "with_token cl tok before after plain = (case tok of
     Some t \<Rightarrow> show1 cl (Shown_system (snprintf_out 160 (before @ t @ after)))
   | None \<Rightarrow> show1 cl (Shown_system plain))"

definition reply_ok :: "string \<Rightarrow> chat_client \<Rightarrow> screen" where
  "reply_ok rest cl =
     (let (status, r1) = strtok [SP] rest; (tok, _) = strtok [SP] r1 in
      case status of
        None \<Rightarrow> show1 cl (Shown_system ''OK'')
      | Some st \<Rightarrow>
          if st = ''REGISTERED'' then with_token cl tok ''Registered successfully. Session token: '' '' (save for RECONNECT)'' ''Registered successfully.''
          else if st = ''LOGGED_IN'' then with_token cl tok ''Logged in successfully. Session token: '' [] ''Logged in successfully.''
          else if st = ''RECONNECTED'' then with_token cl tok ''Reconnected successfully. New token: '' [] ''Reconnected successfully.''
          else if st = ''SESSION''
          then (case tok of Some t \<Rightarrow> show1 cl (Shown_system (snprintf_out 160 (''Session token: '' @ t))) | None \<Rightarrow> ([], cl))
          else if st = ''CREATED'' then show1 cl (Shown_system ''Room created. You are now in it.'')
          else if st = ''JOINED'' then show1 cl (Shown_system ''Joined room.'')
          else if st = ''LEFT'' then show1 (cl\<lparr>cl_room := []\<rparr>) (Shown_system ''Left the room.'')
          else if st = ''KICKED'' then show1 cl (Shown_system ''User kicked.'')
          else if st = ''PROMOTED'' then show1 cl (Shown_system ''User promoted to admin.'')
          else if st = ''STATUS_SET'' then show1 cl (Shown_system ''Status updated.'')
          else if st = ''LOGOUT_OK'' then show1 cl (Shown_system ''Logged out.'')
          else if st = ''SENT'' then ([], cl)
          else show1 cl (Shown_system (snprintf_out 256 (''OK '' @ st @ (case tok of Some t \<Rightarrow> SP # t | None \<Rightarrow> [])))))"

text \<open>The UTF-8 bytes of the dash in the warning.\<close>

definition EM_DASH :: string where "EM_DASH = [CHR 0xE2, CHR 0x80, CHR 0x94]"

definition reply_err :: "string \<Rightarrow> chat_client \<Rightarrow> screen" where
  "reply_err rest cl =
     (case fst (strtok [SP] rest) of
        None \<Rightarrow> show1 cl (Shown_error ''UNKNOWN'')
      | Some code \<Rightarrow>
          if code = ''KICKED'' then show1 (cl\<lparr>cl_room := []\<rparr>) (Shown_system ''You have been kicked from the room.'')
          else if code = ''SERVER_SHUTDOWN'' then show1 (cl\<lparr>cl_running := False\<rparr>) (Shown_system ''Server is shutting down. Goodbye.'')
          else if code = ''RATE_LIMITED'' then show1 cl (Shown_error (''Slow down '' @ EM_DASH @ '' you are sending messages too fast.''))
          else show1 cl (Shown_error code))"

definition reply_notice :: "string \<Rightarrow> chat_client \<Rightarrow> screen" where
  "reply_notice rest cl =
     (let (user, r1) = strtok [SP] rest; (action, r2) = strtok [SP] r1; (room, _) = strtok [SP] r2 in
      case (user, action, room) of
        (Some u, Some a, Some r) \<Rightarrow>
          if u = ''history''
          then show1 cl (Shown_system (snprintf_out 256
                 (if a = ''START'' then ''--- last messages in '' @ r @ '' ---'' else ''--- end of history ---'')))
          else if a = ''JOINED''
          then show1 (cl\<lparr>cl_room := strncpy_term MAX_ROOM_NAME_LEN r\<rparr>) (Shown_notice (snprintf_out 256 (u @ '' joined '' @ r)))
          else show1 cl (Shown_notice (snprintf_out 256
                 (if a = ''LEFT'' then u @ '' left '' @ r
                  else if a = ''KICKED'' then u @ '' was kicked from '' @ r
                  else if a = ''PROMOTED'' then u @ '' is now admin of '' @ r
                  else if a \<in> {''ONLINE'', ''AWAY'', ''BUSY''} then u @ '' is now '' @ a
                  else u @ '' '' @ a @ '' '' @ r)))
      | _ \<Rightarrow> ([], cl))"

definition room_or_unknown :: "chat_client \<Rightarrow> string" where
  "room_or_unknown cl = (if cl_room cl \<noteq> [] then cl_room cl else ''?'')"

text \<open>\<open>MSG [<id>] <sender> <text>\<close>\<close>

definition reply_msg :: "string \<Rightarrow> chat_client \<Rightarrow> screen" where
  "reply_msg rest cl =
     (let (first_tok, r1) = strtok [SP] rest in
      case first_tok of
        None \<Rightarrow> ([], cl)
      | Some t1 \<Rightarrow>
          if whole_number t1 \<and> r1 \<noteq> []
          then (let (sender, text) = strtok [SP] r1 in
                case sender of
                  None \<Rightarrow> ([], cl)
                | Some u \<Rightarrow> show1 cl (Shown_message (room_or_unknown cl) u
                    (snprintf_out (MAX_TEXT_LEN + 32) (''['' @ t1 @ ''] '' @ text))))
          else show1 cl (Shown_message (room_or_unknown cl) t1 r1))"

definition reply_edited :: "string \<Rightarrow> chat_client \<Rightarrow> screen" where
  "reply_edited rest cl = (case strtok [SP] rest of
     (Some i, r1) \<Rightarrow> show1 cl (Shown_notice (snprintf_out 512 (''Message '' @ i @ '' edited: '' @ r1)))
   | (None, _) \<Rightarrow> ([], cl))"

definition reply_deleted :: "string \<Rightarrow> chat_client \<Rightarrow> screen" where
  "reply_deleted rest cl = (case strtok [SP] rest of
     (Some i, _) \<Rightarrow> show1 cl (Shown_notice (snprintf_out 256 (''Message '' @ i @ '' deleted'')))
   | (None, _) \<Rightarrow> ([], cl))"

definition or_default :: "string \<Rightarrow> string option \<Rightarrow> string" where
  "or_default d x = (case x of None \<Rightarrow> d | Some t \<Rightarrow> t)"

definition reply_history :: "string \<Rightarrow> chat_client \<Rightarrow> screen" where
  "reply_history rest cl =
     (let (room, r1) = strtok [SP] rest; (cursor, r2) = strtok [SP] r1; (n, _) = strtok [SP] r2 in
      show1 cl (Shown_system (snprintf_out 256 (''History '' @ or_default ''?'' room @ '' cursor='' @ or_default ''0'' cursor @
        '' count='' @ or_default ''0'' n))))"

definition reply_pm_from :: "string \<Rightarrow> chat_client \<Rightarrow> screen" where
  "reply_pm_from rest cl = (case strtok [SP] rest of
     (Some u, r1) \<Rightarrow> show1 cl (Shown_pm u r1) | (None, _) \<Rightarrow> ([], cl))"

definition reply_sessions :: "string \<Rightarrow> chat_client \<Rightarrow> screen" where
  "reply_sessions rest cl =
     (let (count_str, r1) = strtok [SP] rest; n = (case count_str of None \<Rightarrow> 0 | Some t \<Rightarrow> atoi t) in
      if n = 0 then show1 cl (Shown_system ''No active sessions.'')
      else show_listing cl ((''Active sessions ('' @ show_int n @ ''):'') # map (\<lambda>t. SP # t) (tokens_of [SP] r1)))"

definition reply_read_receipt :: "string \<Rightarrow> chat_client \<Rightarrow> screen" where
  "reply_read_receipt rest cl =
     (let (mid, r1) = strtok [SP] rest; (reader, _) = strtok [SP] r1 in
      case (mid, reader) of
        (Some m, Some u) \<Rightarrow> show1 cl (Shown_notice (snprintf_out 256 (u @ '' read message #'' @ m)))
      | _ \<Rightarrow> ([], cl))"

definition reply_typing :: "string \<Rightarrow> string \<Rightarrow> chat_client \<Rightarrow> screen" where
  "reply_typing what rest cl = (case fst (strtok [SP] rest) of
     Some u \<Rightarrow> show1 cl (Shown_notice (snprintf_out 128 (u @ what))) | None \<Rightarrow> ([], cl))"

text \<open>An entry of \<open>WHO_REPLY\<close>: \<open>[*]name[/status]\<close>.\<close>

definition who_item :: "string \<Rightarrow> string" where
  "who_item entry =
     (let is_admin = (entry \<noteq> [] \<and> hd entry = CHR ''*''); name = (if is_admin then tl entry else entry);
          body = (if CHR ''/'' \<in> set name
                  then takeWhile (\<lambda>c. c \<noteq> CHR ''/'') name @ ''/'' @ tl (dropWhile (\<lambda>c. c \<noteq> CHR ''/'') name) else name) in
      '' ['' @ (if is_admin then ''*'' else []) @ body @ '']'')"

definition reply_who :: "string \<Rightarrow> chat_client \<Rightarrow> screen" where
  "reply_who rest cl =
     (case page_header rest of
        (Some (total_n, offset, n), r) \<Rightarrow>
          (let upto = signed_take_bit 31 (offset + n - 1) in
           show_listing cl ((''Users in room ('' @ show_int total_n @ '' total, '' @ show_int offset @ ''-'' @
             show_int (if upto < 0 then 0 else upto) @ ''):'') # map who_item (tokens_of [SP] r) @
             (if n = 0 then ['' (no entries in this page)''] else [])))
      | (None, r) \<Rightarrow> show_listing cl (''Users in room:'' # map who_item (tokens_of [SP] r)))"

definition reply_rooms :: "string \<Rightarrow> chat_client \<Rightarrow> screen" where
  "reply_rooms rest cl =
     (case page_header rest of
        (Some (total_n, offset, n), r) \<Rightarrow>
          (let names = tokens_of [SP] r in
           show_listing cl ((''Active rooms ('' @ show_int total_n @ '' total, offset '' @ show_int offset @ '', '' @
             show_int n @ '' shown):'') # map (\<lambda>t. SP # t) names @ (if names = [] then ['' (none)''] else [])))
      | (None, r) \<Rightarrow> show_listing cl (''Active rooms:'' # map (\<lambda>t. SP # t) (tokens_of [SP] r)))"

section \<open>One line\<close>

definition strip_eol :: "string \<Rightarrow> string" where
  "strip_eol s = rev (dropWhile (\<lambda>c. c = NL \<or> c = CR) (rev s))"

text \<open>
  For an unknown reply \<open>line\<close> itself is displayed; \<open>strtok_r\<close> has put a terminator behind its
  first word.
\<close>

definition handle_server_line :: "string \<Rightarrow> chat_client \<Rightarrow> screen" where
  "handle_server_line l cl =
     (let line = strip_eol l; (first, rest) = strtok [SP] line in
      case first of
        None \<Rightarrow> ([], cl)
      | Some w \<Rightarrow>
          if w = ''OK'' then reply_ok rest cl
          else if w = ''ERR'' then reply_err rest cl
          else if w = ''NOTICE'' then reply_notice rest cl
          else if w = ''MSG'' then reply_msg rest cl
          else if w = ''MESSAGE_EDITED'' then reply_edited rest cl
          else if w = ''MESSAGE_DELETED'' then reply_deleted rest cl
          else if w = ''HISTORY_REPLY'' then reply_history rest cl
          else if w = ''PM_FROM'' then reply_pm_from rest cl
          else if w = ''SESSIONS_REPLY'' then reply_sessions rest cl
          else if w = ''READ_RECEIPT'' then reply_read_receipt rest cl
          else if w = ''TYPING'' then reply_typing '' is typing...'' rest cl
          else if w = ''STOP_TYPING'' then reply_typing '' stopped typing.'' rest cl
          else if w = ''LOGOUT_OK'' then show1 cl (Shown_system ''Logged out.'')
          else if w = ''END_HISTORY'' then show1 cl (Shown_system ''--- end of history ---'')
          else if w = ''WHO_REPLY'' then reply_who rest cl
          else if w = ''ROOMS_REPLY'' then reply_rooms rest cl
          else show1 cl (Shown_system (takeWhile (\<lambda>c. c = SP) line @ w)))"

fun handle_lines :: "string list \<Rightarrow> chat_client \<Rightarrow> screen" where
  "handle_lines [] cl = ([], cl)"
| "handle_lines (l # ls) cl = (let (xs, cl1) = handle_server_line l cl; (ys, cl2) = handle_lines ls cl1 in (xs @ ys, cl2))"

text \<open>The receiver: every chunk that \<open>recv\<close> returns is cut at newlines by itself; \<open>running\<close> is tested before each.\<close>

fun receiver_thread :: "char list list \<Rightarrow> chat_client \<Rightarrow> screen" where
  "receiver_thread [] cl = (if cl_running cl then ([Shown_system ''Disconnected from server.''], cl\<lparr>cl_running := False\<rparr>) else ([], cl))"
| "receiver_thread (chunk # chunks) cl =
     (if cl_running cl \<and> chunk \<noteq> []
      then let (xs, cl1) = handle_lines (tokens_of [NL] (cstr chunk)) cl; (ys, cl2) = receiver_thread chunks cl1 in (xs @ ys, cl2)
      else if cl_running cl then ([Shown_system ''Disconnected from server.''], cl\<lparr>cl_running := False\<rparr>) else ([], cl))"

section \<open>User input\<close>

datatype typed = Typed_nothing | Typed_quit | Typed_help | Typed_line string

text \<open>One line of \<open>fgets\<close> in \<open>main\<close>: what is sent, and the room that is remembered.\<close>

definition READ_BUFFER_SIZE :: nat where "READ_BUFFER_SIZE = 1024"

definition type_input :: "string \<Rightarrow> chat_client \<Rightarrow> typed \<times> chat_client" where
  "type_input s cl =
     (let input = strip_eol s in
      if input = [] then (Typed_nothing, cl)
      else if input = ''/quit'' then (Typed_quit, cl)
      else if input = ''/help'' then (Typed_help, cl)
      else (Typed_line (snprintf_out (READ_BUFFER_SIZE + 2) (input @ [NL])),
        if take 7 input = ''CREATE '' then cl\<lparr>cl_room := strncpy_term MAX_ROOM_NAME_LEN (drop 7 input)\<rparr>
        else if take 5 input = ''JOIN '' then cl\<lparr>cl_room := strncpy_term MAX_ROOM_NAME_LEN (drop 5 input)\<rparr> else cl))"

text \<open>The lines of \<open>print_help\<close>.\<close>

definition help_lines :: "string list" where
  "help_lines =
    [''Commands:'',
     ''  REGISTER <name> <pass> - register with password'',
     ''  LOGIN <name> <pass>    - login with existing account'',
     ''  RECONNECT <token>      - reconnect with session token'',
     ''  CREATE <room>        - create and join a room'',
     ''  JOIN <room>          - join an existing room'',
     ''  LEAVE                - leave current room'',
     ''  MSG <text>           - send message to room'',
     ''  PM <user> <text>     - send private message'',
     ''  WHO [offset] [limit] - list users in room (paginated)'',
     ''  ROOMS [offset] [limit] - list all rooms (paginated)'',
     ''  KICK <user>          - kick a user (admin only)'',
     ''  PROMOTE <user>       - make a user admin (admin only)'',
     ''  STATUS <ONLINE|AWAY|BUSY> - set your presence status'',
     ''  EDIT <id> <text>     - edit own message (by id)'',
     ''  DELETE <id>          - delete own message (admin can delete any)'',
     ''  HISTORY <room> [cursor] [limit] - paginated history (cursor=id)'',
     ''  SEARCH <room> <query> - search messages in room'',
     ''  READ <msg_id>        - mark message as read (receipt)'',
     ''  TYPING               - broadcast typing indicator'',
     ''  STOP_TYPING          - stop typing indicator'',
     ''  SESSIONS             - list your active sessions'',
     ''  REVOKE_SESSION <token> - revoke a session'',
     ''  LOGOUT               - logout current session'',
     ''  LOGOUT_ALL           - logout all sessions'',
     ''  BLOCK <user>         - block a user (hide their messages)'',
     ''  UNBLOCK <user>       - unblock a user'',
     ''  MUTE <user>          - mute a user in room (admin)'',
     ''  UNMUTE <user>        - unmute a user (admin)'',
     ''  BAN <user>           - ban a user (admin/owner)'',
     ''  DEMOTE <user>        - demote admin to member (owner only)'',
     ''  CREATE_PRIVATE <room> - create private invite-only room'',
     ''  INVITE <user> <room> - invite user to private room'',
     ''  ACCEPT <room>        - accept private room invite'',
     ''  DECLINE <room>       - decline private room invite'',
     ''  /help                - show this help'',
     ''  /quit                - disconnect and exit'',
     ''Pagination: e.g. WHO 0 10, ROOMS 0 10, HISTORY demoRoom 0 20'',
     ''Session: after REGISTER/LOGIN, save the token for RECONNECT'',
     ''Message IDs shown as [id] in MSG, use for EDIT/DELETE'']"

definition print_help :: "shown list" where
  "print_help = map Shown_system help_lines"

text \<open>
  \<open>tls_connect\<close>: the greeting (\<open>None\<close>: \<open>recv\<close> did not return one byte) decides; the OpenSSL calls (context, object,
  handshake) may fail.  The result says whether the connection is encrypted.
\<close>

definition tls_connect :: "char option \<Rightarrow> bool \<Rightarrow> bool \<Rightarrow> bool \<Rightarrow> bool" where
  "tls_connect greeting ctx_ok ssl_ok handshake =
     (case greeting of
        None \<Rightarrow> False
      | Some g \<Rightarrow>
          if g = CHR ''P'' then False
          else if g \<noteq> CHR ''T'' then False
          else if \<not> ctx_ok then False
          else if \<not> ssl_ok then False
          else handshake)"

text \<open>
  What the start of \<open>main\<close> shows once the socket is connected.  The loop over the typed lines: for each one whether
  \<open>running\<close> still holds when it is tested (the receiver clears it), the line, and whether the send succeeds; what is shown
  and what is sent.
\<close>

definition client_connected :: "char option \<Rightarrow> bool \<Rightarrow> bool \<Rightarrow> bool \<Rightarrow> shown list" where
  "client_connected greeting ctx_ok ssl_ok handshake =
     [Shown_system ''Connected to chat server. Type /help for commands.'',
      Shown_system (if tls_connect greeting ctx_ok ssl_ok handshake then ''TLS connection established.''
                    else ''Plain-text connection (TLS not available).'')]"

fun input_loop :: "(bool \<times> string \<times> bool) list \<Rightarrow> chat_client \<Rightarrow> shown list \<times> string list \<times> chat_client" where
  "input_loop [] cl = ([], [], cl\<lparr>cl_running := False\<rparr>)"
| "input_loop ((still, s, sent) # ins) cl =
     (if \<not> still then ([], [], cl\<lparr>cl_running := False\<rparr>)
      else case type_input s cl of
        (Typed_nothing, cl1) \<Rightarrow> input_loop ins cl1
      | (Typed_quit, cl1) \<Rightarrow> ([Shown_system ''Goodbye.''], [], cl1\<lparr>cl_running := False\<rparr>)
      | (Typed_help, cl1) \<Rightarrow> (let (xs, outs, cl2) = input_loop ins cl1 in (print_help @ xs, outs, cl2))
      | (Typed_line l, cl1) \<Rightarrow>
          if sent then (let (xs, outs, cl2) = input_loop ins cl1 in (xs, l # outs, cl2))
          else ([Shown_system ''Failed to send. Disconnected?''], [], cl1\<lparr>cl_running := False\<rparr>))"

section \<open>Properties\<close>

text \<open>A failed handshake is not told apart from a server without TLS, and the help advertises a command no parser knows.\<close>

lemma tls_connect_iff: "tls_connect g c s h \<longleftrightarrow> g = Some (CHR ''T'') \<and> c \<and> s \<and> h"
  by (auto simp: tls_connect_def split: option.splits)

lemma search_advertised: "''  SEARCH <room> <query> - search messages in room'' \<in> set help_lines"
  unfolding help_lines_def by simp

lemma search_not_a_command: "ctype (parse_line ''SEARCH den cat'') = TYPE_INVALID"
  by code_simp

lemma input_loop_stops: "cl_running (snd (snd (input_loop ins cl))) = False"
  by (induction ins cl rule: input_loop.induct) (auto simp: type_input_def Let_def split: prod.splits typed.splits)

text \<open>Words behind spaces are read back one by one.\<close>

lemma tokens_of_words:
  "\<forall>w\<in>set ws. token w \<Longrightarrow> tokens_of [SP] (concat (map (\<lambda>w. SP # w) ws)) = ws"
proof (induction ws)
  case (Cons w ws)
  have "strtok [SP] (w @ concat (map (\<lambda>w. SP # w) ws)) = (Some w, tl (concat (map (\<lambda>w. SP # w) ws)))"
    using Cons.prems by (cases ws) simp_all
  moreover have "tokens_of [SP] (tl (concat (map (\<lambda>w. SP # w) ws))) = tokens_of [SP] (concat (map (\<lambda>w. SP # w) ws))"
    by (cases ws) (simp_all add: tokens_of.simps [of "[SP]" "SP # _"] tokens_of.simps [of "[SP]" "_ @ _"])
  ultimately show ?case using Cons by (simp add: tokens_of.simps [of "[SP]" "SP # _"])
qed (simp add: tokens_of.simps)

lemma strip_eol_snoc [simp]: "strip_eol (s @ [NL]) = strip_eol s"
  by (simp add: strip_eol_def)

lemma strip_eol_id: "s = [] \<or> last s \<noteq> NL \<and> last s \<noteq> CR \<Longrightarrow> strip_eol s = s"
  by (cases s rule: rev_cases) (auto simp: strip_eol_def)

lemma token_show_int: "token (show_int i)"
proof -
  have "c \<noteq> SP \<and> c \<noteq> NUL \<and> c \<noteq> NL \<and> c \<noteq> CR" if "isdigit c" for c
    using that by (auto simp: isdigit_def NUL_def Let_def)
  then show ?thesis using show_nat_isdigit by (auto simp: token_def show_int_def NUL_def)
qed

lemma whole_number_show_int: "whole_number (show_int i)"
proof -
  have digits: "list_all isdigit (show_nat n)" for n using show_nat_isdigit by (simp add: list_all_iff)
  show ?thesis
  proof (cases "i < 0")
    case True
    have "dropWhile isspace (CHR ''-'' # xs) = CHR ''-'' # xs" for xs by (simp add: isspace_def)
    then show ?thesis using True digits by (simp add: whole_number_def show_int_def)
  next
    case False
    then show ?thesis using digits [of "nat i"] hd_show_nat_isdigit [of "nat i"] isdigit_not_space_sign
      by (auto simp: whole_number_def show_int_def Let_def)
  qed
qed

text \<open>C16: A message of the room, formatted by the server for a line that fits its buffer, is shown by the client as
  a message of the current room from the same sender, with the same text behind its id.\<close>

theorem client_shows_message:
  assumes who: "token who" and t: "t = [] \<or> last t \<noteq> NL \<and> last t \<noteq> CR"
    and fits: "length (''MSG '' @ show_int mid @ '' '' @ who @ '' '' @ t) < MAX_LINE_LEN - 1"
      "length (''['' @ show_int mid @ ''] '' @ t) < MAX_TEXT_LEN + 32"
  shows "handle_server_line (format_msg_reply_id MAX_LINE_LEN mid who t) cl =
     ([Shown_message (room_or_unknown cl) who (''['' @ show_int mid @ ''] '' @ t)], cl)"
proof -
  let ?l = "''MSG '' @ show_int mid @ '' '' @ who @ '' '' @ t"
  have line: "format_msg_reply_id MAX_LINE_LEN mid who t = ?l @ [NL]"
    using fits(1) by (simp add: format_msg_reply_id_def)
  have "last ?l \<noteq> NL \<and> last ?l \<noteq> CR" using t by auto
  then have strip: "strip_eol (?l @ [NL]) = ?l" unfolding strip_eol_snoc by (intro strip_eol_id) blast
  have "token ''MSG''" using token_keyword [of TYPE_MSG] by simp
  then have "strtok [SP] ?l = (Some ''MSG'', show_int mid @ SP # who @ SP # t)"
    using strtok_token_SP [of "''MSG''" "show_int mid @ SP # who @ SP # t"] by simp
  then show ?thesis
    using whole_number_show_int [of mid] fits(2) who token_show_int [of mid]
    unfolding line strip handle_server_line_def Let_def
    by (simp add: reply_msg_def show1_def Let_def)
qed

theorem client_shows_message_witness:
  "handle_server_line (format_msg_reply_id MAX_LINE_LEN 17 ''al'' ''hi all'') \<lparr>cl_room = ''pub'', cl_running = True\<rparr> =
     ([Shown_message ''pub'' ''al'' ''[17] hi all''], \<lparr>cl_room = ''pub'', cl_running = True\<rparr>)"
proof -
  have "show_int 17 = ''17''" by code_simp
  moreover have "token ''al''" by (simp add: token_def NUL_def)
  ultimately show ?thesis
    using client_shows_message [of "''al''" "''hi all''" 17 "\<lparr>cl_room = ''pub'', cl_running = True\<rparr>"]
    by (simp add: room_or_unknown_def)
qed

text \<open>
  A reply the client does not know, such as the notice of an invitation, is displayed without everything behind its first
  word: the user learns neither who invites nor to which room.
\<close>

lemma unknown_reply_cut:
  assumes "token w" and "w \<notin> {''OK'', ''ERR'', ''NOTICE'', ''MSG'', ''MESSAGE_EDITED'', ''MESSAGE_DELETED'', ''HISTORY_REPLY'',
     ''PM_FROM'', ''SESSIONS_REPLY'', ''READ_RECEIPT'', ''TYPING'', ''STOP_TYPING'', ''LOGOUT_OK'', ''END_HISTORY'', ''WHO_REPLY'',
     ''ROOMS_REPLY''}"
    and "r = [] \<or> last r \<noteq> NL \<and> last r \<noteq> CR"
  shows "handle_server_line (w @ '' '' @ r @ [NL]) cl = ([Shown_system w], cl)"
proof -
  have "strip_eol ((w @ '' '' @ r) @ [NL]) = w @ '' '' @ r"
    unfolding strip_eol_snoc using assms(3) by (intro strip_eol_id) auto
  then have strip: "strip_eol (w @ '' '' @ r @ [NL]) = w @ SP # r" by simp
  have "takeWhile (\<lambda>c. c = SP) (w @ SP # r) = []" using assms(1) by (cases w) (auto simp: token_def)
  then show ?thesis unfolding handle_server_line_def strip Let_def using assms(1,2) by (simp add: show1_def)
qed

lemma unknown_reply_invite:
  "handle_server_line (''INVITE al den'' @ [NL]) \<lparr>cl_room = ''pub'', cl_running = True\<rparr> =
     ([Shown_system ''INVITE''], \<lparr>cl_room = ''pub'', cl_running = True\<rparr>)"
  using unknown_reply_cut [of "''INVITE''" "''al den''"] by (simp add: token_def NUL_def)

end
