(* ===== verification/Access.thy ===== *)
theory Access
  imports Server_Loop Chat_Client
begin

text \<open>
  Properties of the whole path of a command: what an unauthenticated connection can do, how fast a client can
  send, that the way bytes arrive in pieces does not matter, that what is typed is what is parsed, and what
  happens when an invitation into a full room is accepted.
\<close>

section \<open>Authentication\<close>

definition credential :: "env \<Rightarrow> store \<Rightarrow> cmd \<Rightarrow> bool" where
  "credential e d c \<longleftrightarrow>
     (\<exists>u pw. ctype c = TYPE_REGISTER \<and> arg1 c = Some u \<and> arg2 c = Some pw \<and> fst (db_register_user e d u pw) = 0) \<or>
     (\<exists>u pw. ctype c = TYPE_LOGIN \<and> arg1 c = Some u \<and> arg2 c = Some pw \<and> db_verify_user e d u pw = 0) \<or>
     (\<exists>tok. ctype c = TYPE_RECONNECT \<and> arg1 c = Some tok \<and>
        fst (db_validate_session e (snd (db_cleanup_expired_sessions e d)) tok MAX_USERNAME_LEN) = 0)"

lemma register_codes: "fst (db_register_user e d u pw) \<in> {0, -1, -2}"
  by (simp add: db_register_user_def Let_def split: option.split sql_outcome.split)

lemma verify_codes: "db_verify_user e d u pw \<in> {0, -1, -2, -3}"
  by (simp add: db_verify_user_def Let_def split: option.split sql_outcome.split list.split)

lemma refuse_me: "refuse f code s me = Some (evs, me', s') \<Longrightarrow> me' = me"
  by (simp add: refuse_def)

lemma register_credential:
  assumes "handle_register e f None c s = Some (evs, Some ca, s')"
  shows "\<exists>u pw. arg1 c = Some u \<and> arg2 c = Some pw \<and> fst (db_register_user e (srv_db s) u pw) = 0"
  using assms(1) register_codes [of e "srv_db s"]
  by (fastforce simp: handle_register_def refuse_def split_beta Let_def split: option.splits if_splits)

lemma login_credential:
  assumes "handle_login e f None c s = Some (evs, Some ca, s')"
  shows "\<exists>u pw. arg1 c = Some u \<and> arg2 c = Some pw \<and> db_verify_user e (srv_db s) u pw = 0"
  using assms verify_codes [of e "srv_db s"]
  by (fastforce simp: handle_login_def refuse_def split_beta Let_def split: option.splits if_splits)

lemma reconnect_credential:
  assumes "handle_reconnect e f None c s = Some (evs, Some ca, s')"
  shows "\<exists>tok. arg1 c = Some tok \<and>
     fst (db_validate_session e (snd (db_cleanup_expired_sessions e (srv_db s))) tok MAX_USERNAME_LEN) = 0"
  using assms
  by (auto simp: handle_reconnect_def refuse_def split_beta Let_def split: option.splits if_splits)

text \<open>C7: A connection without a client can only authenticate: any other line is answered \<open>ERR NOT_REGISTERED\<close> and changes
  nothing, and the connection gets a client only by registering a free name, by the right password, or
  by a session token that the database validates.\<close>

theorem unauthenticated_confined:
  assumes none: "conn_me c = None" and run: "process_line e c s line = Some (evs, rc, c', s')"
  shows "(conn_me c' \<noteq> None \<longrightarrow> credential e (srv_db s) (parse_line line)) \<and>
     (ctype (parse_line line) \<notin> {TYPE_REGISTER, TYPE_LOGIN, TYPE_RECONNECT} \<longrightarrow>
        evs = [err_reply (conn_fd c) ''NOT_REGISTERED''] \<and> c' = c \<and> s' = s)"
proof -
  define k where "k = parse_line line"
  have special: "\<not> (ctype k = TYPE_INVALID \<and> arg1 k = Some ''HEALTH'')" "\<not> (ctype k = TYPE_INVALID \<and> arg1 k = Some ''READY'')"
    using parse_incoming_invalid [of line] by (auto simp: k_def parse_line_def Let_def invalid_cmd_def split: if_splits)
  note run' = run [unfolded process_line_def Let_def k_def [symmetric] if_not_P [OF special(1)] if_not_P [OF special(2)] none]
  consider (register) "ctype k = TYPE_REGISTER" | (login) "ctype k = TYPE_LOGIN" | (reconnect) "ctype k = TYPE_RECONNECT"
    | (other) "ctype k \<notin> {TYPE_REGISTER, TYPE_LOGIN, TYPE_RECONNECT}" by blast
  then have "(conn_me c' \<noteq> None \<longrightarrow> credential e (srv_db s) k) \<and> (ctype k \<notin> {TYPE_REGISTER, TYPE_LOGIN, TYPE_RECONNECT} \<longrightarrow>
        evs = [err_reply (conn_fd c) ''NOT_REGISTERED''] \<and> c' = c \<and> s' = s)"
  proof cases
    case register
    then show ?thesis using run' by (auto simp: credential_def dest!: register_credential)
  next
    case login
    then show ?thesis using run' by (auto simp: credential_def dest!: login_credential)
  next
    case reconnect
    then show ?thesis using run' by (auto simp: credential_def dest!: reconnect_credential)
  next
    case other
    then show ?thesis using run' none by auto
  qed
  then show ?thesis by (simp only: k_def)
qed

theorem unauthenticated_confined_witness:
  "\<exists>evs. process_line (sample_env 9 9) (conn_create 7) (sys_srv sample_chat) ''ROOMS'' = Some (evs, 0, conn_create 7, sys_srv sample_chat) \<and>
     evs = [err_reply 7 ''NOT_REGISTERED'']"
proof -
  have ty: "ctype (parse_line ''ROOMS'') = TYPE_ROOMS" by code_simp
  obtain evs rc c' s' where run: "process_line (sample_env 9 9) (conn_create 7) (sys_srv sample_chat) ''ROOMS'' = Some (evs, rc, c', s')"
    using ty by (simp add: process_line_def conn_create_def Let_def)
  from unauthenticated_confined [OF _ this] ty have "evs = [err_reply 7 ''NOT_REGISTERED''] \<and> c' = conn_create 7 \<and> s' = sys_srv sample_chat"
    by (simp add: conn_create_def)
  moreover have "rc = 0" using run ty by (simp add: process_line_def conn_create_def Let_def)
  ultimately show ?thesis using run by simp
qed

section \<open>The rate limit\<close>

definition clock :: "int \<times> int \<Rightarrow> rat" where
  "clock t = of_int (fst t) + of_int (snd t) / 1000000000"

text \<open>The messages accepted when a client tries at the instants of \<open>es\<close>.\<close>

fun accepted_msgs :: "env list \<Rightarrow> client \<Rightarrow> nat" where
  "accepted_msgs [] c = 0"
| "accepted_msgs (e # es) c = (let (good, c1) = rate_limit_check e c in (if good then 1 else 0) + accepted_msgs es c1)"

text \<open>
  IEEE 754 arithmetic on \<open>double\<close> rounds the exact result of each operation to the nearest \<open>double\<close>: the
  error is at most half a unit in the last place (relatively \<open>2^-53\<close>, absolutely \<open>2^-1075\<close> near zero), rounding is
  monotone, and integers up to \<open>2^53\<close> are exact.
\<close>

definition double_rounding :: "(rat \<Rightarrow> rat) \<Rightarrow> bool" where
  "double_rounding rnd \<longleftrightarrow>
     (\<forall>x. \<bar>x\<bar> \<le> 2 ^ 1000 \<longrightarrow> \<bar>rnd x - x\<bar> \<le> \<bar>x\<bar> / 2 ^ 53 + 1 / 2 ^ 1075) \<and>
     (\<forall>x y. x \<le> y \<longrightarrow> \<bar>x\<bar> \<le> 2 ^ 1000 \<longrightarrow> \<bar>y\<bar> \<le> 2 ^ 1000 \<longrightarrow> rnd x \<le> rnd y) \<and>
     (\<forall>i. \<bar>i\<bar> \<le> 2 ^ 53 \<longrightarrow> rnd (of_int i) = of_int i)"

text \<open>What \<open>clock_gettime\<close> returns: a \<open>time_t\<close> and less than a second in nanoseconds.\<close>

definition valid_time :: "int \<times> int \<Rightarrow> bool" where
  "valid_time t \<longleftrightarrow> 0 \<le> fst t \<and> fst t < 2 ^ 63 \<and> 0 \<le> snd t \<and> snd t < 1000000000"

lemma rnd_error:
  assumes "double_rounding rnd" and "\<bar>x\<bar> \<le> 16"
  shows "\<bar>rnd x - x\<bar> \<le> 17 / 2 ^ 53"
proof -
  have p: "(16 :: rat) \<le> 2 ^ 1000" "(1 :: rat) / 2 ^ 1075 \<le> 1 / 2 ^ 53"
    using power_increasing [of 4 1000 "2 :: rat"] power_increasing [of 53 1075 "2 :: rat"] by (simp_all add: frac_le)
  have "\<bar>rnd x - x\<bar> \<le> \<bar>x\<bar> / 2 ^ 53 + 1 / 2 ^ 1075"
    using assms p(1) unfolding double_rounding_def by (meson order_trans)
  also have "\<dots> \<le> 16 / 2 ^ 53 + 1 / 2 ^ 53" using assms(2) p(2) by (intro add_mono divide_right_mono) simp_all
  finally show ?thesis by simp
qed

lemma rnd_mono:
  assumes "double_rounding rnd" and "x \<le> y" and "\<bar>x\<bar> \<le> 2 ^ 80" and "\<bar>y\<bar> \<le> 2 ^ 80"
  shows "rnd x \<le> rnd y"
proof -
  have "(2 :: rat) ^ 80 \<le> 2 ^ 1000" by (rule power_increasing) simp_all
  then have "\<bar>x\<bar> \<le> 2 ^ 1000" "\<bar>y\<bar> \<le> 2 ^ 1000" using assms(3,4) by (meson order_trans)+
  with assms(1,2) show ?thesis unfolding double_rounding_def by blast
qed

lemma rnd_int: "double_rounding rnd \<Longrightarrow> \<bar>i\<bar> \<le> 2 ^ 53 \<Longrightarrow> rnd (of_int i) = of_int i"
  by (simp add: double_rounding_def)

lemma rnd_small: "double_rounding rnd \<Longrightarrow> rnd 0 = 0 \<and> rnd 1 = 1 \<and> rnd (-1) = -1 \<and> rnd 4 = 4"
  using rnd_int [of rnd 0] rnd_int [of rnd 1] rnd_int [of rnd "-1"] rnd_int [of rnd 4] by simp

lemma rnd_nonneg: "double_rounding rnd \<Longrightarrow> 0 \<le> x \<Longrightarrow> x \<le> 2 ^ 80 \<Longrightarrow> 0 \<le> rnd x"
  using rnd_mono [of rnd 0 x] rnd_small [of rnd] by simp

lemma rnd_upper:
  assumes "double_rounding rnd" and "0 \<le> x" and "x \<le> 2 ^ 80"
  shows "rnd x \<le> 2 * x + 1"
proof -
  have p: "(2 :: rat) ^ 80 \<le> 2 ^ 1000" "(1 :: rat) / 2 ^ 1075 \<le> 1"
    using power_increasing [of 80 1000 "2 :: rat"] one_le_power [of "2 :: rat" 1075] by simp_all
  have "\<bar>rnd x - x\<bar> \<le> \<bar>x\<bar> / 2 ^ 53 + 1 / 2 ^ 1075"
    using assms p(1) unfolding double_rounding_def by (metis abs_of_nonneg order_trans)
  moreover have "\<bar>x\<bar> / 2 ^ 53 \<le> x" using assms(2) by simp
  ultimately show ?thesis using p(2) by linarith
qed

text \<open>The elapsed time as computed: not negative, and close to the exact one when that is short.\<close>

lemma elapsed_bounds:
  assumes rnd: "double_rounding (env_round e)" and t: "valid_time (env_mono e)" "valid_time t0" "clock t0 \<le> clock (env_mono e)"
  shows "0 \<le> elapsed_since e t0" and "elapsed_since e t0 \<le> 2 ^ 66"
    and "clock (env_mono e) - clock t0 < 6 \<Longrightarrow> \<bar>elapsed_since e t0 - (clock (env_mono e) - clock t0)\<bar> \<le> 34 / 2 ^ 53"
proof -
  define q where "q = (of_int (snd (env_mono e) - snd t0) / 1000000000 :: rat)"
  let ?ds = "fst (env_mono e) - fst t0" and ?q = q
  let ?E = "clock (env_mono e) - clock t0" and ?r = "env_round e"
  have el: "elapsed_since e t0 = ?r (?r (of_int ?ds) + ?r ?q)"
    by (simp add: elapsed_since_def split_beta Let_def q_def)
  have E: "?E = of_int ?ds + ?q" by (simp add: clock_def diff_divide_distrib q_def)
  have q: "\<bar>?q\<bar> < 1" using t by (auto simp: valid_time_def abs_less_iff q_def)
  have ds: "?ds < 2 ^ 63" using t(1,2) by (auto simp: valid_time_def)
  have "(-1 :: rat) < of_int ?ds" using t(3) q E by linarith
  then have ds0: "0 \<le> ?ds" by linarith
  have "of_int ?ds \<le> (2 :: rat) ^ 63" using ds by (metis less_imp_le of_int_le_iff of_int_numeral of_int_power)
  note dsr = this
  have "-1 \<le> ?r ?q" "?r ?q \<le> 1"
    using rnd_mono [OF rnd, of "-1" ?q] rnd_mono [OF rnd, of ?q 1] rnd_small [OF rnd] q by (simp_all add: abs_less_iff)
  note rq = this
  have s: "0 \<le> ?r (of_int ?ds) + ?r ?q"
  proof (cases "?ds = 0")
    case True
    then have "0 \<le> ?q" using E t(3) by simp
    with rnd_nonneg [OF rnd this] q True rnd_small [OF rnd] show ?thesis by (simp add: abs_less_iff)
  next
    case False
    with ds0 have "1 \<le> (of_int ?ds :: rat)" by simp
    then have "1 \<le> ?r (of_int ?ds)" using rnd_mono [OF rnd, of 1 "of_int ?ds"] rnd_small [OF rnd] dsr by simp
    with rq show ?thesis by linarith
  qed
  have up: "?r (of_int ?ds) + ?r ?q \<le> 2 ^ 64 + 2"
    using rnd_upper [OF rnd, of "of_int ?ds"] ds0 dsr rq by simp
  show "0 \<le> elapsed_since e t0" unfolding el using s up by (intro rnd_nonneg [OF rnd]) simp_all
  show "elapsed_since e t0 \<le> 2 ^ 66" unfolding el using rnd_upper [OF rnd s] up by simp
  show "\<bar>elapsed_since e t0 - ?E\<bar> \<le> 34 / 2 ^ 53" if "?E < 6"
  proof -
    define u where "u = (17 / 2 ^ 53 :: rat)"
    have d: "?ds \<le> 6" using that E q by linarith
    have eq: "?r (of_int ?ds) = of_int ?ds" using d ds0 by (intro rnd_int [OF rnd]) simp
    have "\<bar>?r ?q - ?q\<bar> \<le> u" unfolding u_def using q by (intro rnd_error [OF rnd]) simp
    moreover have "\<bar>?r (of_int ?ds + ?r ?q) - (of_int ?ds + ?r ?q)\<bar> \<le> u"
      unfolding u_def using rq d ds0 by (intro rnd_error [OF rnd]) simp
    moreover have "(34 / 2 ^ 53 :: rat) = 2 * u" by (simp add: u_def)
    ultimately show ?thesis unfolding el E eq by linarith
  qed
qed

lemma check_step:
  assumes rnd: "double_rounding (env_round e)" and tok: "0 \<le> tokens c" "tokens c \<le> RATE_BUCKET_MAX"
    and t: "valid_time (env_mono e)" "valid_time (last_refill c)" "clock (last_refill c) \<le> clock (env_mono e)"
    and check: "rate_limit_check e c = (good, c1)"
  shows "0 \<le> tokens c1" and "tokens c1 \<le> RATE_BUCKET_MAX" and "last_refill c1 = env_mono e"
    and "of_bool good + tokens c1 \<le> tokens c + (clock (env_mono e) - clock (last_refill c)) + 1 / 2 ^ 46"
proof -
  let ?E = "clock (env_mono e) - clock (last_refill c)" and ?r = "env_round e"
  define el where "el = elapsed_since e (last_refill c)"
  define filled where "filled = ?r (tokens c + ?r (el * 1))"
  define tok' where "tok' = (if filled > RATE_BUCKET_MAX then RATE_BUCKET_MAX else filled)"
  have run: "(good, c1) = (if tok' < RATE_MSG_COST then (False, c\<lparr>tokens := tok', last_refill := env_mono e\<rparr>)
      else (True, c\<lparr>tokens := ?r (tok' - RATE_MSG_COST), last_refill := env_mono e\<rparr>))"
    unfolding check [symmetric] rate_limit_check_def tok'_def filled_def el_def by (simp add: Let_def)
  note eb = elapsed_bounds [OF rnd t, folded el_def]
  have e1: "0 \<le> ?r (el * 1)" "?r (el * 1) \<le> 2 ^ 68"
    using rnd_nonneg [OF rnd, of el] rnd_upper [OF rnd, of el] eb(1,2) by simp_all
  have "0 \<le> filled" unfolding filled_def using e1 tok by (intro rnd_nonneg [OF rnd]) simp_all
  then have tok'0: "0 \<le> tok'" "tok' \<le> 5" "tok' \<le> filled" by (auto simp: tok'_def)
  have spend: "0 \<le> ?r (tok' - RATE_MSG_COST) \<and> ?r (tok' - RATE_MSG_COST) \<le> 4 \<and> \<bar>?r (tok' - RATE_MSG_COST) - (tok' - RATE_MSG_COST)\<bar> \<le> 17 / 2 ^ 53"
    if "\<not> tok' < RATE_MSG_COST"
    using that tok'0 rnd_nonneg [OF rnd, of "tok' - RATE_MSG_COST"] rnd_mono [OF rnd, of "tok' - RATE_MSG_COST" 4] rnd_small [OF rnd]
      rnd_error [OF rnd, of "tok' - RATE_MSG_COST"] by simp
  show "last_refill c1 = env_mono e" using run by (auto split: if_splits)
  show "0 \<le> tokens c1" "tokens c1 \<le> RATE_BUCKET_MAX" using run tok'0 spend by (auto split: if_splits)
  have d: "0 \<le> ?E" using t(3) by simp
  show "of_bool good + tokens c1 \<le> tokens c + ?E + 1 / 2 ^ 46"
  proof (cases "?E < 6")
    case False
    then have "of_bool good + tokens c1 \<le> 5" using run tok'0 spend by (auto split: if_splits)
    moreover have "(0 :: rat) \<le> 1 / 2 ^ 46" by simp
    ultimately show ?thesis using False tok(1) by linarith
  next
    case True
    note small = eb(3) [OF True]
    have u: "(17 :: rat) / 2 ^ 53 \<le> 1 / 100" "(34 :: rat) / 2 ^ 53 \<le> 1 / 100" by simp_all
    have el: "0 \<le> el" "el \<le> 7" using small True u eb(1) by linarith+
    have r1: "\<bar>?r (el * 1) - el\<bar> \<le> 17 / 2 ^ 53" using rnd_error [OF rnd, of el] el by simp
    then have "?r (el * 1) \<le> 8" using el u by linarith
    then have r2: "\<bar>filled - (tokens c + ?r (el * 1))\<bar> \<le> 17 / 2 ^ 53"
      unfolding filled_def using e1 tok by (intro rnd_error [OF rnd]) simp
    define v where "v = (17 / 2 ^ 53 :: rat)"
    have v: "(34 / 2 ^ 53 :: rat) = 2 * v" "5 * v \<le> 1 / 2 ^ 46" "0 \<le> v" by (simp_all add: v_def)
    have "filled \<le> tokens c + ?E + 4 * v" using small r1 r2 unfolding v(1) v_def [symmetric] by linarith
    then have "of_bool good + tokens c1 \<le> tokens c + ?E + 5 * v"
      using run tok'0 spend v(3) unfolding v_def [symmetric] by (auto split: if_splits)
    then show ?thesis using v(2) by linarith
  qed
qed

lemma accepted_bound:
  assumes "\<forall>e \<in> set es. double_rounding (env_round e) \<and> valid_time (env_mono e)" and "0 \<le> tokens c" and "tokens c \<le> RATE_BUCKET_MAX"
    and "valid_time (last_refill c)" and "sorted (map clock (last_refill c # map env_mono es))"
  shows "of_nat (accepted_msgs es c) \<le>
     tokens c + (clock (last (last_refill c # map env_mono es)) - clock (last_refill c)) + of_nat (length es) / 2 ^ 46"
  using assms
proof (induction es arbitrary: c)
  case (Cons e es)
  obtain good c1 where run: "rate_limit_check e c = (good, c1)" by fastforce
  have "clock (last_refill c) \<le> clock (env_mono e)" using Cons.prems(5) by simp
  moreover have "double_rounding (env_round e)" "valid_time (env_mono e)" using Cons.prems(1) by simp_all
  ultimately have step: "0 \<le> tokens c1" "tokens c1 \<le> RATE_BUCKET_MAX" "last_refill c1 = env_mono e"
    "of_bool good + tokens c1 \<le> tokens c + (clock (env_mono e) - clock (last_refill c)) + 1 / 2 ^ 46"
    using check_step [OF _ Cons.prems(2,3) _ Cons.prems(4) _ run] by simp_all
  have "of_nat (accepted_msgs es c1) \<le>
      tokens c1 + (clock (last (last_refill c1 # map env_mono es)) - clock (last_refill c1)) + of_nat (length es) / 2 ^ 46"
    using Cons.prems step by (intro Cons.IH) auto
  moreover have "last (last_refill c # map env_mono (e # es)) = last (last_refill c1 # map env_mono es)"
    using step(3) by simp
  moreover have "of_nat (accepted_msgs (e # es) c) = of_bool good + (of_nat (accepted_msgs es c1) :: rat)" by (simp add: run)
  moreover have "of_nat (length (e # es)) / (2 :: rat) ^ 46 = of_nat (length es) / 2 ^ 46 + 1 / 2 ^ 46" by (simp add: add_divide_distrib)
  moreover note step(4) [folded step(3)]
  ultimately show ?case by (simp only:)
qed simp

text \<open>C12: Of the messages a client tries to send at any instants of a monotone clock, the token bucket accepts at most five plus
  one per second elapsed.  The arithmetic is that of \<open>double\<close>: every operation may round as IEEE 754
  allows, which over \<open>n\<close> attempts can add up to at most \<open>n / 2^46\<close> of a message (nothing that can be seen in
  fewer than \<open>2^46\<close> attempts).\<close>

theorem rate_limit_bound:
  assumes "\<forall>e \<in> set es. double_rounding (env_round e) \<and> valid_time (env_mono e)" and "0 \<le> tokens c" and "tokens c \<le> RATE_BUCKET_MAX"
    and "valid_time (last_refill c)" and "sorted (map clock (last_refill c # map env_mono es))"
  shows "of_nat (accepted_msgs es c) \<le>
     5 + (clock (last (last_refill c # map env_mono es)) - clock (last_refill c)) + of_nat (length es) / 2 ^ 46"
  using accepted_bound [OF assms] assms(3) by simp

text \<open>A rounding that is not the identity: to the nearest multiple of \<open>2^-1074\<close>, the smallest \<open>double\<close>.\<close>

definition fixed_point :: "rat \<Rightarrow> rat" where
  "fixed_point x = of_int (round (x * 2 ^ 1074)) / 2 ^ 1074"

lemma double_rounding_fixed_point: "double_rounding fixed_point"
proof -
  define p where "p = (2 :: rat) ^ 1074"
  have p: "0 < p" by (simp add: p_def)
  have fp: "fixed_point x = of_int (round (x * p)) / p" for x by (simp add: fixed_point_def p_def)
  have "\<bar>fixed_point x - x\<bar> \<le> \<bar>x\<bar> / 2 ^ 53 + 1 / 2 ^ 1075" for x
  proof -
    have "fixed_point x - x = (of_int (round (x * p)) - x * p) / p" using p by (simp add: fp field_simps)
    also have "\<bar>\<dots>\<bar> = \<bar>of_int (round (x * p)) - x * p\<bar> / p" using p by (simp add: abs_divide)
    also have "\<dots> \<le> (1 / 2) / p" by (rule divide_right_mono [OF of_int_round_abs_le less_imp_le [OF p]])
    also have "(1 / 2) / p = 1 / 2 ^ 1075" by (simp add: p_def)
    finally show ?thesis by (rule add_increasing [rotated]) simp
  qed
  moreover have "fixed_point x \<le> fixed_point y" if "x \<le> y" for x y
    using p that by (auto simp: fp intro!: divide_right_mono round_mono mult_right_mono)
  moreover have "fixed_point (of_int i) = of_int i" for i
  proof -
    have "of_int i * p = of_int (i * 2 ^ 1074)" by (simp add: p_def)
    then have "round (of_int i * p) = i * 2 ^ 1074" by (metis round_of_int)
    then show ?thesis by (simp add: fp p_def)
  qed
  ultimately show ?thesis unfolding double_rounding_def by blast
qed

definition rounding_env :: env where
  "rounding_env = (sample_env 1 2)\<lparr>env_round := fixed_point\<rparr>"

theorem rate_limit_bound_witness:
  "of_nat (accepted_msgs (replicate 9 rounding_env) (new_client rounding_env 4 ''al'')) \<le> (5 + 9 / 2 ^ 46 :: rat)"
proof -
  have c: "last_refill (new_client rounding_env 4 ''al'') = (50, 0)" "tokens (new_client rounding_env 4 ''al'') = 5"
    by (simp_all add: new_client_def rounding_env_def sample_env_def)
  have m: "env_mono rounding_env = (50, 0)" "double_rounding (env_round rounding_env)"
    by (simp_all add: rounding_env_def sample_env_def double_rounding_fixed_point)
  let ?es = "replicate 9 rounding_env" and ?c = "new_client rounding_env 4 ''al''"
  have es: "\<forall>e \<in> set ?es. double_rounding (env_round e) \<and> valid_time (env_mono e)"
    using m by (simp add: valid_time_def)
  have ms: "map env_mono ?es = replicate (Suc 8) (50, 0)" using m by (simp add: map_replicate_const)
  have so: "sorted (map clock (last_refill ?c # map env_mono ?es))" unfolding ms c(1) by simp
  have la: "last (last_refill ?c # map env_mono ?es) = (50, 0)" unfolding ms c(1) by simp
  have "valid_time (last_refill ?c)" unfolding c(1) by (simp add: valid_time_def)
  from rate_limit_bound [OF es _ _ this so, unfolded la] c show ?thesis by simp
qed

section \<open>Bytes in pieces\<close>

lemma process_line_buf:
  "process_line e (c\<lparr>conn_buf := b\<rparr>) s line =
     map_option (\<lambda>(evs, rc, c', s'). (evs, rc, c'\<lparr>conn_buf := b\<rparr>, s')) (process_line e c s line)"
proof (cases c)
  case (fields f b0 me cl)
  then show ?thesis
    by (cases me) (simp_all add: process_line_def Let_def case_prod_unfold option.map_comp comp_def)
qed

text \<open>The number of lines that end in some bytes.\<close>

definition line_count :: "char list \<Rightarrow> nat" where
  "line_count a = length (filter (\<lambda>x. x = NL) a)"

lemma process_lines_append:
  "process_lines es i (c\<lparr>conn_buf := a @ b\<rparr>) s =
     Option.bind (process_lines es i (c\<lparr>conn_buf := a\<rparr>) s) (\<lambda>(evs, c1, s1).
       map_option (\<lambda>(evs2, r). (evs @ evs2, r)) (process_lines es (i + line_count a) (c1\<lparr>conn_buf := conn_buf c1 @ b\<rparr>) s1))"
proof (induction a arbitrary: i c s rule: length_induct)
  case (1 a)
  show ?case
  proof (cases "NL \<in> set a")
    case False
    then have "process_lines es i (c\<lparr>conn_buf := a\<rparr>) s = Some ([], c\<lparr>conn_buf := a\<rparr>, s)"
      by (subst process_lines.simps) (simp add: Let_def)
    moreover have "line_count a = 0" using False by (auto simp: line_count_def filter_empty_conv)
    ultimately show ?thesis by (simp add: option.map_id)
  next
    case True
    let ?raw = "takeWhile (\<lambda>x. x \<noteq> NL) a"
    let ?rest = "drop (length ?raw + 1) a"
    have raw: "takeWhile (\<lambda>x. x \<noteq> NL) (a @ b) = ?raw" using True by (simp add: takeWhile_append1)
    have a: "a = ?raw @ NL # ?rest"
    proof -
      have d: "dropWhile (\<lambda>x. x \<noteq> NL) a \<noteq> []" using True by (simp add: dropWhile_eq_Nil_conv)
      then have "hd (dropWhile (\<lambda>x. x \<noteq> NL) a) = NL" using hd_dropWhile [OF d] by simp
      then have "dropWhile (\<lambda>x. x \<noteq> NL) a = NL # drop 1 (dropWhile (\<lambda>x. x \<noteq> NL) a)" using d by (cases "dropWhile (\<lambda>x. x \<noteq> NL) a") auto
      moreover have "?rest = drop 1 (dropWhile (\<lambda>x. x \<noteq> NL) a)" by (simp add: dropWhile_eq_drop drop_drop add.commute)
      ultimately show ?thesis using takeWhile_dropWhile_id [of "\<lambda>x. x \<noteq> NL" a] by simp
    qed
    have len: "length ?raw + 1 \<le> length a" by (subst a) simp
    have rest: "drop (length ?raw + 1) (a @ b) = ?rest @ b" using len by simp
    have "NL \<notin> set ?raw" by (auto dest: set_takeWhileD)
    then have count: "line_count a = Suc (line_count ?rest)"
      by (subst a) (auto simp: line_count_def filter_empty_conv)
    show ?thesis
    proof (cases "process_line (es i) c s (line_of ?raw)")
      case None
      then show ?thesis using True
        by (subst (1 2) process_lines.simps) (simp add: Let_def raw process_line_buf)
    next
      case (Some p)
      obtain evs rc c1 s1 where p: "p = (evs, rc, c1, s1)" by (cases p)
      have lt: "length ?rest < length a" using len True by (cases a) auto
      note IH = 1 [rule_format, OF lt, of "Suc i" c1 s1]
      have step: "process_lines es i (c\<lparr>conn_buf := x\<rparr>) s = map_option (\<lambda>(evs2, r). (evs @ evs2, r))
            (process_lines es (Suc i) (c1\<lparr>conn_buf := y\<rparr>) s1)"
        if "takeWhile (\<lambda>z. z \<noteq> NL) x = ?raw" "NL \<in> set x" "drop (length ?raw + 1) x = y" for x y
        using that Some p by (subst process_lines.simps) (simp add: Let_def process_line_buf)
      have "process_lines es i (c\<lparr>conn_buf := a @ b\<rparr>) s = map_option (\<lambda>(evs2, r). (evs @ evs2, r))
            (process_lines es (Suc i) (c1\<lparr>conn_buf := ?rest @ b\<rparr>) s1)"
        by (rule step) (use raw True rest in simp_all)
      moreover have "process_lines es i (c\<lparr>conn_buf := a\<rparr>) s = map_option (\<lambda>(evs2, r). (evs @ evs2, r))
            (process_lines es (Suc i) (c1\<lparr>conn_buf := ?rest\<rparr>) s1)"
        by (rule step) (use True in simp_all)
      ultimately show ?thesis
        using IH count by (cases "process_lines es (Suc i) (c1\<lparr>conn_buf := ?rest\<rparr>) s1")
          (auto simp: option.map_comp comp_def case_prod_unfold)
    qed
  qed
qed

lemma process_line_conn:
  assumes "process_line e c s line = Some (evs, rc, c', s')"
  shows "conn_closing c' = conn_closing c \<and> conn_buf c' = conn_buf c \<and> conn_fd c' = conn_fd c"
  using assms by (cases "conn_me c") (auto simp: process_line_def Let_def case_prod_unfold split: if_splits)

lemma process_lines_conn:
  "process_lines es i c s = Some (evs, c', s') \<Longrightarrow>
     conn_closing c' = conn_closing c \<and> length (conn_buf c') \<le> length (conn_buf c)"
proof (induction es i c s arbitrary: evs c' s' rule: process_lines.induct)
  case (1 es i c s)
  let ?raw = "takeWhile (\<lambda>x. x \<noteq> NL) (conn_buf c)"
  show ?case
  proof (cases "NL \<in> set (conn_buf c)")
    case False
    then show ?thesis using 1(2) by (subst (asm) process_lines.simps) (simp add: Let_def)
  next
    case True
    obtain evs1 rc c1 s1 evs2 where p: "process_line (es i) c s (line_of ?raw) = Some (evs1, rc, c1, s1)"
      and r: "process_lines es (Suc i) (c1\<lparr>conn_buf := drop (length ?raw + 1) (conn_buf c)\<rparr>) s1 = Some (evs2, c', s')"
      using 1(2) True by (subst (asm) process_lines.simps) (auto simp: Let_def split: option.splits)
    from 1(1) [OF refl refl _ p refl refl refl r] True process_line_conn [OF p] show ?thesis
      by simp linarith
  qed
qed

lemma process_lines_shift: "process_lines (\<lambda>k. es (k + n)) i c s = process_lines es (i + n) c s"
proof (induction "\<lambda>k. es (k + n)" i c s rule: process_lines.induct)
  case (1 i c s)
  then show ?case
    by (subst (1 2) process_lines.simps) (auto simp: Let_def split: option.split)
qed

lemma recv_pieces:
  assumes "length (conn_buf c) + length (concat xs) \<le> CONN_BUF_SIZE - 1"
  shows "recv_loop (map Received xs @ [Would_block]) c = (False, c\<lparr>conn_buf := conn_buf c @ concat xs\<rparr>)"
  using assms
proof (induction xs arbitrary: c)
  case (Cons x xs)
  show ?case
  proof (cases "length (conn_buf c) < CONN_BUF_SIZE - 1")
    case True
    then show ?thesis using Cons by simp
  next
    case False
    then have "x @ concat xs = []" using Cons.prems by (simp flip: length_0_conv)
    then show ?thesis using False by (cases c) simp
  qed
qed simp

lemma recv_ended:
  assumes "length (conn_buf c) + length (concat xs) < CONN_BUF_SIZE - 1" and "r = Peer_closed \<or> r = Recv_error"
  shows "recv_loop (map Received xs @ [r]) c = (True, c\<lparr>conn_buf := conn_buf c @ concat xs\<rparr>)"
  using assms by (induction xs arbitrary: c) auto

text \<open>C10: As long as the connection stays open and the unread bytes fit the buffer, it does not matter how the network cuts
  the bytes of a client into pieces: one call of \<open>handle_client\<close> that drains all of them has the same
  replies and the same result as a call that drains some and a later call that drains the rest (each line
  processed in the environment of its turn).  It does matter at the end: lines drained together with the end
  of the connection (the peer closed it or an error), or waiting when the connection is marked as closing, are
  dropped unprocessed; only the clean-up runs.\<close>

theorem framing_independent:
  assumes "\<not> conn_closing c" and "length (conn_buf c @ concat (xs @ ys)) \<le> CONN_BUF_SIZE - 1"
  shows "handle_client es (map Received (xs @ ys) @ [Would_block]) c s =
       Option.bind (handle_client es (map Received xs @ [Would_block]) c s) (\<lambda>(evs, p, s1). Option.bind p (\<lambda>c1.
         map_option (\<lambda>(evs2, r). (evs @ evs2, r))
           (handle_client (\<lambda>k. es (k + line_count (conn_buf c @ concat xs))) (map Received ys @ [Would_block]) c1 s1))) \<and>
     (length (conn_buf c @ concat xs) < CONN_BUF_SIZE - 1 \<and> (r = Peer_closed \<or> r = Recv_error) \<longrightarrow>
       handle_client es (map Received xs @ [r]) c s =
         (let (evs, s') = disconnect_cleanup (es 0) (conn_fd c) (conn_me c) s in Some (evs, None, s'))) \<and>
     handle_client es rs (c\<lparr>conn_closing := True\<rparr>) s =
       (let (evs, s') = disconnect_cleanup (es 0) (conn_fd c) (conn_me c) s in Some (evs, None, s'))"
proof (intro conjI impI, goal_cases)
  case 1
  let ?a = "conn_buf c @ concat xs" and ?n = "line_count (conn_buf c @ concat xs)"
  note append = process_lines_append [where es = es and i = 0 and c = c and a = ?a and b = "concat ys" and s = s]
  have all: "handle_client es (map Received (xs @ ys) @ [Would_block]) c s =
      map_option (\<lambda>(evs, c2, s'). (evs, Some c2, s')) (process_lines es 0 (c\<lparr>conn_buf := ?a @ concat ys\<rparr>) s)"
    using assms by (simp add: handle_client_def recv_pieces del: map_append)
  have some: "handle_client es (map Received xs @ [Would_block]) c s =
      map_option (\<lambda>(evs, c2, s'). (evs, Some c2, s')) (process_lines es 0 (c\<lparr>conn_buf := ?a\<rparr>) s)"
    using assms by (simp add: handle_client_def recv_pieces)
  show ?case
  proof (cases "process_lines es 0 (c\<lparr>conn_buf := ?a\<rparr>) s")
    case None
    then show ?thesis unfolding all some append by simp
  next
    case (Some p)
    obtain evs c1 s1 where p: "p = (evs, c1, s1)" by (cases p)
    have c1: "\<not> conn_closing c1" "length (conn_buf c1 @ concat ys) \<le> CONN_BUF_SIZE - 1"
      using process_lines_conn [OF Some [unfolded p]] assms by auto
    then have "handle_client (\<lambda>k. es (k + ?n)) (map Received ys @ [Would_block]) c1 s1 =
        map_option (\<lambda>(evs, c2, s'). (evs, Some c2, s')) (process_lines es ?n (c1\<lparr>conn_buf := conn_buf c1 @ concat ys\<rparr>) s1)"
      by (simp add: handle_client_def recv_pieces process_lines_shift)
    then show ?thesis
      unfolding all some append by (simp add: Some p option.map_comp comp_def case_prod_unfold)
  qed
next
  case 2
  then show ?case using assms by (simp add: handle_client_def recv_ended)
next
  case 3
  show ?case by (simp add: handle_client_def)
qed

text \<open>A line in two pieces is answered when it is complete; drained together with the end of the connection it is lost.\<close>

theorem framing_independent_witness:
  "handle_client (\<lambda>_. sample_env 9 9) [Received ''ROO'', Received (''MS'' @ [NL]), Would_block] (conn_create 7) sample_server =
     Some ([err_reply 7 ''NOT_REGISTERED''], Some (conn_create 7), sample_server) \<and>
   handle_client (\<lambda>_. sample_env 9 9) [Received ''ROO'', Received (''MS'' @ [NL]), Peer_closed] (conn_create 7) sample_server =
     Some ([Close 7], None, sample_server)"
proof -
  let ?es = "\<lambda>_ :: nat. sample_env 9 9" and ?c1 = "(conn_create 7)\<lparr>conn_buf := ''ROO''\<rparr>" and ?s = sample_server
  have nl: "NL \<notin> set ''ROO''" "NL \<notin> set ''ROOMS''" by simp_all
  have one: "handle_client ?es [Received ''ROO'', Would_block] (conn_create 7) ?s = Some ([], Some ?c1, ?s)"
    using nl(1) by (subst handle_client_def, subst process_lines.simps) (simp add: conn_create_def Let_def)
  define b where "b = ''ROOMS'' @ [NL]"
  have b: "NL \<in> set b" "takeWhile (\<lambda>x. x \<noteq> NL) b = ''ROOMS''" "drop (length ''ROOMS'' + 1) b = []" "line_of ''ROOMS'' = ''ROOMS''"
    unfolding b_def by code_simp+
  let ?cb = "(conn_create 7)\<lparr>conn_buf := b\<rparr>"
  have "ctype (parse_line ''ROOMS'') = TYPE_ROOMS" by code_simp
  then have line: "process_line (sample_env 9 9) ?cb ?s ''ROOMS'' = Some ([err_reply 7 ''NOT_REGISTERED''], 0, ?cb, ?s)"
    by (simp add: process_line_def conn_create_def Let_def)
  have rest: "process_lines ?es (Suc 0) (?cb\<lparr>conn_buf := []\<rparr>) ?s = Some ([], conn_create 7, ?s)"
    by (subst process_lines.simps) (simp add: conn_create_def Let_def)
  have "conn_buf ?cb = b" by simp
  then have lines: "process_lines ?es 0 ?cb ?s = Some ([err_reply 7 ''NOT_REGISTERED''], conn_create 7, ?s)"
    by (subst process_lines.simps) (simp only: Let_def b line rest if_False not_True_eq_False option.case prod.case option.map append_Nil2 append_Cons append_Nil)
  have "recv_loop (map Received [''MS'' @ [NL]] @ [Would_block]) ?c1 = (False, ?c1\<lparr>conn_buf := conn_buf ?c1 @ concat [''MS'' @ [NL]]\<rparr>)"
    by (rule recv_pieces) simp
  also have "?c1\<lparr>conn_buf := conn_buf ?c1 @ concat [''MS'' @ [NL]]\<rparr> = ?cb" by (simp add: b_def)
  finally have "recv_loop [Received (''MS'' @ [NL]), Would_block] ?c1 = (False, ?cb)" by simp
  then have two: "handle_client ?es [Received (''MS'' @ [NL]), Would_block] ?c1 ?s =
      Some ([err_reply 7 ''NOT_REGISTERED''], Some (conn_create 7), ?s)"
    unfolding handle_client_def by (simp add: lines) (simp add: conn_create_def)
  note f = framing_independent [where c = "conn_create 7" and xs = "[''ROO'']" and ys = "[''MS'' @ [NL]]" and es = ?es and s = ?s]
  note g = framing_independent [where c = "conn_create 7" and xs = "[''ROO'', ''MS'' @ [NL]]" and ys = "[]" and es = ?es and s = ?s and r = Peer_closed]
  show ?thesis using f g one two by (simp add: conn_create_def disconnect_cleanup_def)
qed

section \<open>From the keyboard to the parser\<close>

text \<open>C15: A well-formed command typed into the client, whatever line end the terminal adds, is the command the server
  parses from the bytes the client sends.\<close>

theorem typed_command_arrives:
  assumes wf: "wf_cmd c" and short: "length (render_cmd c @ [CR, NL]) < READ_BUFFER_SIZE"
    and plain: "NL \<notin> set (render_cmd c)" "NUL \<notin> set (render_cmd c)" "last (render_cmd c) \<noteq> CR"
  shows "\<exists>bytes. fst (type_input (render_cmd c @ [CR, NL]) cl) = Typed_line bytes \<and>
     NL \<in> set bytes \<and> parse_line (line_of (takeWhile (\<lambda>x. x \<noteq> NL) bytes)) = c"
proof -
  let ?l = "render_cmd c"
  have "keyword (ctype c) \<noteq> []" "hd (keyword (ctype c)) \<noteq> CHR ''/''" by (cases "ctype c"; simp)+
  then have ne: "?l \<noteq> []" "hd ?l \<noteq> CHR ''/''" by (simp_all add: render_cmd_def)
  have "last ?l \<noteq> NL" using plain(1) ne(1) last_in_set by metis
  then have strip: "strip_eol (?l @ [CR, NL]) = ?l"
    using plain(3) ne(1) by (cases ?l rule: rev_cases) (auto simp: strip_eol_def)
  have out: "fst (type_input (?l @ [CR, NL]) cl) = Typed_line (?l @ [NL])"
    using ne short unfolding type_input_def strip Let_def by (auto simp: READ_BUFFER_SIZE_def)
  have "takeWhile (\<lambda>x. x \<noteq> NL) (?l @ [NL]) = ?l" using plain(1) by (simp add: takeWhile_append)
  moreover have "line_of ?l = ?l" using plain(2,3) by (simp add: line_of_def)
  ultimately show ?thesis using out parse_render [OF wf] by (intro exI [of _ "?l @ [NL]"]) simp
qed

theorem typed_command_arrives_witness:
  "\<exists>bytes. fst (type_input (''PM bob hi'' @ [CR, NL]) \<lparr>cl_room = [], cl_running = True\<rparr>) = Typed_line bytes \<and>
     ctype (parse_line (line_of (takeWhile (\<lambda>x. x \<noteq> NL) bytes))) = TYPE_PM"
proof -
  let ?c = "\<lparr>ctype = TYPE_PM, arg1 = Some ''bob'', arg2 = Some ''hi'', arg3 = None\<rparr>"
  have "wf_cmd ?c" by (simp add: wf_cmd_def opt_token_def opt_text_def token_def NUL_def)
  moreover have "render_cmd ?c = ''PM bob hi''" by (simp add: render_cmd_def sp_opt_def)
  ultimately show ?thesis
    using typed_command_arrives [of ?c "\<lparr>cl_room = [], cl_running = True\<rparr>"] by (fastforce simp: READ_BUFFER_SIZE_def NUL_def)
qed

section \<open>Accepting into a full room\<close>

lemma set_room_heaps:
  "room_heap (set_room g ca v) = room_heap g"
  "client_heap (set_room g ca v) = (client_heap g)(ca := map_option (\<lambda>c. c\<lparr>current_room := v\<rparr>) (client_heap g ca))"
  by (simp_all add: set_room_def update_client_def)

lemma room_outside:
  assumes "server_inv s" and "room_heap (srv_reg s) ra = Some r" and "client_heap (srv_reg s) ca = Some me" and "current_room me \<noteq> Some ra"
  shows "Some ca \<notin> set (take (member_count r) (members r))"
  using registry_invD(3) [OF server_invD(1) [OF assms(1)] assms(2)] assms(3,4)
  by (auto simp: room_ok_def counted_def occupants_def)

text \<open>A pointer to a room whose member list does not name the client contradicts the invariant.\<close>

lemma pointer_without_membership:
  assumes "client_heap (srv_reg s) ca = Some me" and "current_room me = Some ra" and "room_heap (srv_reg s) ra = Some r"
    and "Some ca \<notin> set (take (member_count r) (members r))"
  shows "\<not> server_inv s"
proof
  assume "server_inv s"
  then have "counted (members r) (member_count r) (member_capacity r) (occupants (srv_reg s) ra)"
    using registry_invD(3) [OF server_invD(1) assms(3)] by (simp add: room_ok_def)
  moreover have "ca \<in> occupants (srv_reg s) ra" using assms(1,2) by (simp add: occupants_def)
  ultimately show False using assms(4) by (auto simp: counted_def)
qed

lemma enter_full:
  assumes "client_heap (srv_reg s) ca = Some me" and "room_heap (srv_reg s) ra = Some r" and "member_capacity r \<le> member_count r"
    and "accept_enter e f ca me0 ra s = (evs, s')"
  shows "client_heap (srv_reg s') ca = Some (me\<lparr>current_room := Some ra\<rparr>)" and "room_heap (srv_reg s') ra = Some r"
    and "ok_reply f ''JOINED'' \<in> set evs"
proof -
  have "snd (room_add_member (srv_reg s) (Some ra) (Some ca)) = srv_reg s"
    using assms(1-3) by (simp add: room_add_member_def)
  then have "evs = joined_events e (set_room (srv_reg s) ca (Some ra)) ra r me0 f" "srv_reg s' = set_room (srv_reg s) ca (Some ra)"
    using assms(2,4) by (auto simp: accept_enter_def with_room_def Let_def)
  then show "client_heap (srv_reg s') ca = Some (me\<lparr>current_room := Some ra\<rparr>)" "room_heap (srv_reg s') ra = Some r"
    "ok_reply f ''JOINED'' \<in> set evs"
    using assms(1,2) by (simp_all add: set_room_heaps joined_events_def)
qed

text \<open>C27: \<open>ACCEPT\<close> ignores that the room is full.  A client invited to a full room, who is in no room or in another one,
  is told that it has joined, and its \<open>current_room\<close> points to the room, but it is not among the room's members (the
  room is unchanged): the registry is no longer consistent.\<close>

theorem accept_full_room:
  assumes s: "server_inv s" and me: "client_heap (srv_reg s) ca = Some me" "current_room me \<noteq> Some ra"
    and inv: "arg1 c = Some nm" "fst (invite_find e (srv_db s) nm (client_name me))"
    and r: "fst (find_room (srv_reg s) nm) = Some ra" "room_heap (srv_reg s) ra = Some r" "member_capacity r \<le> member_count r"
    and run: "handle_accept e f ca c s = (evs, s')"
  shows "ok_reply f ''JOINED'' \<in> set evs \<and> (\<exists>me'. client_heap (srv_reg s') ca = Some me' \<and> current_room me' = Some ra) \<and>
     room_heap (srv_reg s') ra = Some r \<and> Some ca \<notin> set (take (member_count r) (members r)) \<and> \<not> server_inv s'"
proof -
  define s2 where "s2 = set_db s (snd (invite_accept e (snd (invite_find e (srv_db s) nm (client_name me))) nm (client_name me)))"
  have s2: "srv_reg s2 = srv_reg s" by (simp add: s2_def)
  have moved: "accept_move e f ca me ra s2 = (evs, s')"
    using run me inv r by (simp add: handle_accept_def deref_defs split_beta s2_def)
  have "\<exists>s3 me3. client_heap (srv_reg s3) ca = Some me3 \<and> room_heap (srv_reg s3) ra = Some r \<and> accept_enter e f ca me ra s3 = (evs, s')"
  proof (cases "current_room me")
    case None
    with moved me(1) r(2) s2 show ?thesis by (intro exI [of _ s2]) (simp add: accept_move_def)
  next
    case (Some old)
    from leave_room [OF s me(1) Some] obtain g1 ro r' where
      g1: "room_remove_member (srv_reg s) (Some old) (Some ca) = (ROOM_OK, g1)"
      "client_heap (set_room g1 ca None) ca = Some (me\<lparr>current_room := None\<rparr>)"
      "room_heap (srv_reg s) old = Some ro" "room_heap g1 = (room_heap (srv_reg s))(old \<mapsto> r')" by blast
    have "accept_enter e f ca me ra (set_reg s2 (set_room g1 ca None)) = (evs, s')"
      using moved Some g1 s2 by (simp add: accept_move_def with_room_def)
    moreover have "room_heap (set_room g1 ca None) ra = Some r" using g1(4) r(2) me(2) Some by (simp add: set_room_heaps)
    ultimately show ?thesis using g1(2) by (intro exI [of _ "set_reg s2 (set_room g1 ca None)"]) simp
  qed
  then obtain s3 me3 where s3: "client_heap (srv_reg s3) ca = Some me3" "room_heap (srv_reg s3) ra = Some r"
    "accept_enter e f ca me ra s3 = (evs, s')" by blast
  note full = enter_full [OF s3(1,2) r(3) s3(3)]
  have out: "Some ca \<notin> set (take (member_count r) (members r))" by (rule room_outside [OF s r(2) me])
  have "\<not> server_inv s'" by (rule pointer_without_membership [OF full(1) _ full(2) out]) simp
  with full out show ?thesis by simp
qed

text \<open>A private room for one member, to which its owner has invited somebody else.\<close>

definition tiny_server :: system where
  "tiny_server = \<lparr>sys_conns = Map.empty,
     sys_srv = the (server_start (sample_env 1 2) (small_config\<lparr>max_members := 1\<rparr>) empty_store)\<rparr>"

definition full_chat :: system where
  "full_chat = feed (chat_env 9 9) 5 ''INVITE bob'' (feed (chat_env 1 9) 5 ''CREATE_PRIVATE den''
     (feed (chat_env 1 3) 6 ''REGISTER bob pw'' (feed (chat_env 1 2) 5 ''REGISTER al pw''
       (open_conn 6 (open_conn 5 tiny_server)))))"

lemma reachable_full_chat: "reachable full_chat"
proof -
  have "server_start (sample_env 1 2) (small_config\<lparr>max_members := 1\<rparr>) empty_store \<noteq> None"
    by (simp add: server_start_def small_config_def registry_init_def sample_env_def db_open_def split_beta Let_def config_defaults_def)
  then have "reachable tiny_server" unfolding tiny_server_def
    by (intro reachable.start [OF _ store_inv_empty]) (auto simp: small_config_def)
  then show ?thesis unfolding full_chat_def by (intro reachable_feed reachable_open)
qed

text \<open>The client at \<open>ca\<close> is in no room and invited to the full room \<open>nm\<close> at \<open>ra\<close>.\<close>

definition invited_to_full :: "env \<Rightarrow> addr \<Rightarrow> string \<Rightarrow> addr \<Rightarrow> server \<Rightarrow> bool" where
  "invited_to_full e ca nm ra s = (case client_heap (srv_reg s) ca of None \<Rightarrow> False | Some me \<Rightarrow>
     current_room me = None \<and> fst (invite_find e (srv_db s) nm (client_name me)) \<and> fst (find_room (srv_reg s) nm) = Some ra \<and>
     (case room_heap (srv_reg s) ra of None \<Rightarrow> False | Some r \<Rightarrow> member_capacity r \<le> member_count r))"

lemma full_chat_invited: "invited_to_full (sample_env 9 9) 3 ''den'' 1 (sys_srv full_chat)"
  by code_simp

theorem accept_full_room_witness:
  "let r = handle_accept (sample_env 9 9) 6 3 \<lparr>ctype = TYPE_ACCEPT, arg1 = Some ''den'', arg2 = None, arg3 = None\<rparr> (sys_srv full_chat) in
   ok_reply 6 ''JOINED'' \<in> set (fst r) \<and> \<not> server_inv (snd r)"
proof -
  let ?r = "handle_accept (sample_env 9 9) 6 3 \<lparr>ctype = TYPE_ACCEPT, arg1 = Some ''den'', arg2 = None, arg3 = None\<rparr> (sys_srv full_chat)"
  have "server_inv (sys_srv full_chat)" using reachable_system_inv [OF reachable_full_chat] by (simp add: system_inv_def)
  moreover obtain me r where "client_heap (srv_reg (sys_srv full_chat)) 3 = Some me" "current_room me \<noteq> Some 1"
    "fst (invite_find (sample_env 9 9) (srv_db (sys_srv full_chat)) ''den'' (client_name me))"
    "fst (find_room (srv_reg (sys_srv full_chat)) ''den'') = Some 1"
    "room_heap (srv_reg (sys_srv full_chat)) 1 = Some r" "member_capacity r \<le> member_count r"
    using full_chat_invited by (auto simp: invited_to_full_def split: option.splits)
  moreover have "?r = (fst ?r, snd ?r)" by simp
  ultimately have "ok_reply 6 ''JOINED'' \<in> set (fst ?r) \<and> \<not> server_inv (snd ?r)"
    using accept_full_room [where c = "\<lparr>ctype = TYPE_ACCEPT, arg1 = Some ''den'', arg2 = None, arg3 = None\<rparr>" and nm = "''den''"]
    by (metis (no_types, lifting) cmd.select_convs(2))
  then show ?thesis unfolding Let_def .
qed

end
