(* ===== verification/Listing.thy ===== *)
theory Listing
  imports Access
begin

text \<open>
  What a listing of the server (\<open>handle_who\<close> in \<open>src/client_handler.c\<close>) becomes on the screen of the client
  (\<open>handle_server_line\<close> in \<open>replies/client.c\<close>).
\<close>

lemma strip_words:
  assumes "\<forall>w\<in>set ws. token w" and "last k \<noteq> NL" and "last k \<noteq> CR"
  shows "strip_eol (k @ concat (map (\<lambda>w. SP # w) ws) @ [NL]) = k @ concat (map (\<lambda>w. SP # w) ws)"
proof -
  let ?l = "k @ concat (map (\<lambda>w. SP # w) ws)"
  have "last ?l \<noteq> NL \<and> last ?l \<noteq> CR"
  proof (cases ws rule: rev_cases)
    case (snoc vs v)
    then have "v \<noteq> []" "NL \<notin> set v" "CR \<notin> set v" using assms(1) by (auto simp: token_def)
    then have "last v \<noteq> NL" "last v \<noteq> CR" using last_in_set [of v] by metis+
    then show ?thesis using snoc \<open>v \<noteq> []\<close> by simp
  qed (use assms in simp)
  then have "strip_eol ?l = ?l" by (intro strip_eol_id) simp
  then show ?thesis using strip_eol_snoc [of ?l] by simp
qed

lemma who_reply_line:
  assumes "\<forall>w\<in>set ws. token w"
  shows "handle_server_line (''WHO_REPLY'' @ concat (map (\<lambda>w. SP # w) ws) @ [NL]) cl =
     reply_who (tl (concat (map (\<lambda>w. SP # w) ws))) cl"
proof -
  have tk: "token ''WHO_REPLY''" by (simp add: token_def NUL_def)
  have "strtok [SP] (''WHO_REPLY'' @ concat (map (\<lambda>w. SP # w) ws)) = (Some ''WHO_REPLY'', tl (concat (map (\<lambda>w. SP # w) ws)))"
  proof (cases ws)
    case Nil
    then show ?thesis using strtok_token [OF tk] by simp
  next
    case (Cons v vs)
    then show ?thesis using strtok_token_SP [OF tk, of "v @ concat (map (\<lambda>w. SP # w) vs)"] by simp
  qed
  then show ?thesis
    unfolding handle_server_line_def Let_def using strip_words [OF assms, of "''WHO_REPLY''"] by simp
qed

lemma page_header_plain:
  assumes "\<forall>w\<in>set ws. token w" and "ws \<noteq> []" and "\<not> whole_number (hd ws)"
  shows "page_header (tl (concat (map (\<lambda>w. SP # w) ws))) = (None, hd ws)"
proof -
  obtain v vs where ws: "ws = v # vs" using assms(2) by (cases ws) auto
  then have "strtok [SP] (tl (concat (map (\<lambda>w. SP # w) ws))) = (Some v, tl (concat (map (\<lambda>w. SP # w) vs)))"
    using assms(1) by (cases vs) simp_all
  then show ?thesis using assms(3) ws by (simp add: page_header_def split_beta split: option.splits)
qed

lemma page_header_numbers:
  assumes ws: "\<forall>w\<in>set ws. token w" and r: "- (2 ^ 31) \<le> a" "a < 2 ^ 31" "- (2 ^ 31) \<le> b" "b < 2 ^ 31" "- (2 ^ 31) \<le> c" "c < 2 ^ 31"
  shows "page_header (tl (concat (map (\<lambda>w. SP # w) (show_int a # show_int b # show_int c # ws)))) =
     (Some (a, b, c), tl (concat (map (\<lambda>w. SP # w) ws)))"
proof -
  have "strtok [SP] (show_int c @ concat (map (\<lambda>w. SP # w) ws)) = (Some (show_int c), tl (concat (map (\<lambda>w. SP # w) ws)))"
    by (cases ws) (simp_all add: token_show_int)
  then show ?thesis using r by (simp add: page_header_def token_show_int whole_number_show_int atoi_show_int)
qed

lemma tokens_of_tl_words:
  "\<forall>w\<in>set ws. token w \<Longrightarrow> tokens_of [SP] (tl (concat (map (\<lambda>w. SP # w) ws))) = ws"
  using tokens_of_words [of ws] by (cases ws) (simp_all add: tokens_of.simps [of "[SP]" "SP # _"] tokens_of.simps [of "[SP]" "_ @ _"])

lemma sn_appends_until_fits:
  "length buf = off \<Longrightarrow> off + length (concat ss) < stop \<Longrightarrow> stop \<le> n \<Longrightarrow>
     sn_appends_until n stop (buf, off) ss = Inr (buf @ concat ss, off + length (concat ss))"
proof (induction ss arbitrary: buf off)
  case (Cons x ss)
  then show ?case using Cons.IH [of "buf @ x" "off + length x"] by (simp add: sn_append_fits)
qed simp

lemma show_listing_fits: "length (concat parts) < MAX_LINE_LEN \<Longrightarrow> show_listing cl parts = ([Shown_system (concat parts)], cl)"
  by (simp add: show_listing_def sn_appends_fits [of "[]" 0 parts, simplified])

lemma plain_listing_fits:
  assumes "length (kw @ concat es) + 1 < MAX_LINE_LEN"
  shows "plain_listing kw es = Inr (kw @ concat es @ [NL], length kw + length (concat es) + 1)"
  using assms sn_appends_fits [of "[]" 0 "kw # es @ [[NL]]" MAX_LINE_LEN] by (simp add: plain_listing_def)

lemma paged_listing_fits:
  assumes "length (kw @ '' '' @ show_int tot @ '' '' @ show_int offset @ '' '' @ show_int n @ concat es) < MAX_LINE_LEN - 32"
  shows "\<exists>k. paged_listing kw tot offset n es =
     Inr (kw @ '' '' @ show_int tot @ '' '' @ show_int offset @ '' '' @ show_int n @ concat es @ [NL], k)"
proof -
  let ?h = "kw @ '' '' @ show_int tot @ '' '' @ show_int offset @ '' '' @ show_int n"
  have "sn_append MAX_LINE_LEN ([], 0) ?h = Inr (?h, length ?h)"
    using assms sn_append_fits [of "[]" 0 ?h MAX_LINE_LEN] by simp
  moreover have "sn_appends_until MAX_LINE_LEN (MAX_LINE_LEN - 32) (?h, length ?h) es = Inr (?h @ concat es, length ?h + length (concat es))"
    using assms by (intro sn_appends_until_fits) simp_all
  moreover have "sn_append MAX_LINE_LEN (?h @ concat es, length ?h + length (concat es)) [NL] =
      Inr ((?h @ concat es) @ [NL], length ?h + length (concat es) + 1)"
    using assms sn_append_fits [of "?h @ concat es" "length ?h + length (concat es)" "[NL]" MAX_LINE_LEN] by simp
  ultimately show ?thesis by (simp add: paged_listing_def)
qed

text \<open>C28: The listing of the members of a room that fits the buffers on both sides: asked for with a page, the client shows
  every entry the server sent; asked for without one, it shows the first entry only, however many there are, because
  looking for the page numbers has cut the line behind its first word.\<close>

theorem who_listing_shown:
  assumes ws: "\<forall>w\<in>set ws. token w" "ws \<noteq> []" "\<not> whole_number (hd ws)"
    and page: "0 \<le> offset" "0 < n" "offset + n \<le> tot" "tot < 2 ^ 31"
    and sizes: "length (''WHO_REPLY'' @ concat (map (\<lambda>w. SP # w) (show_int tot # show_int offset # show_int n # ws))) < MAX_LINE_LEN - 32"
      "length (''Users in room ('' @ show_int tot @ '' total, '' @ show_int offset @ ''-'' @ show_int (offset + n - 1) @ ''):'' @
         concat (map who_item ws)) < MAX_LINE_LEN"
  shows "(\<exists>l k. plain_listing ''WHO_REPLY'' (map (\<lambda>w. SP # w) ws) = Inr (l, k) \<and>
      handle_server_line l cl = ([Shown_system (''Users in room:'' @ who_item (hd ws))], cl)) \<and>
    (\<exists>l k. paged_listing ''WHO_REPLY'' tot offset n (map (\<lambda>w. SP # w) ws) = Inr (l, k) \<and>
      handle_server_line l cl = ([Shown_system (''Users in room ('' @ show_int tot @ '' total, '' @ show_int offset @ ''-'' @
        show_int (offset + n - 1) @ ''):'' @ concat (map who_item ws))], cl))"
proof
  have first: "token (hd ws)" using ws(1,2) by simp
  have "concat (map who_item ws) = who_item (hd ws) @ concat (map who_item (tl ws))" using ws(2) by (cases ws) simp_all
  then have "length (concat [''Users in room:'', who_item (hd ws)]) < MAX_LINE_LEN" using sizes(2) by simp
  then have "reply_who (tl (concat (map (\<lambda>w. SP # w) ws))) cl = ([Shown_system (''Users in room:'' @ who_item (hd ws))], cl)"
    unfolding reply_who_def page_header_plain [OF ws]
    using tokens_of_words [of "[hd ws]"] first show_listing_fits [of "[''Users in room:'', who_item (hd ws)]" cl]
    by (simp add: tokens_of.simps)
  moreover have "plain_listing ''WHO_REPLY'' (map (\<lambda>w. SP # w) ws) = Inr (''WHO_REPLY'' @ concat (map (\<lambda>w. SP # w) ws) @ [NL],
      length ''WHO_REPLY'' + length (concat (map (\<lambda>w. SP # w) ws)) + 1)"
    using sizes(1) by (intro plain_listing_fits) simp
  ultimately show "\<exists>l k. plain_listing ''WHO_REPLY'' (map (\<lambda>w. SP # w) ws) = Inr (l, k) \<and>
      handle_server_line l cl = ([Shown_system (''Users in room:'' @ who_item (hd ws))], cl)"
    using who_reply_line [OF ws(1), of cl] by auto
next
  let ?ns = "show_int tot # show_int offset # show_int n # ws"
  let ?h = "''Users in room ('' @ show_int tot @ '' total, '' @ show_int offset @ ''-'' @ show_int (offset + n - 1) @ ''):''"
  have header: "page_header (tl (concat (map (\<lambda>w. SP # w) ?ns))) = (Some (tot, offset, n), tl (concat (map (\<lambda>w. SP # w) ws)))"
    using page by (intro page_header_numbers ws(1)) simp_all
  have upto: "signed_take_bit 31 (offset + n - 1) = offset + n - 1" "\<not> offset + n < 1" "n \<noteq> 0"
    using page by (simp_all add: signed_take_bit_int_eq_self)
  have "reply_who (tl (concat (map (\<lambda>w. SP # w) ?ns))) cl = ([Shown_system (?h @ concat (map who_item ws))], cl)"
    using show_listing_fits [of "?h # map who_item ws" cl] sizes(2) tokens_of_tl_words [OF ws(1)]
    unfolding reply_who_def header prod.case option.case Let_def by (simp add: upto)
  moreover have "handle_server_line (''WHO_REPLY'' @ concat (map (\<lambda>w. SP # w) ?ns) @ [NL]) cl = reply_who (tl (concat (map (\<lambda>w. SP # w) ?ns))) cl"
    using ws(1) token_show_int by (intro who_reply_line) simp
  moreover have "\<exists>k. paged_listing ''WHO_REPLY'' tot offset n (map (\<lambda>w. SP # w) ws) = Inr (''WHO_REPLY'' @ concat (map (\<lambda>w. SP # w) ?ns) @ [NL], k)"
    using paged_listing_fits [of "''WHO_REPLY''" tot offset n "map (\<lambda>w. SP # w) ws"] sizes(1) by simp
  ultimately show "\<exists>l k. paged_listing ''WHO_REPLY'' tot offset n (map (\<lambda>w. SP # w) ws) = Inr (l, k) \<and>
      handle_server_line l cl = ([Shown_system (''Users in room ('' @ show_int tot @ '' total, '' @ show_int offset @ ''-'' @
        show_int (offset + n - 1) @ ''):'' @ concat (map who_item ws))], cl)"
    by auto
qed

theorem who_listing_shown_witness:
  "\<exists>l k. plain_listing ''WHO_REPLY'' ['' *al/ONLINE'', '' bo/AWAY''] = Inr (l, k) \<and>
      handle_server_line l \<lparr>cl_room = ''pub'', cl_running = True\<rparr> =
        ([Shown_system ''Users in room: [*al/ONLINE]''], \<lparr>cl_room = ''pub'', cl_running = True\<rparr>)"
proof -
  have "show_int 2 = ''2''" "show_int 0 = ''0''" "show_int 1 = ''1''" by code_simp+
  moreover have "who_item ''*al/ONLINE'' = '' [*al/ONLINE]''" "who_item ''bo/AWAY'' = '' [bo/AWAY]''" by code_simp+
  moreover have "\<not> whole_number ''*al/ONLINE''" by code_simp
  moreover have "token ''*al/ONLINE''" "token ''bo/AWAY''" by (simp_all add: token_def NUL_def)
  ultimately show ?thesis
    using who_listing_shown [of "[''*al/ONLINE'', ''bo/AWAY'']" 0 2 2 "\<lparr>cl_room = ''pub'', cl_running = True\<rparr>"] by simp
qed

end
