(* ===== verification/Logging.thy ===== *)
theory Logging
  imports Prelude
begin

text \<open>
  The logger (\<open>src/log.c\<close>, \<open>include/log.h\<close>): levels and their order, initialisation, and what \<open>log_write\<close> and
  \<open>log_write_errno\<close> write to the console and to the log file.  The time stamp, the texts of \<open>strerror\<close> and
  whether the log file can be opened are arguments.
\<close>

section \<open>Levels\<close>

datatype log_level = LOG_LEVEL_DEBUG | LOG_LEVEL_INFO | LOG_LEVEL_WARN | LOG_LEVEL_ERROR | LOG_LEVEL_NONE

primrec level_number :: "log_level \<Rightarrow> nat" where
  "level_number LOG_LEVEL_DEBUG = 0" | "level_number LOG_LEVEL_INFO = 1" | "level_number LOG_LEVEL_WARN = 2"
| "level_number LOG_LEVEL_ERROR = 3" | "level_number LOG_LEVEL_NONE = 4"

lemma level_number_inj: "level_number a = level_number b \<longleftrightarrow> a = b"
  by (cases a; cases b) simp_all

instantiation log_level :: linorder
begin

definition less_eq_log_level :: "log_level \<Rightarrow> log_level \<Rightarrow> bool" where
  "less_eq_log_level a b \<longleftrightarrow> level_number a \<le> level_number b"

definition less_log_level :: "log_level \<Rightarrow> log_level \<Rightarrow> bool" where
  "less_log_level a b \<longleftrightarrow> level_number a < level_number b"

instance
  by standard (auto simp: less_eq_log_level_def less_log_level_def simp flip: level_number_inj)

end

text \<open>\<open>strcasecmp\<close> in the C locale.\<close>

definition lower :: "char \<Rightarrow> char" where
  "lower c = (let n = (of_char c :: nat) in if 65 \<le> n \<and> n \<le> 90 then char_of (n + 32) else c)"

definition strcaseeq :: "string \<Rightarrow> string \<Rightarrow> bool" where
  "strcaseeq s t \<longleftrightarrow> map lower s = map lower t"

definition log_level_from_string :: "string option \<Rightarrow> log_level" where
  "log_level_from_string so = (case so of None \<Rightarrow> LOG_LEVEL_INFO | Some s \<Rightarrow>
     (if strcaseeq s ''DEBUG'' then LOG_LEVEL_DEBUG
      else if strcaseeq s ''INFO'' then LOG_LEVEL_INFO
      else if strcaseeq s ''WARN'' then LOG_LEVEL_WARN
      else if strcaseeq s ''WARNING'' then LOG_LEVEL_WARN
      else if strcaseeq s ''ERROR'' then LOG_LEVEL_ERROR
      else if strcaseeq s ''NONE'' then LOG_LEVEL_NONE
      else LOG_LEVEL_INFO))"

primrec log_level_to_string :: "log_level \<Rightarrow> string" where
  "log_level_to_string LOG_LEVEL_DEBUG = ''DEBUG''" | "log_level_to_string LOG_LEVEL_INFO = ''INFO''"
| "log_level_to_string LOG_LEVEL_WARN = ''WARN''" | "log_level_to_string LOG_LEVEL_ERROR = ''ERROR''"
| "log_level_to_string LOG_LEVEL_NONE = ''NONE''"

section \<open>State and operations\<close>

record logger =
  current_level :: log_level
  log_file_ptr :: "string option"    \<comment> \<open>the path of the open file\<close>

definition logger0 :: logger where
  "logger0 = \<lparr>current_level = LOG_LEVEL_INFO, log_file_ptr = None\<rparr>"

definition log_set_level :: "log_level \<Rightarrow> logger \<Rightarrow> logger" where
  "log_set_level l g = g\<lparr>current_level := l\<rparr>"

definition log_get_level :: "logger \<Rightarrow> log_level" where
  "log_get_level g = current_level g"

datatype stream = Stdout | Stderr | Log_file string

type_synonym log_output = "(stream \<times> string) list"

definition log_init :: "(string \<Rightarrow> bool) \<Rightarrow> (string \<Rightarrow> string) \<Rightarrow> string option \<Rightarrow> string option \<Rightarrow> logger \<Rightarrow> int \<times> log_output \<times> logger" where
  "log_init opens reason level_str file_path g =
     (let g1 = g\<lparr>current_level := log_level_from_string level_str, log_file_ptr := None\<rparr> in
      case file_path of
        None \<Rightarrow> (0, [], g1)
      | Some path \<Rightarrow>
          if path = [] then (0, [], g1)
          else if opens path then (0, [], g1\<lparr>log_file_ptr := Some path\<rparr>)
          else (0, [(Stderr, ''[WARN] Failed to open log file '' @ [CHR 0x27] @ path @ [CHR 0x27] @ '': '' @ reason path @ [CHR 0x0A])], g1))"

definition log_close :: "logger \<Rightarrow> logger" where
  "log_close g = g\<lparr>log_file_ptr := None\<rparr>"

text \<open>The position a macro passes: file, line, function.\<close>

type_synonym place = "string \<times> int \<times> string"

definition log_line :: "string \<Rightarrow> log_level \<Rightarrow> place \<Rightarrow> string \<Rightarrow> string" where
  "log_line stamp l p t = (case p of (file, line, func) \<Rightarrow>
     stamp @ '' ['' @ log_level_to_string l @ ''] '' @ file @ '':'' @ show_int line @ '' ('' @ func @ '') '' @ t @ [CHR 0x0A])"

definition to_log_file :: "logger \<Rightarrow> string \<Rightarrow> log_output" where
  "to_log_file g t = (case log_file_ptr g of None \<Rightarrow> [] | Some path \<Rightarrow> [(Log_file path, t)])"

text \<open>\<open>t\<close> is the formatted message before it is cut to the buffer of 1024 bytes.\<close>

definition log_write :: "string \<Rightarrow> log_level \<Rightarrow> place \<Rightarrow> string \<Rightarrow> logger \<Rightarrow> log_output" where
  "log_write stamp l p t g =
     (if l < current_level g then []
      else let text = log_line stamp l p (snprintf_out 1024 t) in
        (if l \<ge> LOG_LEVEL_WARN then Stderr else Stdout, text) # to_log_file g text)"

definition log_write_errno :: "string \<Rightarrow> log_level \<Rightarrow> place \<Rightarrow> string \<Rightarrow> string \<Rightarrow> logger \<Rightarrow> log_output" where
  "log_write_errno stamp l p msg reason g =
     (if l < current_level g then []
      else let text = log_line stamp l p (snprintf_out 256 (msg @ '': '' @ reason)) in
        (Stderr, text) # to_log_file g text)"

section \<open>Properties\<close>

text \<open>C40: The name of a level, in any mixture of cases, is read back as that level; and after the logger has been initialised
  with it, a message of the program is written exactly when its level is at least that one: once
  to the console (to \<open>stderr\<close> from \<open>WARN\<close> on) and once to the log file if it could be opened.\<close>

theorem log_filter:
  assumes "map lower s = map lower (log_level_to_string l)"
  shows "log_write stamp m p t (snd (snd (log_init opens reason (Some s) path g))) =
     (if level_number m < level_number l then []
      else let text = log_line stamp m p (snprintf_out 1024 t) in
        (if m = LOG_LEVEL_DEBUG \<or> m = LOG_LEVEL_INFO then Stdout else Stderr, text) #
        (case path of Some f \<Rightarrow> if f \<noteq> [] \<and> opens f then [(Log_file f, text)] else [] | None \<Rightarrow> []))"
proof -
  have "log_level_from_string (Some s) = l"
    by (cases l) (use assms in \<open>simp_all add: log_level_from_string_def strcaseeq_def lower_def\<close>)
  then have "current_level (snd (snd (log_init opens reason (Some s) path g))) = l"
    "log_file_ptr (snd (snd (log_init opens reason (Some s) path g))) =
       (case path of Some f \<Rightarrow> if f \<noteq> [] \<and> opens f then Some f else None | None \<Rightarrow> None)"
    by (auto simp: log_init_def Let_def split: option.split)
  moreover have "m \<ge> LOG_LEVEL_WARN \<longleftrightarrow> \<not> (m = LOG_LEVEL_DEBUG \<or> m = LOG_LEVEL_INFO)"
    by (cases m) (simp_all add: less_eq_log_level_def)
  ultimately show ?thesis
    by (auto simp: log_write_def less_log_level_def to_log_file_def Let_def split: option.split)
qed

theorem log_filter_witness:
  "log_write ''now'' LOG_LEVEL_INFO (''a.c'', 1, ''f'') ''hi'' (snd (snd (log_init (\<lambda>_. True) (\<lambda>_. []) (Some ''warn'') None logger0))) = []"
proof -
  have "map lower ''warn'' = map lower (log_level_to_string LOG_LEVEL_WARN)" by code_simp
  from log_filter [OF this, of "''now''" LOG_LEVEL_INFO "(''a.c'', 1, ''f'')" "''hi''" "\<lambda>_. True" "\<lambda>_. []" None logger0]
  show ?thesis by simp
qed

end
