(* ===== verification/Backends.thy ===== *)
theory Backends
  imports Prelude
begin

text \<open>
  The optional back ends (\<open>src/redis.c\<close>, \<open>src/pg.c\<close>).  Whether the client libraries are compiled in (\<open>USE_HIREDIS\<close>,
  \<open>USE_PG\<close>) is an argument; \<open>redisCommand\<close> and the \<open>libpq\<close> calls are arguments too: functions from the state of the
  outside and the request to the reply and the new state.  A pointer argument that may be \<open>NULL\<close> is an option.
\<close>

section \<open>Redis\<close>

record redis_config =
  redis_host :: string
  redis_port :: int
  redis_cfg_enabled :: bool

record redis =
  redis_ctx :: bool        \<comment> \<open>the context is not \<open>NULL\<close>\<close>
  redis_enabled :: bool

definition redis0 :: redis where
  "redis0 = \<lparr>redis_ctx = False, redis_enabled = False\<rparr>"

text \<open>The replies of \<open>redisCommand\<close> by their type; \<open>None\<close> stands for a \<open>NULL\<close> reply.\<close>

datatype redis_reply = Redis_error | Redis_status | Redis_integer int | Redis_nil | Redis_string string | Redis_array "string list"

type_synonym 'w redis_command = "'w \<Rightarrow> string list \<Rightarrow> redis_reply option \<times> 'w"

text \<open>\<open>connects\<close>: \<open>redisConnectWithTimeout\<close> returns a context without error.\<close>

definition redis_init :: "bool \<Rightarrow> bool \<Rightarrow> redis_config option \<Rightarrow> redis \<Rightarrow> int \<times> redis" where
  "redis_init compiled connects cfg r =
     (case cfg of
        None \<Rightarrow> (0, r\<lparr>redis_enabled := False\<rparr>)
      | Some c \<Rightarrow>
          if \<not> redis_cfg_enabled c then (0, r\<lparr>redis_enabled := False\<rparr>)
          else if compiled
          then if \<not> connects then (-1, r\<lparr>redis_ctx := False, redis_enabled := False\<rparr>)
               else (0, r\<lparr>redis_ctx := True, redis_enabled := True\<rparr>)
          else (0, r\<lparr>redis_enabled := False\<rparr>))"

definition redis_close :: "bool \<Rightarrow> redis \<Rightarrow> redis" where
  "redis_close compiled r = (if compiled then r\<lparr>redis_ctx := False, redis_enabled := False\<rparr> else r\<lparr>redis_enabled := False\<rparr>)"

definition redis_is_connected :: "redis \<Rightarrow> bool" where
  "redis_is_connected r = redis_enabled r"

text \<open>
  The three shapes of the operations: the reply must not be an error, must not be \<open>NULL\<close>, must be a string that is copied
  into a buffer of \<open>n\<close> bytes.
\<close>

definition redis_checked :: "bool \<Rightarrow> 'w redis_command \<Rightarrow> string option list \<Rightarrow> string list \<Rightarrow> redis \<Rightarrow> 'w \<Rightarrow> int \<times> 'w" where
  "redis_checked compiled run pointers request r w =
     (if \<not> redis_enabled r \<or> None \<in> set pointers then (-1, w)
      else if \<not> compiled then (-1, w)
      else case run w request of (reply, w') \<Rightarrow>
        (case reply of None \<Rightarrow> -1 | Some Redis_error \<Rightarrow> -1 | Some _ \<Rightarrow> 0, w'))"

definition redis_unchecked :: "bool \<Rightarrow> 'w redis_command \<Rightarrow> string option list \<Rightarrow> string list \<Rightarrow> redis \<Rightarrow> 'w \<Rightarrow> int \<times> 'w" where
  "redis_unchecked compiled run pointers request r w =
     (if \<not> redis_enabled r \<or> None \<in> set pointers then (-1, w)
      else if \<not> compiled then (-1, w)
      else case run w request of (reply, w') \<Rightarrow> (case reply of None \<Rightarrow> -1 | Some _ \<Rightarrow> 0, w'))"

definition redis_read :: "bool \<Rightarrow> 'w redis_command \<Rightarrow> string option list \<Rightarrow> string list \<Rightarrow> nat \<Rightarrow> redis \<Rightarrow> 'w \<Rightarrow> (int \<times> string option) \<times> 'w" where
  "redis_read compiled run pointers request n r w =
     (if \<not> redis_enabled r \<or> None \<in> set pointers \<or> n = 0 then ((-1, None), w)
      else if \<not> compiled then ((-1, None), w)
      else case run w request of (reply, w') \<Rightarrow>
        (case reply of Some (Redis_string s) \<Rightarrow> (0, Some (take (min (length s) (n - 1)) s)) | _ \<Rightarrow> (-1, None), w'))"

definition redis_publish :: "bool \<Rightarrow> 'w redis_command \<Rightarrow> string option \<Rightarrow> string option \<Rightarrow> redis \<Rightarrow> 'w \<Rightarrow> int \<times> 'w" where
  "redis_publish compiled run channel message =
     redis_checked compiled run [channel, message] [''PUBLISH'', the channel, the message]"

definition redis_set :: "bool \<Rightarrow> 'w redis_command \<Rightarrow> string option \<Rightarrow> string option \<Rightarrow> int \<Rightarrow> redis \<Rightarrow> 'w \<Rightarrow> int \<times> 'w" where
  "redis_set compiled run key v expire_sec =
     redis_checked compiled run [key, v]
       (if expire_sec > 0 then [''SETEX'', the key, show_int expire_sec, the v] else [''SET'', the key, the v])"

definition redis_get :: "bool \<Rightarrow> 'w redis_command \<Rightarrow> string option \<Rightarrow> nat \<Rightarrow> redis \<Rightarrow> 'w \<Rightarrow> (int \<times> string option) \<times> 'w" where
  "redis_get compiled run key = redis_read compiled run [key] [''GET'', the key]"

definition redis_del :: "bool \<Rightarrow> 'w redis_command \<Rightarrow> string option \<Rightarrow> redis \<Rightarrow> 'w \<Rightarrow> int \<times> 'w" where
  "redis_del compiled run key = redis_unchecked compiled run [key] [''DEL'', the key]"

definition redis_hset :: "bool \<Rightarrow> 'w redis_command \<Rightarrow> string option \<Rightarrow> string option \<Rightarrow> string option \<Rightarrow> redis \<Rightarrow> 'w \<Rightarrow> int \<times> 'w" where
  "redis_hset compiled run key field v =
     redis_checked compiled run [key, field, v] [''HSET'', the key, the field, the v]"

definition redis_hget :: "bool \<Rightarrow> 'w redis_command \<Rightarrow> string option \<Rightarrow> string option \<Rightarrow> nat \<Rightarrow> redis \<Rightarrow> 'w \<Rightarrow> (int \<times> string option) \<times> 'w" where
  "redis_hget compiled run key field = redis_read compiled run [key, field] [''HGET'', the key, the field]"

definition redis_hdel :: "bool \<Rightarrow> 'w redis_command \<Rightarrow> string option \<Rightarrow> string option \<Rightarrow> redis \<Rightarrow> 'w \<Rightarrow> int \<times> 'w" where
  "redis_hdel compiled run key field = redis_unchecked compiled run [key, field] [''HDEL'', the key, the field]"

definition redis_sadd :: "bool \<Rightarrow> 'w redis_command \<Rightarrow> string option \<Rightarrow> string option \<Rightarrow> redis \<Rightarrow> 'w \<Rightarrow> int \<times> 'w" where
  "redis_sadd compiled run key member = redis_unchecked compiled run [key, member] [''SADD'', the key, the member]"

definition redis_srem :: "bool \<Rightarrow> 'w redis_command \<Rightarrow> string option \<Rightarrow> string option \<Rightarrow> redis \<Rightarrow> 'w \<Rightarrow> int \<times> 'w" where
  "redis_srem compiled run key member = redis_unchecked compiled run [key, member] [''SREM'', the key, the member]"

definition redis_smembers :: "bool \<Rightarrow> 'w redis_command \<Rightarrow> string option \<Rightarrow> int \<Rightarrow> redis \<Rightarrow> 'w \<Rightarrow> string list \<times> 'w" where
  "redis_smembers compiled run key max_out r w =
     (if \<not> redis_enabled r \<or> key = None \<or> max_out \<le> 0 then ([], w)
      else if \<not> compiled then ([], w)
      else case run w [''SMEMBERS'', the key] of (reply, w') \<Rightarrow>
        (case reply of Some (Redis_array es) \<Rightarrow> map (strncpy_term 64) (take (nat max_out) es) | _ \<Rightarrow> [], w'))"

section \<open>PostgreSQL\<close>

record pg_config =
  pg_dsn :: string
  pg_cfg_enabled :: bool

record pg =
  pg_conn :: bool
  pg_enabled :: bool

definition pg0 :: pg where
  "pg0 = \<lparr>pg_conn = False, pg_enabled = False\<rparr>"

text \<open>The statuses of a \<open>PGresult\<close> the code tells apart, and the requests it makes.\<close>

datatype pg_status = PGRES_COMMAND_OK | PGRES_TUPLES_OK | Pg_other

datatype pg_request = Pg_exec string | Pg_prepare string string int | Pg_exec_prepared string int "string option list"

type_synonym 'w pg_call = "'w \<Rightarrow> pg_request \<Rightarrow> pg_status \<times> 'w"

definition pg_init :: "bool \<Rightarrow> bool \<Rightarrow> pg_config option \<Rightarrow> pg \<Rightarrow> int \<times> pg" where
  "pg_init compiled connects cfg p =
     (case cfg of
        None \<Rightarrow> (0, p\<lparr>pg_enabled := False\<rparr>)
      | Some c \<Rightarrow>
          if \<not> pg_cfg_enabled c then (0, p\<lparr>pg_enabled := False\<rparr>)
          else if compiled
          then if \<not> connects then (-1, p\<lparr>pg_conn := False, pg_enabled := False\<rparr>)
               else (0, p\<lparr>pg_conn := True, pg_enabled := True\<rparr>)
          else (0, p\<lparr>pg_enabled := False\<rparr>))"

definition pg_close :: "bool \<Rightarrow> pg \<Rightarrow> pg" where
  "pg_close compiled p = (if compiled then p\<lparr>pg_conn := False, pg_enabled := False\<rparr> else p\<lparr>pg_enabled := False\<rparr>)"

definition pg_is_connected :: "pg \<Rightarrow> bool" where
  "pg_is_connected p = pg_enabled p"

definition pg_exec :: "bool \<Rightarrow> 'w pg_call \<Rightarrow> string option \<Rightarrow> pg \<Rightarrow> 'w \<Rightarrow> int \<times> 'w" where
  "pg_exec compiled run sql p w =
     (if \<not> pg_enabled p then (-1, w)
      else case sql of None \<Rightarrow> (-1, w) | Some q \<Rightarrow>
        if \<not> compiled then (-1, w)
        else case run w (Pg_exec q) of (st, w') \<Rightarrow> (if st = PGRES_COMMAND_OK \<or> st = PGRES_TUPLES_OK then 0 else -1, w'))"

definition pg_prepare :: "bool \<Rightarrow> 'w pg_call \<Rightarrow> string option \<Rightarrow> string option \<Rightarrow> int \<Rightarrow> pg \<Rightarrow> 'w \<Rightarrow> int \<times> 'w" where
  "pg_prepare compiled run name sql n_params p w =
     (if \<not> pg_enabled p then (-1, w)
      else case (name, sql) of
        (Some nm, Some q) \<Rightarrow>
          if \<not> compiled then (-1, w)
          else (case run w (Pg_prepare nm q n_params) of (st, w') \<Rightarrow> (if st = PGRES_COMMAND_OK then 0 else -1, w'))
      | _ \<Rightarrow> (-1, w))"

definition pg_exec_prepared :: "bool \<Rightarrow> 'w pg_call \<Rightarrow> string option \<Rightarrow> int \<Rightarrow> string option list \<Rightarrow> pg \<Rightarrow> 'w \<Rightarrow> int \<times> 'w" where
  "pg_exec_prepared compiled run name n_params params p w =
     (if \<not> pg_enabled p then (-1, w)
      else case name of None \<Rightarrow> (-1, w) | Some nm \<Rightarrow>
        if \<not> compiled then (-1, w)
        else case run w (Pg_exec_prepared nm n_params params) of (st, w') \<Rightarrow>
          (if st = PGRES_COMMAND_OK \<or> st = PGRES_TUPLES_OK then 0 else -1, w'))"

section \<open>Properties\<close>

text \<open>A back end is in use only with a context; a disabled one is never asked.\<close>

definition redis_ok :: "bool \<Rightarrow> redis \<Rightarrow> bool" where
  "redis_ok compiled r \<longleftrightarrow> (redis_enabled r \<longrightarrow> compiled \<and> redis_ctx r)"

definition pg_ok :: "bool \<Rightarrow> pg \<Rightarrow> bool" where
  "pg_ok compiled p \<longleftrightarrow> (pg_enabled p \<longrightarrow> compiled \<and> pg_conn p)"

lemma redis_ok_kept: "redis_ok compiled (snd (redis_init compiled connects cfg r))" "redis_ok compiled (redis_close compiled r)"
  by (auto simp: redis_ok_def redis_init_def redis_close_def split: option.split)

lemma pg_ok_kept: "pg_ok compiled (snd (pg_init compiled connects cfg p))" "pg_ok compiled (pg_close compiled p)"
  by (auto simp: pg_ok_def pg_init_def pg_close_def split: option.split)

lemma redis_standalone:
  assumes "\<not> redis_enabled r"
  shows "redis_publish compiled run a b r w = (-1, w)" "redis_set compiled run a b n r w = (-1, w)"
    "redis_get compiled run a k r w = ((-1, None), w)" "redis_del compiled run a r w = (-1, w)"
    "redis_hset compiled run a b c r w = (-1, w)" "redis_hget compiled run a b k r w = ((-1, None), w)"
    "redis_hdel compiled run a b r w = (-1, w)" "redis_sadd compiled run a b r w = (-1, w)"
    "redis_srem compiled run a b r w = (-1, w)" "redis_smembers compiled run a n r w = ([], w)"
  using assms
  by (simp_all add: redis_publish_def redis_set_def redis_get_def redis_del_def redis_hset_def redis_hget_def redis_hdel_def
      redis_sadd_def redis_srem_def redis_smembers_def redis_checked_def redis_unchecked_def redis_read_def)

text \<open>
  A value written is read back, cut to the caller's buffer, on a server that answers \<open>SET\<close> and \<open>GET\<close> as documented:
  \<open>kv\<close> is its key space.
\<close>

lemma redis_set_get:
  assumes set_law: "\<And>w k v. fst (run w [''SET'', k, v]) = Some Redis_status \<and> kv (snd (run w [''SET'', k, v])) = (kv w)(k \<mapsto> v)"
    and get_law: "\<And>w k. fst (run w [''GET'', k]) = Some (case kv w k of None \<Rightarrow> Redis_nil | Some v \<Rightarrow> Redis_string v)"
    and r: "redis_enabled r" "redis_ok compiled r" and n: "0 < n" and set: "redis_set compiled run (Some k) (Some v) 0 r w = (rc, w')"
  shows "rc = 0 \<and> fst (redis_get compiled run (Some k) n r w') = (0, Some (take (n - 1) v))"
proof -
  have w: "rc = 0" "w' = snd (run w [''SET'', k, v])"
    using set set_law [of w k v] r by (auto simp: redis_set_def redis_checked_def redis_ok_def split: prod.splits option.splits)
  then have "kv w' k = Some v" using set_law by simp
  then have "fst (run w' [''GET'', k]) = Some (Redis_string v)" using get_law by simp
  then show ?thesis using w(1) r n
    by (cases "run w' [''GET'', k]") (simp add: redis_get_def redis_read_def redis_ok_def min_def)
qed

end
