(* ===== verification/Startup.thy ===== *)
theory Startup
  imports Server_Loop Logging Backends
begin

text \<open>
  The start of the server program (\<open>main\<close> and the first half of \<open>run_server\<close> in \<open>src/server.c\<close>): configuration, logger,
  TLS context, registry, database and modules, the optional back ends, the listening socket, the thread pool and
  \<open>epoll\<close>; and the timers of the main loop.
\<close>

section \<open>The outside at start\<close>

text \<open>Which of the calls succeed, and which client libraries were compiled in.\<close>

record boot =
  boot_ssl_ctx :: bool          \<comment> \<open>\<open>SSL_CTX_new\<close>\<close>
  boot_cert :: bool             \<comment> \<open>the certificate loads\<close>
  boot_key :: bool              \<comment> \<open>the private key loads\<close>
  boot_socket :: bool
  boot_bind :: bool
  boot_listen :: bool
  boot_pool_blocks :: "bool \<times> bool"  \<comment> \<open>the pool object and its array of threads\<close>
  boot_threads :: nat           \<comment> \<open>threads created before \<open>pthread_create\<close> fails\<close>
  boot_epoll :: bool
  boot_hiredis :: bool
  boot_libpq :: bool

definition tls_init :: "boot \<Rightarrow> bool" where
  "tls_init b = (if \<not> boot_ssl_ctx b then False else if \<not> boot_cert b \<or> \<not> boot_key b then False else True)"

section \<open>Start\<close>

datatype startup_failure = Fails_state | Fails_socket | Fails_bind | Fails_listen | Fails_pool | Fails_epoll

record running =
  run_tls :: bool
  run_state :: server
  run_pool :: pool_run
  run_redis :: redis
  run_pg :: pg

text \<open>
  \<open>run_server\<close> up to its loop.  The back ends are configured in the source, both disabled.  A negative size of the pool
  makes the allocation of its array fail.
\<close>

definition run_server_setup :: "boot \<Rightarrow> env \<Rightarrow> server_config \<Rightarrow> store \<Rightarrow> startup_failure + running" where
  "run_server_setup b e cfg d =
     (let tls = tls_init b in
      case server_start e cfg d of
        None \<Rightarrow> Inl Fails_state
      | Some s \<Rightarrow>
          let r = snd (redis_init (boot_hiredis b) True (Some \<lparr>redis_host = ''127.0.0.1'', redis_port = 6379, redis_cfg_enabled = False\<rparr>) redis0);
              p = snd (pg_init (boot_libpq b) True (Some \<lparr>pg_dsn = [], pg_cfg_enabled = False\<rparr>) pg0) in
          if \<not> boot_socket b then Inl Fails_socket
          else if \<not> boot_bind b then Inl Fails_bind
          else if \<not> boot_listen b then Inl Fails_listen
          else case threadpool_create (fst (boot_pool_blocks b)) (snd (boot_pool_blocks b) \<and> 0 \<le> thread_pool_size cfg)
              (boot_threads b) (nat (thread_pool_size cfg)) of
            None \<Rightarrow> Inl Fails_pool
          | Some st \<Rightarrow>
              let st1 = st\<lparr>pool := (pool st)\<lparr>min_threads := pool_min_threads cfg, shrink_idle_sec := pool_shrink_idle_sec cfg\<rparr>\<rparr> in
              if \<not> boot_epoll b then Inl Fails_epoll
              else Inr \<lparr>run_tls = tls, run_state = s, run_pool = st1, run_redis = r, run_pg = p\<rparr>)"

text \<open>
  \<open>main\<close>: the text of the configuration file (\<open>None\<close>: it cannot be opened), what is written on the terminal and to the log,
  and the outcome.  \<open>src\<close> is \<open>__FILE__\<close>.
\<close>

definition server_main ::
  "boot \<Rightarrow> env \<Rightarrow> (string \<Rightarrow> rat) \<Rightarrow> (string \<Rightarrow> bool) \<Rightarrow> (string \<Rightarrow> string) \<Rightarrow> string \<Rightarrow> string \<Rightarrow> string list \<Rightarrow> (string \<Rightarrow> string option) \<Rightarrow> store \<Rightarrow>
     log_output \<times> (startup_failure + running)" where
  "server_main b e atof opens reason stamp src argv files d =
     (let conf_path = (if length argv > 1 then argv ! 1 else ''server.conf'');
          (rc, cfg) = config_load atof (files conf_path);
          greeting = (if rc = 0 then ''Loaded config from '' @ conf_path @ [CHR 0x0A]
                      else ''No config file found '' @ [CHR 0xE2, CHR 0x80, CHR 0x94] @ '' using defaults'' @ [CHR 0x0A]);
          (_, warning, lg) = log_init opens reason (Some (cfg_log_level cfg)) (Some (cfg_log_file cfg)) logger0;
          first = log_write stamp LOG_LEVEL_INFO (src, 254, ''main'')
            (''Loaded config from '' @ conf_path @ '' (log_level='' @ cfg_log_level cfg @ '', log_file='' @
             (if cfg_log_file cfg \<noteq> [] then cfg_log_file cfg else ''(console)'') @ '')'') lg in
      ((Stdout, greeting) # warning @ first, run_server_setup b e cfg d))"

section \<open>The timers of the loop\<close>

record timers =
  last_shrink_check :: int
  last_presence_cleanup :: int

text \<open>After each \<open>epoll_wait\<close>: is the pool checked, are stale typing states removed.\<close>

definition loop_tick :: "int \<Rightarrow> timers \<Rightarrow> bool \<times> bool \<times> timers" where
  "loop_tick now t =
     (let shrink = (now - last_shrink_check t \<ge> 5); cleanup = (now - last_presence_cleanup t \<ge> 5) in
      (shrink, cleanup, \<lparr>last_shrink_check = (if shrink then now else last_shrink_check t),
         last_presence_cleanup = (if cleanup then now else last_presence_cleanup t)\<rparr>))"

text \<open>Between two checks of the pool at least five seconds pass; a loop that runs every half second checks within six.\<close>

lemma loop_tick_spacing:
  "loop_tick now t = (shrink, cleanup, t') \<Longrightarrow>
     (shrink \<longrightarrow> last_shrink_check t + 5 \<le> now \<and> last_shrink_check t' = now) \<and> (\<not> shrink \<longrightarrow> now < last_shrink_check t' + 5)"
  by (auto simp: loop_tick_def Let_def)

section \<open>The end\<close>

text \<open>
  \<open>run_server\<close> behind its loop, up to the joins of \<open>threadpool_destroy\<close>: the clients are told, the pool is asked to stop,
  the back ends, the database and the registry are released.
\<close>

definition run_server_shutdown :: "boot \<Rightarrow> env \<Rightarrow> running \<Rightarrow> event list \<times> running" where
  "run_server_shutdown b e r =
     (let (evs, s) = server_shutdown e (run_state r) in
      (evs, r\<lparr>run_state := s, run_pool := destroy_announce (run_pool r),
         run_redis := redis_close (boot_hiredis b) (run_redis r), run_pg := pg_close (boot_libpq b) (run_pg r)\<rparr>))"

lemma stopped_server:
  assumes "run_server_shutdown b e r = (evs, r')"
  shows "pool_shutdown (pool (run_pool r')) \<and> \<not> redis_enabled (run_redis r') \<and> \<not> pg_enabled (run_pg r') \<and> \<not> db_handle (srv_db (run_state r'))"
    and "pool_reachable (run_pool r) \<Longrightarrow> pool_reachable (run_pool r')"
proof -
  have r': "r' = r\<lparr>run_state := snd (server_shutdown e (run_state r)), run_pool := destroy_announce (run_pool r),
      run_redis := redis_close (boot_hiredis b) (run_redis r), run_pg := pg_close (boot_libpq b) (run_pg r)\<rparr>"
    using assms by (simp add: run_server_shutdown_def split_beta Let_def)
  then show "pool_reachable (run_pool r) \<Longrightarrow> pool_reachable (run_pool r')" using reachable_run(5) by simp
  have "\<not> redis_enabled (redis_close c x)" "\<not> pg_enabled (pg_close c y)" for c x y
    by (simp_all add: redis_close_def pg_close_def)
  then show "pool_shutdown (pool (run_pool r')) \<and> \<not> redis_enabled (run_redis r') \<and> \<not> pg_enabled (run_pg r') \<and>
      \<not> db_handle (srv_db (run_state r'))"
    by (simp add: r' server_shutdown_def destroy_announce_def cond_broadcast_def db_close_def)
qed

section \<open>Properties\<close>

text \<open>C9: If the server comes up, it has exactly the configured number of threads, nothing queued and both back ends
  switched off.  With at least one thread and a positive minimum configured the pool is in a state covered by the theorems on the
  pool; with a \<open>history_size\<close> of at most one million configured, and a database file whose tables respect
  their primary keys and whose message ids ascend (\<open>store_inv\<close>), the state is covered by the theorems on the system.\<close>

theorem startup_establishes:
  assumes up: "snd (server_main b e atof opens reason stamp src argv files d) = Inr r"
    and cfg: "cfg = snd (config_load atof (files (if length argv > 1 then argv ! 1 else ''server.conf'')))"
  shows "(history_size cfg \<le> 1000000 \<and> store_inv d \<longrightarrow> reachable \<lparr>sys_conns = Map.empty, sys_srv = run_state r\<rparr>) \<and>
     (0 < thread_pool_size cfg \<and> 0 < pool_min_threads cfg \<longrightarrow> pool_reachable (run_pool r)) \<and>
     thread_count (pool (run_pool r)) = thread_pool_size cfg \<and> queue_items (queue_of (run_pool r)) = [] \<and>
     \<not> redis_enabled (run_redis r) \<and> \<not> pg_enabled (run_pg r)"
proof -
  have "run_server_setup b e cfg d = Inr r" using up cfg by (simp add: server_main_def Let_def split_beta)
  then obtain s st where s: "server_start e cfg d = Some s" "run_state r = s"
    and st: "threadpool_create (fst (boot_pool_blocks b)) (snd (boot_pool_blocks b) \<and> 0 \<le> thread_pool_size cfg)
        (boot_threads b) (nat (thread_pool_size cfg)) = Some st"
      "run_pool r = st\<lparr>pool := (pool st)\<lparr>min_threads := pool_min_threads cfg, shrink_idle_sec := pool_shrink_idle_sec cfg\<rparr>\<rparr>"
    and off: "\<not> redis_enabled (run_redis r)" "\<not> pg_enabled (run_pg r)"
    by (auto simp: run_server_setup_def Let_def redis_init_def pg_init_def split: option.splits if_splits)
  have size: "0 \<le> thread_pool_size cfg" using st(1) by (auto simp: threadpool_create_def split: if_splits)
  have full: "threadpool_create True True (nat (thread_pool_size cfg)) (nat (thread_pool_size cfg)) = Some st"
    using st(1) by (auto simp: threadpool_create_def split: if_splits)
  then have "thread_count (pool (run_pool r)) = thread_pool_size cfg" "queue_items (queue_of (run_pool r)) = []"
    using size by (auto simp: st(2) threadpool_create_def queue_items_def queue_addrs_def queue_of_def)
  moreover have "reachable \<lparr>sys_conns = Map.empty, sys_srv = run_state r\<rparr>" if "history_size cfg \<le> 1000000" "store_inv d"
    using s that by (auto intro: reachable.start)
  moreover have "pool_reachable (run_pool r)" if "0 < thread_pool_size cfg" "0 < pool_min_threads cfg"
    unfolding st(2) using that by (intro created [OF full]) simp_all
  ultimately show ?thesis using off by blast
qed

definition sample_boot :: boot where
  "sample_boot = \<lparr>boot_ssl_ctx = True, boot_cert = False, boot_key = False, boot_socket = True, boot_bind = True, boot_listen = True,
     boot_pool_blocks = (True, True), boot_threads = 16, boot_epoll = True, boot_hiredis = False, boot_libpq = False\<rparr>"

theorem startup_establishes_witness:
  "\<exists>r. snd (server_main sample_boot (sample_env 1 2) (\<lambda>_. 0) (\<lambda>_. False) (\<lambda>_. []) [] [] [] (\<lambda>_. None) empty_store) = Inr r \<and>
     reachable \<lparr>sys_conns = Map.empty, sys_srv = run_state r\<rparr> \<and> pool_reachable (run_pool r) \<and> thread_count (pool (run_pool r)) = 16"
proof -
  have cfg: "snd (config_load (\<lambda>_. 0) None) = config_defaults" by (simp add: config_load_def)
  have size: "thread_pool_size config_defaults = 16" by (simp add: config_defaults_def)
  have "\<exists>r. run_server_setup sample_boot (sample_env 1 2) config_defaults empty_store = Inr r"
    unfolding run_server_setup_def server_start_sample Let_def option.case size
    by (simp add: sample_boot_def threadpool_create_def)
  then have "\<exists>r. snd (server_main sample_boot (sample_env 1 2) (\<lambda>_. 0) (\<lambda>_. False) (\<lambda>_. []) [] [] [] (\<lambda>_. None) empty_store) = Inr r"
    by (simp add: server_main_def cfg Let_def split_beta)
  then obtain r where r: "snd (server_main sample_boot (sample_env 1 2) (\<lambda>_. 0) (\<lambda>_. False) (\<lambda>_. []) [] [] [] (\<lambda>_. None) empty_store) = Inr r" ..
  from startup_establishes [OF r refl] show ?thesis
    using r store_inv_empty by (auto simp: cfg config_defaults_def)
qed

end
