(* ===== verification/Persistence.thy ===== *)
theory Persistence
  imports Registry
begin

text \<open>
  Restoring the rooms of the database into the registry (\<open>registry_load_persistent_rooms\<close> in \<open>src/registry.c\<close>; no caller in
  the program).  The names are read into an array of 64 entries whatever the capacity of the registry: more of them
  are an overflow.  Each round of the loop has its own allocations (\<open>es i\<close>).
\<close>

datatype restore_error = Names_overflow | Null_history

definition persistent_room :: "env \<Rightarrow> store \<Rightarrow> registry \<Rightarrow> string \<Rightarrow> room" where
  "persistent_room e db g nm =
     (let r = new_room e db g nm None;
          r1 = (if env_alloc_members e then r else r\<lparr>members := []\<rparr>) in
      if g_history_size g > 0 \<and> \<not> env_alloc_history e
      then r1\<lparr>history := (ring_new (g_history_size g))\<lparr>slots := []\<rparr>\<rparr> else r1)"

text \<open>Rows written through the \<open>NULL\<close> pointer of a history that was not allocated.\<close>

definition null_history :: "env \<Rightarrow> store \<Rightarrow> registry \<Rightarrow> string \<Rightarrow> bool" where
  "null_history e db g nm \<longleftrightarrow> g_history_size g > 0 \<and> \<not> env_alloc_history e \<and> env_alloc_rows e \<and>
     db_load_history e db nm (int (g_history_size g)) \<noteq> []"

fun restore_loop :: "(nat \<Rightarrow> env) \<Rightarrow> store \<Rightarrow> nat \<Rightarrow> string list \<Rightarrow> registry \<Rightarrow> restore_error + registry" where
  "restore_loop es db i [] g = Inr g"
| "restore_loop es db i (nm # nms) g =
     (if fst (find_room g nm) \<noteq> None then restore_loop es db (Suc i) nms g
      else if room_count g \<ge> room_capacity g then Inr g
      else case env_alloc_room (es i) of
        None \<Rightarrow> restore_loop es db (Suc i) nms g
      | Some a \<Rightarrow>
          if null_history (es i) db g nm then Inl Null_history
          else restore_loop es db (Suc i) nms (add_room g a (persistent_room (es i) db g nm)))"

definition registry_load_persistent_rooms :: "env \<Rightarrow> (nat \<Rightarrow> env) \<Rightarrow> store \<Rightarrow> registry \<Rightarrow> restore_error + int \<times> registry" where
  "registry_load_persistent_rooms e es db g =
     (if room_list g = [] then Inr (0, g)
      else let names = db_load_rooms e db (int (room_capacity g)) in
        if length names > 64 then Inl Names_overflow
        else case restore_loop es db 0 names g of
          Inl er \<Rightarrow> Inl er
        | Inr g' \<Rightarrow> Inr (int (length names), g'))"

section \<open>Properties\<close>

text \<open>An environment in which every allocation of round \<open>i\<close> succeeds, in a block of its own.\<close>

definition restoring :: "(nat \<Rightarrow> env) \<Rightarrow> (nat \<Rightarrow> addr) \<Rightarrow> registry \<Rightarrow> bool" where
  "restoring es blk g \<longleftrightarrow> inj blk \<and>
     (\<forall>i. env_alloc_room (es i) = Some (blk i) \<and> env_alloc_members (es i) \<and> env_alloc_history (es i) \<and> room_heap g (blk i) = None)"

lemma persistent_room_ok:
  assumes "registry_inv g" and "env_alloc_members e" and "env_alloc_history e" and "nm \<noteq> []" and "length nm < MAX_ROOM_NAME_LEN"
  shows "room_name (persistent_room e db g nm) = nm" "ring_inv (history (persistent_room e db g nm))"
    "counted (members (persistent_room e db g nm)) (member_count (persistent_room e db g nm)) (member_capacity (persistent_room e db g nm)) {}"
  using assms load_history_inv registry_invD(6) [OF assms(1)] by (simp_all add: persistent_room_def new_room_def counted_empty)

text \<open>One round keeps the invariant and makes the room known; no room is forgotten.\<close>

lemma inv_restore_room:
  assumes "registry_inv g" and "fst (find_room g nm) = None" and "room_count g < room_capacity g" and "room_heap g a = None"
    and "env_alloc_members e" and "env_alloc_history e" and nm: "nm \<noteq> []" "length nm < MAX_ROOM_NAME_LEN"
  shows "registry_inv (add_room g a (persistent_room e db g nm))"
proof (rule inv_add_room [OF assms(1,4,3)])
  show "room_name r' \<noteq> room_name (persistent_room e db g nm)" if "room_heap g b = Some r'" for b r'
    by (rule find_room_cases [OF assms(1), of nm]) (use that assms persistent_room_ok in auto)
qed (use persistent_room_ok [OF assms(1,5,6) nm] nm in simp_all)

definition room_names :: "registry \<Rightarrow> string set" where
  "room_names g = room_name ` ran (room_heap g)"

lemma restore_loop_all:
  assumes "registry_inv g" and "\<forall>j \<ge> i. room_heap g (blk j) = None"
    and "inj blk" "\<And>j. env_alloc_room (es j) = Some (blk j) \<and> env_alloc_members (es j) \<and> env_alloc_history (es j)"
    and "\<forall>nm \<in> set nms. nm \<noteq> [] \<and> length nm < MAX_ROOM_NAME_LEN" and "room_count g + length nms \<le> room_capacity g"
  shows "\<exists>g'. restore_loop es db i nms g = Inr g' \<and> registry_inv g' \<and> room_names g' = room_names g \<union> set nms"
  using assms(1,2,5,6)
proof (induction nms arbitrary: i g)
  case (Cons nm nms)
  have nm: "nm \<noteq> []" "length nm < MAX_ROOM_NAME_LEN" using Cons.prems(3) by auto
  show ?case
  proof (cases "fst (find_room g nm)")
    case (Some b)
    then have "nm \<in> room_names g"
      by (rule_tac find_room_cases [OF Cons.prems(1), of nm]) (auto simp: room_names_def ran_def)
    moreover have "\<exists>g'. restore_loop es db (Suc i) nms g = Inr g' \<and> registry_inv g' \<and> room_names g' = room_names g \<union> set nms"
      using Cons.prems by (intro Cons.IH) auto
    ultimately show ?thesis using Some by auto
  next
    case None
    let ?r = "persistent_room (es i) db g nm"
    let ?g = "add_room g (blk i) ?r"
    have new: "registry_inv ?g"
      using Cons.prems assms(4) [of i] nm None by (intro inv_restore_room) auto
    have heap: "room_heap ?g = (room_heap g)(blk i \<mapsto> ?r)" "room_count ?g = room_count g + 1" "room_capacity ?g = room_capacity g"
      by (simp_all add: add_room_def)
    have names: "room_names ?g = insert nm (room_names g)"
      using persistent_room_ok(1) [OF Cons.prems(1) _ _ nm] assms(4) [of i] Cons.prems(2)
      by (simp add: room_names_def heap(1))
    have "\<forall>j \<ge> Suc i. room_heap ?g (blk j) = None"
      using Cons.prems(2) assms(3) by (auto simp: heap(1) dest: injD)
    then have "\<exists>g'. restore_loop es db (Suc i) nms ?g = Inr g' \<and> registry_inv g' \<and> room_names g' = room_names ?g \<union> set nms"
      using Cons.prems new heap by (intro Cons.IH) auto
    then show ?thesis using None Cons.prems(4) assms(4) [of i] names by (auto simp: null_history_def)
  qed
qed simp

text \<open>
  When the blocks come and there is space, the registry afterwards has the rooms it had and every room of the
  database the array could take; with more than 64 of them the names run over the array.
\<close>

lemma persistent_rooms_restored:
  assumes "registry_inv g" and "restoring es blk g" and "room_list g \<noteq> []"
    and names: "names = db_load_rooms e db (int (room_capacity g))" "\<forall>nm \<in> set names. nm \<noteq> []" "length names \<le> 64"
      "room_count g + length names \<le> room_capacity g"
  shows "\<exists>g'. registry_load_persistent_rooms e es db g = Inr (int (length names), g') \<and> registry_inv g' \<and>
     room_names g' = room_names g \<union> set names"
proof -
  have short: "\<forall>nm \<in> set names. nm \<noteq> [] \<and> length nm < MAX_ROOM_NAME_LEN"
    using names(2) by (auto simp: names(1) db_load_rooms_def strncpy_term_def cstr_def split: if_splits
        intro: le_less_trans [OF length_takeWhile_le])
  then show ?thesis
    using restore_loop_all [OF assms(1), of 0 blk es names db] assms(2,3) names(3,4)
    by (auto simp: registry_load_persistent_rooms_def restoring_def names(1) [symmetric] Let_def)
qed

lemma persistent_rooms_overflow:
  "room_list g \<noteq> [] \<Longrightarrow> 64 < length (db_load_rooms e db (int (room_capacity g))) \<Longrightarrow>
     registry_load_persistent_rooms e es db g = Inl Names_overflow"
  by (simp add: registry_load_persistent_rooms_def)

end
