(* ===== verification/Deployment.thy ===== *)
theory Deployment
  imports Server_Loop
begin

text \<open>
  The event loop, the thread pool and the connections together: a worker takes steps for the connection of the job it
  holds, while the main thread accepts, dispatches and cleans up.  With one worker, commands follow one another, and the
  invariant of the system holds throughout.  With two they can overlap, since the locks are taken inside the calls to the
  registry only: the last section shows that \<open>PM\<close> then uses a freed client.
\<close>

section \<open>The main thread and the workers\<close>

record deployment =
  dep_sys :: system
  dep_loop :: main_loop

text \<open>The state in which \<open>run_server\<close> enters its loop: the configured number of workers, no connection.\<close>

definition deploy :: "server_config \<Rightarrow> server \<Rightarrow> deployment" where
  "deploy cfg s =
     (let n = nat (thread_pool_size cfg); st = the (threadpool_create True True n n) in
      \<lparr>dep_sys = \<lparr>sys_conns = Map.empty, sys_srv = s\<rparr>,
       dep_loop = \<lparr>armed = {}, crew = st\<lparr>pool := (pool st)\<lparr>min_threads := pool_min_threads cfg,
         shrink_idle_sec := pool_shrink_idle_sec cfg\<rparr>\<rparr>\<rparr>\<rparr>)"

text \<open>
  The steps.  \<open>accept\<close> returns a descriptor that is not open.  A worker works on the connection \<open>f\<close> of the job
  it holds; it ends by re-arming the descriptor, or by closing the connection.  Every other step of the event loop
  and the pool (an event dispatched, a worker between two jobs, a wake-up, the shrink check) arms no descriptor and ends no work.
\<close>

inductive dep_step :: "deployment \<Rightarrow> event list \<Rightarrow> deployment \<Rightarrow> bool" where
  dep_accept: "sys_conns (dep_sys d) f = None \<Longrightarrow>
    dep_step d [Send f [if tls then CHR ''T'' else CHR ''P'']]
      \<lparr>dep_sys = (dep_sys d)\<lparr>sys_conns := (sys_conns (dep_sys d))(f \<mapsto> conn_create f)\<rparr>, dep_loop = epoll_add f (dep_loop d)\<rparr>"
| dep_work: "holds (workers (crew (dep_loop d))) t a \<Longrightarrow> f = job_at (job_heap (crew (dep_loop d))) a \<Longrightarrow>
    serve_step f (dep_sys d) evs sy \<Longrightarrow> sys_conns sy f \<noteq> None \<Longrightarrow>
    dep_step d evs (d\<lparr>dep_sys := sy\<rparr>)"
| dep_rearm: "holds (workers (crew (dep_loop d))) t a \<Longrightarrow> f = job_at (job_heap (crew (dep_loop d))) a \<Longrightarrow>
    worker_section t (crew (dep_loop d)) = Some st \<Longrightarrow>
    dep_step d [] (d\<lparr>dep_loop := epoll_rearm f ((dep_loop d)\<lparr>crew := st\<rparr>)\<rparr>)"
| dep_close: "holds (workers (crew (dep_loop d))) t a \<Longrightarrow> f = job_at (job_heap (crew (dep_loop d))) a \<Longrightarrow>
    worker_section t (crew (dep_loop d)) = Some st \<Longrightarrow> serve_step f (dep_sys d) evs sy \<Longrightarrow> sys_conns sy f = None \<Longrightarrow>
    dep_step d evs \<lparr>dep_sys = sy, dep_loop = (dep_loop d)\<lparr>crew := st\<rparr>\<rparr>"
| dep_pool: "loop_step (dep_loop d) m \<Longrightarrow> armed m \<subseteq> armed (dep_loop d) \<Longrightarrow>
    (\<And>t a. holds (workers (crew (dep_loop d))) t a \<Longrightarrow> holds (workers (crew m)) t a) \<Longrightarrow>
    dep_step d [] (d\<lparr>dep_loop := m\<rparr>)"
| dep_tick: "dep_step d [] (d\<lparr>dep_sys := (dep_sys d)\<lparr>sys_srv := (sys_srv (dep_sys d))\<lparr>srv_typing :=
      snd (presence_cleanup_stale e (srv_typing (sys_srv (dep_sys d))))\<rparr>\<rparr>\<rparr>)"

text \<open>A run, with all that was sent and logged.\<close>

inductive dep_run :: "deployment \<Rightarrow> event list \<Rightarrow> deployment \<Rightarrow> bool" where
  dep_stay: "dep_run d [] d"
| dep_more: "dep_run d evs d' \<Longrightarrow> dep_step d' evs' d'' \<Longrightarrow> dep_run d (evs @ evs') d''"

section \<open>Invariants\<close>

text \<open>The descriptors that can lead to a connection object: armed, queued or in the hands of a worker.\<close>

definition in_use :: "main_loop \<Rightarrow> fd set" where
  "in_use m = armed m \<union> carried (crew m)"

definition dep_inv :: "deployment \<Rightarrow> bool" where
  "dep_inv d \<longleftrightarrow> system_inv (dep_sys d) \<and> flight_inv (dep_loop d) \<and> in_use (dep_loop d) \<subseteq> dom (sys_conns (dep_sys d))"

lemma serve_step_conns:
  "serve_step f sy evs sy' \<Longrightarrow> dom (sys_conns sy) - {f} \<subseteq> dom (sys_conns sy') \<and> f \<in> dom (sys_conns sy)"
  by (induction rule: serve_step.induct) auto

lemma carried_job: "holds (workers st) t a \<Longrightarrow> job_at (job_heap st) a \<in> carried st"
  by (auto simp: carried_def carriers_def)

lemma carried_mono:
  "carriers st' \<subseteq> carriers st \<Longrightarrow> \<forall>a \<in> carriers st'. job_at (job_heap st') a = job_at (job_heap st) a \<Longrightarrow> carried st' \<subseteq> carried st"
  by (auto simp: carried_def)

text \<open>The end of a job takes its connection out of the hands of the pool.\<close>

lemma job_ended:
  assumes inv: "flight_inv m" and h: "holds (workers (crew m)) t a" and run: "worker_section t (crew m) = Some st"
  shows "carried st \<subseteq> carried (crew m) - {job_at (job_heap (crew m)) a}"
proof -
  have p: "pool_inv (crew m)" using inv by (simp add: flight_inv_def)
  note c = handled_carriers [OF p h run]
  then have "carried st \<subseteq> carried (crew m)" by (intro carried_mono) auto
  moreover have "job_at (job_heap (crew m)) a \<notin> carried st"
  proof
    assume "job_at (job_heap (crew m)) a \<in> carried st"
    then obtain b where "b \<in> carriers st" "job_at (job_heap st) b = job_at (job_heap (crew m)) a" by (auto simp: carried_def)
    with c inv show False by (auto simp: flight_inv_def inj_on_def)
  qed
  ultimately show ?thesis by blast
qed

lemma dispatch_in_use:
  assumes inv: "flight_inv m" and f: "f \<in> armed m" and fresh: "\<And>a. block = Some a \<Longrightarrow> job_heap (crew m) a = None"
  shows "in_use (dispatch_event closing block t cr f m) \<subseteq> in_use m"
proof -
  obtain rc st where run: "threadpool_submit block t cr f (crew m) = (rc, st)" by fastforce
  show ?thesis
  proof (cases "rc = 0")
    case False
    then have "st = crew m" using run by (auto simp: threadpool_submit_def split: if_splits option.splits)
    then show ?thesis using run by (auto simp: dispatch_event_def in_use_def)
  next
    case True
    then obtain a where a: "block = Some a" using run by (auto simp: threadpool_submit_def split: if_splits option.splits)
    have "pool_inv (crew m)" using inv by (simp add: flight_inv_def)
    from submit_carriers [OF this fresh [OF a] run [unfolded a True]]
    have "carried st \<subseteq> insert f (carried (crew m))" by (auto simp: carried_def)
    then show ?thesis using run f by (auto simp: dispatch_event_def in_use_def)
  qed
qed

lemma loop_step_in_use:
  assumes "loop_step m m'" and inv: "flight_inv m" and "armed m' \<subseteq> armed m"
    and keep: "\<And>t a. holds (workers (crew m)) t a \<Longrightarrow> holds (workers (crew m')) t a"
  shows "in_use m' \<subseteq> in_use m"
  using assms(1)
proof cases
  case (connected f)
  with assms(3) show ?thesis by simp
next
  case (event f block t closing cr)
  then show ?thesis using dispatch_in_use [OF inv] by simp
next
  case (handled t a st kept)
  have "workers st ! t = Checking"
    using handled(2,3) by (auto simp: holds_def worker_section_def set_worker_def)
  moreover have "holds (workers st) t a" using keep [OF handled(2)] handled(1) by (simp split: if_splits)
  ultimately show ?thesis by (simp add: holds_def)
next
  case (other_section t st)
  have "carried st \<subseteq> carried (crew m)"
    using section_carriers [of "crew m" t st] other_section inv by (intro carried_mono) (auto simp: flight_inv_def)
  with other_section show ?thesis by (auto simp: in_use_def)
next
  case (woken t)
  have "carriers (set_worker t Woken (crew m)) \<subseteq> carriers (crew m)"
    using woken holds_set_worker [of t "crew m" Woken] by (auto simp: carriers_def)
  then have "carried (set_worker t Woken (crew m)) \<subseteq> carried (crew m)" by (intro carried_mono) (auto simp: set_worker_def)
  with woken show ?thesis by (auto simp: in_use_def)
next
  case shrink_check
  have "carriers (threadpool_maybe_shrink (crew m)) = carriers (crew m) \<and>
      job_heap (threadpool_maybe_shrink (crew m)) = job_heap (crew m)"
    by (simp add: threadpool_maybe_shrink_def Let_def)
  with shrink_check show ?thesis by (auto simp: in_use_def carried_def)
qed

lemma dep_step_inv:
  assumes "dep_step d evs d'" and inv: "dep_inv d"
  shows "dep_inv d' \<and> no_uaf evs"
  using assms(1)
proof cases
  case (dep_accept f tls)
  have "f \<notin> in_use (dep_loop d)" using inv dep_accept(3) by (auto simp: dep_inv_def)
  then have "loop_step (dep_loop d) (epoll_add f (dep_loop d))" by (intro loop_step.connected) (simp_all add: in_use_def)
  moreover have "sys_step (dep_sys d) evs (dep_sys d')"
    unfolding dep_accept(1,2) using sys_step.accepted [OF dep_accept(3)] by simp
  ultimately show ?thesis
    using inv sys_step_safe [of "dep_sys d" evs "dep_sys d'"] loop_step_inv dep_accept by (auto simp: dep_inv_def in_use_def)
next
  case (dep_work t a f sy)
  have "dom (sys_conns (dep_sys d)) \<subseteq> dom (sys_conns sy)" using serve_step_conns [OF dep_work(4)] dep_work(5) by auto
  then show ?thesis using inv serve_step_safe [OF dep_work(4)] dep_work(1) by (simp add: dep_inv_def) (meson order_trans)
next
  case (dep_rearm t a f st)
  have "loop_step (dep_loop d) (if True then epoll_rearm (job_at (job_heap (crew (dep_loop d))) a) ((dep_loop d)\<lparr>crew := st\<rparr>)
      else (dep_loop d)\<lparr>crew := st\<rparr>)"
    by (rule loop_step.handled [OF dep_rearm(3,5)])
  then have "flight_inv (epoll_rearm f ((dep_loop d)\<lparr>crew := st\<rparr>))"
    using inv loop_step_inv dep_rearm(4) by (simp add: dep_inv_def)
  then show ?thesis
    using inv job_ended [OF _ dep_rearm(3,5)] carried_job [OF dep_rearm(3)] dep_rearm(1,2,4) by (auto simp: dep_inv_def in_use_def)
next
  case (dep_close t a f st sy)
  have "loop_step (dep_loop d) (if False then epoll_rearm (job_at (job_heap (crew (dep_loop d))) a) ((dep_loop d)\<lparr>crew := st\<rparr>)
      else (dep_loop d)\<lparr>crew := st\<rparr>)"
    by (rule loop_step.handled [OF dep_close(2,4)])
  then have fl: "flight_inv ((dep_loop d)\<lparr>crew := st\<rparr>)" using inv loop_step_inv by (simp add: dep_inv_def)
  have "f \<notin> armed (dep_loop d)" using inv carried_job [OF dep_close(2)] dep_close(3) by (auto simp: dep_inv_def flight_inv_def)
  then have "in_use ((dep_loop d)\<lparr>crew := st\<rparr>) \<subseteq> in_use (dep_loop d) - {f}"
    using inv job_ended [OF _ dep_close(2,4)] dep_close(3) by (auto simp: dep_inv_def in_use_def)
  also have "\<dots> \<subseteq> dom (sys_conns (dep_sys d)) - {f}" using inv by (intro Diff_mono) (simp_all add: dep_inv_def)
  also have "\<dots> \<subseteq> dom (sys_conns sy)" using serve_step_conns [OF dep_close(5)] by simp
  finally show ?thesis using inv fl serve_step_safe [OF dep_close(5)] dep_close(1) by (simp add: dep_inv_def)
next
  case (dep_pool m)
  then show ?thesis
    using inv loop_step_in_use [OF dep_pool(3) _ dep_pool(4,5)] loop_step_inv [OF dep_pool(3)] by (auto simp: dep_inv_def)
next
  case (dep_tick e)
  with inv show ?thesis using sys_step_safe [OF sys_step.tick] by (simp add: dep_inv_def)
qed

text \<open>Without another call the pool has the size it was created with; a pool of one never grows.\<close>

definition sole :: "pool_run \<Rightarrow> bool" where
  "sole st \<longleftrightarrow> length (workers st) = 1 \<and> max_threads (pool st) = 1"

lemma sole_section: "worker_section t st = Some st' \<Longrightarrow> sole st \<Longrightarrow> sole st'"
  by (auto simp: worker_section_def proceed_def sole_def set_worker_def put_queue_def add_idle_def leave_pool_def Let_def
      split: worker.splits if_splits option.splits prod.splits)

lemma sole_submit:
  assumes "pool_inv st" and "sole st" and "threadpool_submit block t cr f st = (rc, st')"
  shows "sole st'"
proof -
  have "thread_count (pool st) = 1"
    using assms(1,2) by (auto simp: pool_inv_def crew_inv_def sole_def)
  then show ?thesis
    using assms(2,3) by (auto simp: threadpool_submit_def scale_up_def cond_signal_def set_worker_def put_queue_def sole_def Let_def
        split: if_splits option.splits prod.splits)
qed

lemma sole_loop: "loop_step m m' \<Longrightarrow> flight_inv m \<Longrightarrow> sole (crew m) \<Longrightarrow> sole (crew m')"
proof (induction rule: loop_step.induct)
  case (event f m block t closing cr)
  then show ?case
    using sole_submit [of "crew m" block t cr f] by (auto simp: dispatch_event_def flight_inv_def split: prod.split)
next
  case (shrink_check m)
  then show ?case by (simp add: threadpool_maybe_shrink_def cond_broadcast_def sole_def Let_def)
next
  case (handled m t a st kept)
  then show ?case using sole_section [OF handled(2)] by simp
next
  case (other_section t m st)
  then show ?case using sole_section [OF other_section(4)] by simp
next
  case (woken t m)
  then show ?case by (simp add: sole_def set_worker_def)
qed simp

lemma dep_step_sole: "dep_step d evs d' \<Longrightarrow> dep_inv d \<Longrightarrow> sole (crew (dep_loop d)) \<Longrightarrow> sole (crew (dep_loop d'))"
  by (induction rule: dep_step.induct) (auto simp: dep_inv_def intro: sole_section sole_loop)

lemma deploy_inv:
  assumes "server_start e cfg db = Some s" and "store_inv db" and "history_size cfg \<le> 1000000"
    and "0 < thread_pool_size cfg" and "0 < pool_min_threads cfg"
  shows "dep_inv (deploy cfg s)"
proof -
  let ?n = "nat (thread_pool_size cfg)" and ?m = "dep_loop (deploy cfg s)"
  obtain st where st: "threadpool_create True True ?n ?n = Some st" by (simp add: threadpool_create_def)
  have crew: "crew ?m = st\<lparr>pool := (pool st)\<lparr>min_threads := pool_min_threads cfg, shrink_idle_sec := pool_shrink_idle_sec cfg\<rparr>\<rparr>"
    by (simp add: deploy_def st Let_def)
  have inv: "pool_inv (crew ?m)" unfolding crew by (intro pool_reachable_inv created [OF st]) (simp_all add: assms)
  have "workers (crew ?m) = replicate ?n Top" "queue_of (crew ?m) = (Map.empty, None, None, 0)"
    using st by (auto simp: crew threadpool_create_def queue_of_def)
  then have "carriers (crew ?m) = {}" by (auto simp: carriers_def holds_def queue_addrs_def)
  moreover have "armed ?m = {}" "dep_sys (deploy cfg s) = \<lparr>sys_conns = Map.empty, sys_srv = s\<rparr>" by (simp_all add: deploy_def Let_def)
  ultimately show ?thesis
    using inv system_inv_start [OF assms(1-3)] by (simp add: dep_inv_def flight_inv_def in_use_def carried_def)
qed

lemma dep_run_inv:
  "dep_run d evs d' \<Longrightarrow> dep_inv d \<Longrightarrow> dep_inv d' \<and> no_uaf evs \<and> (sole (crew (dep_loop d)) \<longrightarrow> sole (crew (dep_loop d')))"
proof (induction rule: dep_run.induct)
  case (dep_more d evs d' evs' d'')
  then show ?case using dep_step_inv [OF dep_more(2)] dep_step_sole [OF dep_more(2)] by auto
qed simp

text \<open>C1: A server configured with one worker thread (and at least one as the minimum), a \<open>history_size\<close> of at most one million and a database
  file whose tables respect their keys: whatever clients connect, send (apart from accepting
  an invitation into a full room) and disconnect, in whatever order the main thread and the worker
  run, and whatever the database, the clocks and the allocator do, there is never a second worker, so that
  commands follow one another; the lists hold exactly the live rooms and clients, the members of a room are exactly
  the clients in it, room names are unique, the tables respect their keys, and the client objects are
  exactly the clients of the open connections; every armed, queued or handled descriptor has its connection object; and
  no step uses a freed object, but for two log calls that print the name of a room or client just freed (events \<open>Log_freed\<close>).
  With two workers the last part is false: see \<open>pm_race\<close> below.\<close>

theorem deployed_safe:
  assumes "server_start e cfg db = Some s" and "store_inv db" and "history_size cfg \<le> 1000000"
    and "thread_pool_size cfg = 1" and "0 < pool_min_threads cfg" and "dep_run (deploy cfg s) evs d"
  shows "length (workers (crew (dep_loop d))) = 1 \<and> system_inv (dep_sys d) \<and> no_uaf evs \<and>
     armed (dep_loop d) \<union> carried (crew (dep_loop d)) \<subseteq> dom (sys_conns (dep_sys d))"
proof -
  have "dep_inv (deploy cfg s)" using assms(4) by (intro deploy_inv [OF assms(1-3) _ assms(5)]) simp
  moreover have "sole (crew (dep_loop (deploy cfg s)))"
    using assms(4) by (simp add: deploy_def threadpool_create_def sole_def Let_def)
  ultimately show ?thesis using dep_run_inv [OF assms(6)] by (auto simp: dep_inv_def in_use_def sole_def)
qed

text \<open>One worker: connection 5 is accepted, sends a registration, and the worker processes it.\<close>

definition sole_config :: server_config where
  "sole_config = small_config\<lparr>thread_pool_size := 1, pool_min_threads := 1, pool_shrink_idle_sec := 30\<rparr>"

definition sole_server :: server where
  "sole_server = the (server_start (sample_env 1 2) sole_config empty_store)"

lemma sole_server_start: "server_start (sample_env 1 2) sole_config empty_store = Some sole_server"
  by (simp add: sole_server_def server_start_def sole_config_def small_config_def registry_init_def sample_env_def db_open_def
      split_beta Let_def config_defaults_def)

lemma sole_deploy:
  "deploy sole_config sole_server =
     \<lparr>dep_sys = \<lparr>sys_conns = Map.empty, sys_srv = sole_server\<rparr>, dep_loop = \<lparr>armed = {}, crew = start_pool 1 1\<rparr>\<rparr>"
  by (simp add: deploy_def sole_config_def start_pool_def threadpool_create_def Let_def)

definition greeted :: conn where
  "greeted = (conn_create 5)\<lparr>conn_buf := ''REGISTER al pw'' @ [NL]\<rparr>"

lemma greeted_registers:
  "case process_line (chat_env 1 2) greeted sole_server ''REGISTER al pw'' of None \<Rightarrow> False | Some (evs, rc, c', s') \<Rightarrow> conn_me c' = Some 2"
  by code_simp

definition sole_system :: "conn \<Rightarrow> system" where
  "sole_system c = \<lparr>sys_conns = [5 \<mapsto> c], sys_srv = sole_server\<rparr>"

lemma sample_loop_busy: "holds (workers (crew sample_loop)) 0 7" "job_at (job_heap (crew sample_loop)) 7 = 5"
proof -
  have "workers (crew sample_loop) = [Handling 7]" "job_at (job_heap (crew sample_loop)) 7 = 5" by code_simp+
  then show "holds (workers (crew sample_loop)) 0 7" "job_at (job_heap (crew sample_loop)) 7 = 5" by (simp_all add: holds_def)
qed

lemma sole_work:
  "serve_step 5 sy evs sy' \<Longrightarrow> sys_conns sy' 5 \<noteq> None \<Longrightarrow>
     dep_step \<lparr>dep_sys = sy, dep_loop = sample_loop\<rparr> evs \<lparr>dep_sys = sy', dep_loop = sample_loop\<rparr>"
  using dep_work [of "\<lparr>dep_sys = sy, dep_loop = sample_loop\<rparr>" 0 7 5 evs sy'] sample_loop_busy by simp

lemma sole_run:
  "dep_run (deploy sole_config sole_server) [Send 5 ''P''] \<lparr>dep_sys = sole_system greeted, dep_loop = sample_loop\<rparr>"
proof -
  let ?d0 = "deploy sole_config sole_server" and ?sy = "sole_system (conn_create 5)"
  let ?m1 = "\<lparr>armed = {5}, crew = start_pool 1 1\<rparr>"
  have "dep_step ?d0 [Send 5 [if False then CHR ''T'' else CHR ''P'']] \<lparr>dep_sys = ?sy, dep_loop = ?m1\<rparr>"
    using dep_accept [of ?d0 5 False] by (simp add: sole_deploy sole_system_def)
  from dep_more [OF dep_stay this] have r1: "dep_run ?d0 [Send 5 ''P''] \<lparr>dep_sys = ?sy, dep_loop = ?m1\<rparr>" by simp
  have "\<not> holds (workers (start_pool 1 1)) t a" for t a
    by (auto simp: holds_def start_pool_def threadpool_create_def)
  moreover have "armed sample_event \<subseteq> {5}" by (auto simp: sample_event_def dispatch_event_def split_beta Let_def)
  ultimately have "dep_step \<lparr>dep_sys = ?sy, dep_loop = ?m1\<rparr> [] \<lparr>dep_sys = ?sy, dep_loop = sample_event\<rparr>"
    using dep_pool [of "\<lparr>dep_sys = ?sy, dep_loop = ?m1\<rparr>" sample_event] sample_loop_steps(1) by simp
  from dep_more [OF r1 this] have r2: "dep_run ?d0 [Send 5 ''P''] \<lparr>dep_sys = ?sy, dep_loop = sample_event\<rparr>" by simp
  have "workers (crew sample_event) = [Top]" by code_simp
  then have "\<not> holds (workers (crew sample_event)) t a" for t a by (auto simp: holds_def)
  then have "dep_step \<lparr>dep_sys = ?sy, dep_loop = sample_event\<rparr> [] \<lparr>dep_sys = ?sy, dep_loop = sample_loop\<rparr>"
    using dep_pool [of "\<lparr>dep_sys = ?sy, dep_loop = sample_event\<rparr>" sample_loop] sample_loop_steps(2) by (simp add: sample_loop_def)
  from dep_more [OF r2 this] have r3: "dep_run ?d0 [Send 5 ''P''] \<lparr>dep_sys = ?sy, dep_loop = sample_loop\<rparr>" by simp
  have "recv_loop [Received (''REGISTER al pw'' @ [NL])] (conn_create 5) = (False, greeted)"
    by (simp add: greeted_def conn_create_def)
  from received [of ?sy 5, OF _ this] have "serve_step 5 ?sy [] (sole_system greeted)" by (simp add: sole_system_def)
  then have "dep_step \<lparr>dep_sys = ?sy, dep_loop = sample_loop\<rparr> [] \<lparr>dep_sys = sole_system greeted, dep_loop = sample_loop\<rparr>"
    by (rule sole_work) (simp add: sole_system_def)
  from dep_more [OF r3 this] show ?thesis by simp
qed

theorem deployed_safe_witness:
  "\<exists>evs d c. dep_run (deploy sole_config sole_server) evs d \<and> sys_conns (dep_sys d) 5 = Some c \<and> conn_me c = Some 2 \<and>
     system_inv (dep_sys d) \<and> no_uaf evs"
proof -
  obtain evs rc c' s' where line: "process_line (chat_env 1 2) greeted sole_server ''REGISTER al pw'' = Some (evs, rc, c', s')" "conn_me c' = Some 2"
    using greeted_registers by (auto split: option.splits prod.splits)
  have bits: "NL \<in> set (conn_buf greeted)" "takeWhile (\<lambda>x. x \<noteq> NL) (conn_buf greeted) = ''REGISTER al pw''"
    "line_of ''REGISTER al pw'' = ''REGISTER al pw''" "conn_me greeted = None"
    "(room_heap (srv_reg sole_server) 1 = None) = True" "(client_heap (srv_reg sole_server) 2 = None) = True"
    by code_simp+
  let ?c = "c'\<lparr>conn_buf := drop (length ''REGISTER al pw'' + 1) (conn_buf greeted)\<rparr>"
  let ?sy = "\<lparr>sys_conns = (sys_conns (sole_system greeted))(5 \<mapsto> ?c), sys_srv = s'\<rparr>"
  have "fresh_blocks (chat_env 1 2) (srv_reg sole_server)"
    using bits(5,6) by (simp add: fresh_blocks_def chat_env_def sample_env_def domIff)
  then have "serve_step 5 (sole_system greeted) evs ?sy"
    using line bits by (intro serve_step.line) (simp_all add: sole_system_def line_guard_def)
  then have "dep_step \<lparr>dep_sys = sole_system greeted, dep_loop = sample_loop\<rparr> evs \<lparr>dep_sys = ?sy, dep_loop = sample_loop\<rparr>"
    by (rule sole_work) simp
  note run = dep_more [OF sole_run this]
  have cfg: "history_size sole_config \<le> 1000000" "thread_pool_size sole_config = 1" "0 < pool_min_threads sole_config"
    by (simp_all add: sole_config_def small_config_def)
  note safe = deployed_safe [OF sole_server_start store_inv_empty cfg run]
  show ?thesis
    by (intro exI [of _ "[Send 5 ''P''] @ evs"] exI [of _ "\<lparr>dep_sys = ?sy, dep_loop = sample_loop\<rparr>"] exI [of _ ?c] conjI)
      (use safe run line(2) in simp_all)
qed

section \<open>Overlapping commands\<close>

text \<open>
  With two workers the commands of two connections may overlap.  \<open>PM\<close> is the example: its first section ends when
  \<open>find_client\<close> releases the lock of the registry, its second reads the descriptor of the client found.  Together, with
  nothing in between, they are the handler.
\<close>

definition pm_lookup :: "env \<Rightarrow> fd \<Rightarrow> addr \<Rightarrow> cmd \<Rightarrow> server \<Rightarrow> response + (client \<times> addr \<times> string \<times> server)" where
  "pm_lookup e f ca c s =
     (case arg1 c of
        None \<Rightarrow> Inl (err f ''INVALID_COMMAND'' s)
      | Some target_name \<Rightarrow>
          (case arg2 c of
             None \<Rightarrow> Inl (err f ''EMPTY_MESSAGE'' s)
           | Some t \<Rightarrow>
               if length t = 0 then Inl (err f ''EMPTY_MESSAGE'' s)
               else case client_heap (srv_reg s) ca of
                 None \<Rightarrow> Inl ([Use_after_free ''PM''], s)
               | Some me \<Rightarrow>
                   let (allowed, s1) = spend_token e s ca me in
                   if \<not> allowed then Inl (err f ''RATE_LIMITED'' s1)
                   else case fst (find_client (srv_reg s1) target_name) of
                     None \<Rightarrow> Inl (err f ''UNKNOWN_USER'' s1)
                   | Some ta \<Rightarrow> Inr (me, ta, t, s1)))"

definition pm_deliver :: "fd \<Rightarrow> client \<Rightarrow> addr \<Rightarrow> string \<Rightarrow> server \<Rightarrow> response" where
  "pm_deliver f me ta t s = with_client ''PM'' s ta (\<lambda>target.
     ([Send (socket_fd target) (format_pm_reply MAX_LINE_LEN (client_name me) t), ok_reply f ''SENT''], s))"

lemma handle_pm_sections:
  "handle_pm e f ca c s = (case pm_lookup e f ca c s of Inl r \<Rightarrow> r | Inr (me, ta, t, s1) \<Rightarrow> pm_deliver f me ta t s1)"
  by (simp add: handle_pm_def pm_lookup_def pm_deliver_def with_arg_def with_client_def split_beta Let_def split: option.split)

text \<open>If the target disconnects between the two sections, the second one uses the freed client.\<close>

lemma pm_race:
  assumes s: "server_inv s" and found: "pm_lookup e f ca c s = Inr (me, ta, t, s1)"
    and gone: "disconnect_cleanup e' f' (Some ta) s1 = (evs, s2)"
  shows "pm_deliver f me ta t s2 = ([Use_after_free ''PM''], s2)"
proof -
  obtain target_name where sp: "spend_token e s ca me = (True, s1)" and fc: "fst (find_client (srv_reg s1) target_name) = Some ta"
    using found by (auto simp: pm_lookup_def Let_def split: option.splits if_splits prod.splits)
  note s1 = inv_spend_token(1) [OF s sp]
  have "client_heap (srv_reg s1) ta \<noteq> None" by (rule found_client_live [OF server_invD(1) [OF s1] fc])
  from safe_disconnect [OF s1 this, of e' f'] have "idents (srv_reg s2) ta = None" by (simp add: gone safe_quit_def)
  then have "client_heap (srv_reg s2) ta = None" by (simp add: idents_def)
  then show ?thesis by (simp add: pm_deliver_def with_client_def)
qed

text \<open>This happens in the sample chat: al (connection 5) sends a message to bob while bob's connection 6 is cleaned up.\<close>

lemma pm_race_sample:
  "\<exists>me s1. pm_lookup (sample_env 9 9) 5 2 \<lparr>ctype = TYPE_PM, arg1 = Some ''bob'', arg2 = Some ''hi'', arg3 = None\<rparr> (sys_srv sample_chat) =
       Inr (me, 3, ''hi'', s1) \<and>
     pm_deliver 5 me 3 ''hi'' (snd (disconnect_cleanup (sample_env 9 9) 6 (Some 3) s1)) =
       ([Use_after_free ''PM''], snd (disconnect_cleanup (sample_env 9 9) 6 (Some 3) s1))"
proof -
  let ?l = "pm_lookup (sample_env 9 9) 5 2 \<lparr>ctype = TYPE_PM, arg1 = Some ''bob'', arg2 = Some ''hi'', arg3 = None\<rparr> (sys_srv sample_chat)"
  have "case ?l of Inl r \<Rightarrow> False | Inr (me, ta, t, s1) \<Rightarrow> ta = 3 \<and> t = ''hi''" by code_simp
  then obtain me s1 where l: "?l = Inr (me, 3, ''hi'', s1)" by (cases ?l) auto
  have "server_inv (sys_srv sample_chat)" using reachable_system_inv [OF reachable_sample_chat] by (simp add: system_inv_def)
  from pm_race [OF this l surjective_pairing] l show ?thesis by blast
qed

end
