(* ===== verification/Spec2Isabelle.thy ===== *)
theory Spec2Isabelle
  imports Listing Startup Persistence Deployment
begin

text \<open>
  A multi-client chat server with presence: a C server (\<open>src/*.c\<close>, \<open>include/*.h\<close>) and a terminal client
  (\<open>replies/client.c\<close>, \<open>src/display.c\<close>).  This development models both programs and proves the properties
  numbered C1 to C40 in the comments before the theorems.

  \<^bold>\<open>The program and its model.\<close>  The main thread waits in \<open>epoll\<close>, accepts connections and queues ready ones for the
  thread pool.  A worker runs \<open>handle_client\<close>: it fills the buffer of the connection, cuts it into lines, parses each and
  runs the handler of its command, which works on the registry of rooms and clients, the database and the small
  modules, and sends replies.  The theories, from the bottom:

  \<^item> \<open>Prelude\<close>: C strings, \<open>snprintf\<close> and the append idiom with its wrap-around, \<open>atoi\<close>, array shifts.
  \<^item> \<open>Environment\<close>: what one command takes from outside (clocks, allocator, random source, SHA-256, the outcome of every
    SQL statement, row orders left open) as a record \<open>env\<close>, with the documented behaviour that single theorems assume
    as named predicates.
  \<^item> \<open>Protocol\<close> (\<open>src/protocol.c\<close>, the first parser in \<open>src/client_handler.c\<close>): both parsers and the formatters.
  \<^item> \<open>Config\<close> (\<open>src/config.c\<close>), \<open>Logging\<close> (\<open>src/log.c\<close>), \<open>Metrics\<close> (\<open>src/metrics.c\<close>).
  \<^item> \<open>History\<close>: the circular buffer of a room (\<open>src/registry.c\<close>), refined to the list of the last messages.
  \<^item> \<open>Db\<close> (\<open>src/db.c\<close>), \<open>Moderation\<close> (\<open>src/block.c\<close>, \<open>src/permission.c\<close>, \<open>src/invite.c\<close>, \<open>src/receipt.c\<close>), \<open>Session\<close>
    (\<open>src/session.c\<close>): tables as values in the record \<open>store\<close>, SQL statements as operations on them.
  \<^item> \<open>Registry\<close> (\<open>src/registry.c\<close>): rooms and clients as objects behind addresses in two heaps and two arrays of fixed
    capacity; \<open>Persistence\<close>: restoring the rooms of the database.
  \<^item> \<open>Presence\<close> (\<open>src/presence.c\<close> and the login limiter of \<open>src/server.c\<close>): two bounded tables.
  \<^item> \<open>Server_State\<close>, \<open>Room_Commands\<close>, \<open>Message_Commands\<close>, \<open>Moderation_Commands\<close>, \<open>Account_Commands\<close>, \<open>Client_Handler\<close>
    (\<open>src/client_handler.c\<close>): one function per command, composed by \<open>handler_of\<close>, \<open>process_line\<close> and \<open>process_lines\<close>.
  \<^item> \<open>System\<close>: the connections and the server as a step relation \<open>sys_step\<close>, one command after the other, with the reachable
    states; \<open>Scenario\<close> and \<open>Delivery\<close>: runs of it, and who receives a message.
  \<^item> \<open>Threadpool\<close> (\<open>src/threadpool.c\<close>): workers as interleaved critical sections over a linked queue in a heap.
  \<^item> \<open>Server_Loop\<close>, \<open>Startup\<close> (\<open>src/server.c\<close>): sending, one-shot events, shutdown; start and timers.
  \<^item> \<open>Deployment\<close>: the event loop, the pool and the connections in one step relation \<open>dep_step\<close>; and what goes wrong when two
    commands overlap.
  \<^item> \<open>Backends\<close> (\<open>src/redis.c\<close>, \<open>src/pg.c\<close>): the optional back ends, switched off by \<open>run_server\<close>.
  \<^item> \<open>Chat_Client\<close>: the terminal client; \<open>Access\<close> and \<open>Listing\<close>: properties of client and server together.

  \<^bold>\<open>Interfaces.\<close>  The locale \<open>command\<close> is the contract of a handler (it keeps the invariant of the server, uses no freed object
  and leaves the connected clients alone) and is interpreted on every handler; \<open>dispatched\<close> gives it for the
  dispatcher.  \<open>bounded_log\<close> is the contract of the history buffer, \<open>flag_table\<close> and \<open>removable_flags\<close> that of the block, mute,
  ban, invitation and receipt tables, \<open>bounded_table\<close> that of the two tables of \<open>Presence\<close>, \<open>fifo\<close> that of the job
  queue.

  \<^bold>\<open>What is shown.\<close>  Safety: the invariant of the whole system in every run of a server with one worker (C1), one worker per connection (C3),
  what a connection without a client can do (C7).  Function: delivery (C2), history as the last messages, up to a million (C8), paging
  (C11), editing and deletion, tokens, passwords, roles and flags.  Communication: parsing inverts printing (C4), typed
  commands arrive (C15), messages are shown (C16), the cutting of the byte stream does not matter while the connection is
  open (C10), sending is complete (C20).  Progress: the pool drains (C6), \<open>db_create_session\<close> returns (C22).  Bounds: the token bucket in \<open>double\<close> arithmetic (C12), reply and
  report buffers.  The limiters: typing broadcasts (C31) and logins (C32).  Several properties state defects exactly: when a worker faults (C26), a full room that is
  accepted into (C27), listings cut by the client (C28), sessions that survive their revocation (C34), unreachable
  endpoints (C37), the clean-up of typing states (C38).

  \<^bold>\<open>Conventions.\<close>  A pointer is an address or \<open>None\<close>; a freed object has left its heap, and reading it is an event
  (\<open>Use_after_free\<close>, or \<open>Log_freed\<close> when only a log line prints it).  Writing behind a buffer is an error value
  (\<open>Out_of_bounds\<close>, \<open>Overflow\<close>, \<open>Screen_overflow\<close>).  C strings are lists without a terminator, cut by \<open>cstr\<close> where a NUL
  would end them.  Numbers from text are cut to 32 bits; counters are 64 bit words; \<open>double\<close> values are rationals with
  a rounding function.  Loops are structural recursion or have a measure; only the retry loop of \<open>db_create_session\<close> may
  run for ever, and is a \<open>partial_function\<close>, so that a run that does not return is \<open>None\<close>.  No fuel is used but in \<open>walk\<close> and
  \<open>free_jobs\<close>, which follow a list of known length.

  \<^bold>\<open>Not modelled.\<close>  The records of TLS and the socket calls of set-up (OpenSSL, kernel): their outcomes are arguments.
  Locks: an operation under a lock is one step, and the workers of the pool interleave between critical sections.  A
  command is one step of \<open>sys_step\<close> and \<open>dep_step\<close>.  That is faithful when the pool has one worker (C1 shows that a pool of one never
  grows; the main thread touches only the table of typing users, under its lock).  With more workers, which is the default, the
  properties over \<open>reachable\<close> states (C2, C19, C27) hold for the runs in which commands do not overlap: the program takes its locks inside
  the calls to the registry, and lemma \<open>pm_race\<close> of \<open>Deployment\<close> shows a use after free when they do.  The same properties
  assume a \<open>history_size\<close> of at most one million and a database file whose tables respect their keys.  \<open>strtok\<close> in \<open>src/protocol.c\<close> keeps its state in one
  global of the C library, shared by all workers; here each parse has its own.  \<open>config_get\<close>, \<open>metrics_get\<close> and
  \<open>evict_old_client_if_exists\<close> have no effect to model.  The guard \<open>accept_fits\<close> excludes from \<open>sys_step\<close> the one
  command that breaks the invariant (C27).
\<close>

end
